(* ===== verification/Prelude.thy ===== *)
theory Prelude
  imports Main "HOL-Library.Word"
begin

unbundle bit_operations_syntax

text \<open>
  What every component theory shares. Failures of the C++ code are values of
  \<open>error\<close>: a failed \<^verbatim>\<open>assert\<close>, a \<^verbatim>\<open>panic\<close> or \<^verbatim>\<open>fatal\<close>, an access past the
  end of a \<^verbatim>\<open>std::vector\<close>, an operation the language leaves undefined, a dereferenced
  null pointer, and a loop that did not end within the iterations it was given. A fallible operation returns \<open>'a result\<close>;
  \<open>rbind\<close> sequences two of them. \<open>vec_at\<close> and \<open>vec_set\<close> are the unchecked
  subscript of \<^verbatim>\<open>std::vector\<close>, with the access outside its bounds written out as
  an error; \<open>rfold\<close> is a \<^verbatim>\<open>for\<close> loop whose body may fail. The rest of the theory
  is the library of facts about lists, logarithms and masks that the components use.
\<close>

datatype error = AssertFailed | Panic | Fatal | OutOfBounds | Undefined | NullDeref

type_synonym 'a result = "error + 'a"

type_synonym u8 = "8 word"
type_synonym u16 = "16 word"
type_synonym u32 = "32 word"
type_synonym u64 = "64 word"

named_theorems result_simps \<open>evaluation of fallible code\<close>

section \<open>Fallible code\<close>

definition rbind :: "'a result \<Rightarrow> ('a \<Rightarrow> 'b result) \<Rightarrow> 'b result" where
  "rbind m f = (case m of Inl e \<Rightarrow> Inl e | Inr x \<Rightarrow> f x)"

definition rassert :: "bool \<Rightarrow> unit result" where
  "rassert b = (if b then Inr () else Inl AssertFailed)"

definition vec_at :: "'a list \<Rightarrow> nat \<Rightarrow> 'a result" where
  "vec_at xs i = (if i < length xs then Inr (xs ! i) else Inl OutOfBounds)"

definition vec_set :: "'a list \<Rightarrow> nat \<Rightarrow> 'a \<Rightarrow> 'a list result" where
  "vec_set xs i v = (if i < length xs then Inr (xs[i := v]) else Inl OutOfBounds)"

text \<open>Subscripts of a C array by a signed index.\<close>

definition arr_at :: "'a list \<Rightarrow> int \<Rightarrow> 'a result" where
  "arr_at xs i = (if i < 0 then Inl OutOfBounds else vec_at xs (nat i))"

definition arr_set :: "'a list \<Rightarrow> int \<Rightarrow> 'a \<Rightarrow> 'a list result" where
  "arr_set xs i v = (if i < 0 then Inl OutOfBounds else vec_set xs (nat i) v)"

fun rfold :: "('s \<Rightarrow> 'a \<Rightarrow> 's result) \<Rightarrow> 's \<Rightarrow> 'a list \<Rightarrow> 's result" where
  "rfold f s [] = Inr s"
| "rfold f s (x # xs) = rbind (f s x) (\<lambda>s'. rfold f s' xs)"

lemma rbind_simps [simp, result_simps]:
  "rbind (Inl e) f = Inl e"
  "rbind (Inr x) f = f x"
  by (simp_all add: rbind_def)

lemma rbind_Inr_iff [result_simps]:
  "rbind m f = Inr y \<longleftrightarrow> (\<exists>x. m = Inr x \<and> f x = Inr y)"
  by (cases m) auto

lemma rbind_assoc: "rbind (rbind m f) g = rbind m (\<lambda>x. rbind (f x) g)"
  by (cases m) auto

lemma rbind_cong [fundef_cong]:
  "m = m' \<Longrightarrow> (\<And>x. m' = Inr x \<Longrightarrow> f x = f' x) \<Longrightarrow> rbind m f = rbind m' f'"
  by (cases m') auto

lemma rassert_simps [simp, result_simps]:
  "rassert True = Inr ()"
  "rassert False = Inl AssertFailed"
  "rassert b = Inr u \<longleftrightarrow> b"
  by (simp_all add: rassert_def)

lemma vec_at_Inr [simp, result_simps]: "i < length xs \<Longrightarrow> vec_at xs i = Inr (xs ! i)"
  by (simp add: vec_at_def)

lemma vec_at_Inr_iff [result_simps]: "vec_at xs i = Inr x \<longleftrightarrow> i < length xs \<and> xs ! i = x"
  by (simp add: vec_at_def)

lemma vec_set_Inr [simp, result_simps]: "i < length xs \<Longrightarrow> vec_set xs i v = Inr (xs[i := v])"
  by (simp add: vec_set_def)

lemma vec_set_Inr_iff [result_simps]:
  "vec_set xs i v = Inr ys \<longleftrightarrow> i < length xs \<and> ys = xs[i := v]"
  by (auto simp: vec_set_def)

lemma vec_oob [simp, result_simps]:
  "length xs \<le> i \<Longrightarrow> vec_at xs i = Inl OutOfBounds"
  "length xs \<le> i \<Longrightarrow> vec_set xs i v = Inl OutOfBounds"
  by (simp_all add: vec_at_def vec_set_def)

lemma arr_Inr [simp, result_simps]:
  "0 \<le> i \<Longrightarrow> nat i < length xs \<Longrightarrow> arr_at xs i = Inr (xs ! nat i)"
  "0 \<le> i \<Longrightarrow> nat i < length xs \<Longrightarrow> arr_set xs i v = Inr (xs[nat i := v])"
  by (simp_all add: arr_at_def arr_set_def)

lemma rfold_append: "rfold f s (xs @ ys) = rbind (rfold f s xs) (\<lambda>s'. rfold f s' ys)"
  by (induction xs arbitrary: s) (auto simp: rbind_assoc)

text \<open>The loop rule: an invariant that the body establishes and keeps holds after the loop,
  and the loop runs to its end.\<close>

lemma rfold_invariant:
  assumes "P 0 s"
    and "\<And>i s. i < length xs \<Longrightarrow> P i s \<Longrightarrow> \<exists>s'. f s (xs ! i) = Inr s' \<and> P (Suc i) s'"
  shows "\<exists>s'. rfold f s xs = Inr s' \<and> P (length xs) s'"
  using assms
proof (induction xs arbitrary: s P)
  case Nil
  then show ?case by simp
next
  case (Cons x xs)
  from Cons.prems(2) [of 0 s] Cons.prems(1) obtain s1 where s1: "f s x = Inr s1" "P 1 s1"
    by auto
  have "\<exists>s'. rfold f s1 xs = Inr s' \<and> P (Suc (length xs)) s'"
  proof (rule Cons.IH [of "\<lambda>i. P (Suc i)"])
    show "P (Suc 0) s1" using s1 by simp
    fix i s assume "i < length xs" and "P (Suc i) s"
    then show "\<exists>s'. f s (xs ! i) = Inr s' \<and> P (Suc (Suc i)) s'"
      using Cons.prems(2) [of "Suc i" s] by simp
  qed
  with s1 show ?case by simp
qed

section \<open>Lists\<close>

lemma nth_update_if: "i < length xs \<Longrightarrow> xs[j := v] ! i = (if i = j then v else xs ! i)"
  by (simp add: nth_list_update)

lemma replicate_numeral: "replicate (numeral k) x = x # replicate (pred_numeral k) x"
  by (simp add: numeral_eq_Suc)

section \<open>Floor of the binary logarithm\<close>

fun flog2 :: "nat \<Rightarrow> nat" where
  "flog2 n = (if n \<le> 1 then 0 else Suc (flog2 (n div 2)))"

declare flog2.simps [simp del]

lemma flog2_bounds: "0 < n \<Longrightarrow> 2 ^ flog2 n \<le> n \<and> n < 2 ^ Suc (flog2 n)"
proof (induction n rule: flog2.induct)
  case (1 n)
  show ?case
  proof (cases "n \<le> 1")
    case True
    with "1.prems" show ?thesis by (simp add: flog2.simps [of n])
  next
    case False
    then have pos: "0 < n div 2" by simp
    with "1.IH" False have ih: "2 ^ flog2 (n div 2) \<le> n div 2 \<and> n div 2 < 2 ^ Suc (flog2 (n div 2))"
      by blast
    have fl: "flog2 n = Suc (flog2 (n div 2))" using False by (simp add: flog2.simps [of n])
    have "2 * 2 ^ flog2 (n div 2) \<le> 2 * (n div 2)" using ih by linarith
    moreover have "2 * (n div 2) \<le> n" by simp
    moreover have "n < 2 * (n div 2) + 2" by presburger
    moreover have "2 * (n div 2) + 2 \<le> 2 * 2 ^ Suc (flog2 (n div 2))" using ih by linarith
    ultimately show ?thesis unfolding fl by simp
  qed
qed

lemma flog2_power2 [simp]: "flog2 (2 ^ k) = k"
proof -
  have b: "2 ^ flog2 (2 ^ k) \<le> (2::nat) ^ k \<and> (2::nat) ^ k < 2 ^ Suc (flog2 (2 ^ k))"
    by (rule flog2_bounds) simp
  from b have "flog2 (2 ^ k) \<le> k" by (meson one_less_numeral_iff power_increasing_iff semiring_norm(76))
  moreover from b have "k < Suc (flog2 (2 ^ k))"
    using power_less_imp_less_exp [of "2::nat" k "Suc (flog2 (2 ^ k))"] by linarith
  ultimately show ?thesis by simp
qed

lemma flog2_less: "0 < n \<Longrightarrow> n < 2 ^ k \<Longrightarrow> flog2 n < k"
  using flog2_bounds [of n] power_less_imp_less_exp [of "2::nat" "flog2 n" k] by linarith

lemma flog2_ge: "2 ^ k \<le> n \<Longrightarrow> k \<le> flog2 n"
proof -
  assume le: "2 ^ k \<le> n"
  then have pos: "0 < n" by (metis less_le_trans zero_less_numeral zero_less_power)
  from flog2_bounds [OF pos] le have "(2::nat) ^ k < 2 ^ Suc (flog2 n)" by linarith
  then show "k \<le> flog2 n"
    using power_less_imp_less_exp [of "2::nat" k "Suc (flog2 n)"] by simp
qed

lemma power2_split4: "2 \<le> k \<Longrightarrow> (2::nat) ^ k = 4 * 2 ^ (k - 2)"
  by (auto simp: le_iff_add power_add)

section \<open>Masks\<close>

lemma unat_and_mask: "unat (x AND mask n :: 'a::len word) = unat x mod 2 ^ n"
proof -
  have "unat (x AND mask n) = take_bit n (unat x)"
    by (simp add: unsigned_take_bit_eq flip: take_bit_eq_mask)
  then show ?thesis by (simp add: take_bit_eq_mod)
qed

lemma mask_split_eq:
  assumes "x AND m = y AND m" and "x AND NOT m = y AND NOT m"
  shows "(x :: 'a::len word) = y"
proof (rule bit_word_eqI)
  fix n assume "n < LENGTH('a)"
  have "bit (x AND m) n = bit (y AND m) n" "bit (x AND NOT m) n = bit (y AND NOT m) n"
    using assms by simp_all
  with \<open>n < LENGTH('a)\<close> show "bit x n = bit y n" by (auto simp: bit_simps)
qed

lemma unat64_less: "unat (x :: u64) < 2 ^ 64"
  using unsigned_less [of x, where 'a = nat] by simp

lemma unat32_less: "unat (x :: u32) < 2 ^ 32"
  using unsigned_less [of x, where 'a = nat] by simp

lemma unat_ucast_32_64: "unat (ucast (x :: u32) :: u64) = unat x"
  using unat32_less [of x] by (simp add: unsigned_ucast_eq take_bit_nat_eq_self)

lemma unat_pow2: "k < LENGTH('a) \<Longrightarrow> unat (2 ^ k :: 'a::len word) = 2 ^ k"
proof -
  assume "k < LENGTH('a)"
  then have "unat (of_nat (2 ^ k) :: 'a word) = 2 ^ k" by (simp add: unat_of_nat take_bit_nat_eq_self del: of_nat_power)
  then show ?thesis by simp
qed

lemma unat_of_nat32: "n < 2 ^ 32 \<Longrightarrow> unat (of_nat n :: u32) = n"
  by (simp add: unat_of_nat take_bit_nat_eq_self)

lemma unat_of_nat64: "n < 2 ^ 64 \<Longrightarrow> unat (of_nat n :: u64) = n"
  by (simp add: unat_of_nat take_bit_nat_eq_self)

lemma unat_inc: "x < y \<Longrightarrow> unat (x + 1 :: 'a::len word) = Suc (unat x)"
  by unat_arith

lemma unat_add_of_nat:
  assumes "unat (x :: 'a::len word) + n < 2 ^ LENGTH('a)"
  shows "unat (x + of_nat n) = unat x + n"
proof -
  have "unat (of_nat n :: 'a word) = n" using assms by (simp add: unat_of_nat take_bit_nat_eq_self)
  with assms show ?thesis by (simp add: unat_word_ariths)
qed

lemma unat_add_small: "unat a + unat b < 2 ^ LENGTH('a) \<Longrightarrow> unat (a + b :: 'a::len word) = unat a + unat b"
  using unat_add_of_nat [of a "unat b"] by simp

lemma unat_dec_Suc: "unat (x :: 'a::len word) = Suc n \<Longrightarrow> unat (x - 1) = n"
  by (subst unat_minus_one) auto

lemma sint32_of_int: "- (2 ^ 31) \<le> k \<Longrightarrow> k < 2 ^ 31 \<Longrightarrow> sint (word_of_int k :: u32) = k"
  by (simp add: sint_sbintrunc' signed_take_bit_int_eq_self)

lemma unat32_of_int: "0 \<le> k \<Longrightarrow> k < 2 ^ 32 \<Longrightarrow> unat (word_of_int k :: u32) = nat k"
  by (simp add: unat_eq_nat_uint uint_word_of_int)

lemma word_dec_le: "(c::'a::len word) \<le> m \<Longrightarrow> c \<noteq> 0 \<Longrightarrow> c - 1 \<le> m"
  by unat_arith

lemma unat_drop_bit_div: "unat (drop_bit n x :: 'a::len word) = unat x div 2 ^ n"
proof -
  have "unat (drop_bit n x) = drop_bit n (unat x)" by (rule unat_drop_bit_eq)
  then show ?thesis by (simp add: drop_bit_eq_div)
qed

section \<open>Runs that succeed, taken apart\<close>

lemma rbind_InrE: "rbind m f = Inr y \<Longrightarrow> (\<And>x. m = Inr x \<Longrightarrow> f x = Inr y \<Longrightarrow> P) \<Longrightarrow> P"
  by (cases m) auto

lemma if_InrE: "(if b then x else y) = Inr s \<Longrightarrow> (b \<Longrightarrow> x = Inr s \<Longrightarrow> P) \<Longrightarrow> (\<not> b \<Longrightarrow> y = Inr s \<Longrightarrow> P) \<Longrightarrow> P"
  by (cases b) auto

lemma case_option_InrE:
  "(case z of None \<Rightarrow> x | Some v \<Rightarrow> y v) = Inr s \<Longrightarrow> (z = None \<Longrightarrow> x = Inr s \<Longrightarrow> P) \<Longrightarrow>
   (\<And>v. z = Some v \<Longrightarrow> y v = Inr s \<Longrightarrow> P) \<Longrightarrow> P"
  by (cases z) auto

lemma case_prod_InrE: "(case z of (a, b) \<Rightarrow> f a b) = Inr s \<Longrightarrow> (\<And>a b. z = (a, b) \<Longrightarrow> f a b = Inr s \<Longrightarrow> P) \<Longrightarrow> P"
  by (cases z) auto

lemmas result_elims = rbind_InrE if_InrE case_option_InrE case_prod_InrE

lemma arr_at_range: "arr_at xs i = Inr x \<Longrightarrow> 0 \<le> i \<and> i < int (length xs)"
  by (auto simp: arr_at_def vec_at_def split: if_splits)

lemma arr_set_length: "arr_set xs i v = Inr ys \<Longrightarrow> length ys = length xs"
  by (auto simp: arr_set_def vec_set_def split: if_splits)

lemma arr_at_set: "arr_set xs i v = Inr ys \<Longrightarrow> arr_at ys i = Inr v"
  by (auto simp: arr_at_def arr_set_def vec_at_def vec_set_def split: if_splits)

end
