(* ===== verification/LVPT.thy ===== *)
theory LVPT
  imports Prelude
begin

unbundle bit_operations_syntax

text \<open>
  The load value prediction table with its load classification table:
  \<^verbatim>\<open>cpu/myminor/LVPT.hh\<close> and \<^verbatim>\<open>LVPT.cc\<close>. \<open>lvpt\<close> is the object's state (the
  statistics it bumps in \<^verbatim>\<open>cpu.stats\<close> included), \<open>lvpt_new\<close>, \<open>lvpt_updateTable\<close> and
  \<open>lvpt_read\<close> its operations; \<open>lvpt_out\<close> collects the reference parameters
  \<^verbatim>\<open>read\<close> fills in and the pipeline then carries beside each instruction.
\<close>

record lvpt_entry =
  le_valid :: bool
  le_tag :: u64
  le_addr :: u64
  le_value :: u64

record lvpt_out =
  outPredict :: bool
  outConstant :: bool
  outValue :: u64
  outPC :: u64
  outIndex :: u64
  outAddr :: u64
  outCounter :: u32

record lvpt =
  lvpt_tableSize :: u32
  lvpt_threshold :: u32
  lvpt_maxValue :: u32
  valueTable :: "lvpt_entry list"
  predictTable :: "u32 list"
  lvptInCorrectPred :: nat
  lvptCorrectPred :: nat
  lvptTableAdditions :: nat

definition lvpt_entry_zero :: lvpt_entry where
  "lvpt_entry_zero = \<lparr>le_valid = False, le_tag = 0, le_addr = 0, le_value = 0\<rparr>"

text \<open>\<^verbatim>\<open>resize\<close> value-initialises the new elements.\<close>

definition lvpt_new :: "u32 \<Rightarrow> u32 \<Rightarrow> u32 \<Rightarrow> lvpt result" where
  "lvpt_new tableSize threshold maxValue =
     (if threshold > maxValue then Inl Fatal
      else Inr \<lparr>lvpt_tableSize = tableSize, lvpt_threshold = threshold, lvpt_maxValue = maxValue,
                valueTable = replicate (unat tableSize) lvpt_entry_zero,
                predictTable = replicate (unat (tableSize div 4)) 0,
                lvptInCorrectPred = 0, lvptCorrectPred = 0, lvptTableAdditions = 0\<rparr>)"

text \<open>
  \<^verbatim>\<open>log2(tableSize)\<close> is a \<^verbatim>\<open>double\<close> truncated to \<^verbatim>\<open>unsigned long\<close>, the floor of the
  logarithm; at 0 it is minus infinity, whose conversion is undefined. The mask is computed in
  \<^verbatim>\<open>int\<close> (\<^verbatim>\<open>0x1 << numIndexBits\<close>), which overflows at 31 bits.
\<close>

definition lvpt_indexMask :: "u32 \<Rightarrow> u64 result" where
  "lvpt_indexMask tableSize =
     (if tableSize = 0 then Inl Undefined
      else let numIndexBits = flog2 (unat tableSize) in
        if numIndexBits < 31 then Inr (mask numIndexBits) else Inl Undefined)"

definition lvpt_updateTable :: "lvpt \<Rightarrow> u64 \<Rightarrow> u64 \<Rightarrow> u64 \<Rightarrow> bool \<Rightarrow> bool \<Rightarrow> lvpt result" where
  "lvpt_updateTable l data addr pc predict constant =
     rbind (lvpt_indexMask (lvpt_tableSize l)) (\<lambda>indexMask.
     let index = unat (pc AND indexMask);
         indexLCT = unat (drop_bit 2 (pc AND indexMask));
         tag = pc AND NOT indexMask in
     rbind (vec_at (valueTable l) index) (\<lambda>old.
     rbind (vec_at (predictTable l) indexLCT) (\<lambda>prediction.
     if constant then
       if \<not> predict then
         let entry = old\<lparr>le_valid := True, le_value := data, le_addr := addr, le_tag := tag\<rparr>;
             added = le_tag old \<noteq> le_tag entry \<or> \<not> le_valid old in
         Inr (l\<lparr>lvptInCorrectPred := Suc (lvptInCorrectPred l),
                predictTable := (predictTable l)
                  [indexLCT := (if prediction = 0 then 0 else prediction - 1)],
                lvptTableAdditions := (if added then Suc (lvptTableAdditions l)
                                       else lvptTableAdditions l),
                valueTable := (valueTable l)[index := entry]\<rparr>)
       else
         Inr (l\<lparr>predictTable := (predictTable l)
                  [indexLCT := (if lvpt_maxValue l \<le> prediction then prediction
                                else prediction + 1)],
                lvptCorrectPred := Suc (lvptCorrectPred l)\<rparr>)
     else Inr l)))"

definition lvpt_out_zero :: lvpt_out where
  "lvpt_out_zero = \<lparr>outPredict = False, outConstant = False, outValue = 0, outPC = 0,
                    outIndex = 0, outAddr = 0, outCounter = 0\<rparr>"

definition lvpt_read :: "lvpt \<Rightarrow> u64 \<Rightarrow> lvpt_out result" where
  "lvpt_read l pc =
     rbind (lvpt_indexMask (lvpt_tableSize l)) (\<lambda>indexMask.
     let index = pc AND indexMask;
         indexLCT = unat (drop_bit 2 (pc AND indexMask));
         tag = pc AND NOT indexMask in
     rbind (vec_at (valueTable l) (unat index)) (\<lambda>entry.
     rbind (vec_at (predictTable l) indexLCT) (\<lambda>predict.
     Inr (if le_valid entry \<and> le_tag entry = tag
          then \<lparr>outPredict = True, outConstant = lvpt_threshold l \<le> predict,
                outValue = le_value entry, outPC = pc, outIndex = index,
                outAddr = le_addr entry, outCounter = predict\<rparr>
          else lvpt_out_zero))))"

section \<open>The table never leaves its bounds\<close>

text \<open>
  The well-formedness invariant. \<open>4 \<le> tableSize\<close> keeps the classification table
  non-empty (it has a quarter of the entries) and \<open>tableSize < 2 ^ 31\<close> keeps the mask
  inside \<^verbatim>\<open>int\<close>; neither is checked by the constructor.
\<close>

definition lvpt_wf :: "lvpt \<Rightarrow> bool" where
  "lvpt_wf l \<longleftrightarrow> 4 \<le> unat (lvpt_tableSize l) \<and> unat (lvpt_tableSize l) < 2 ^ 31 \<and>
     length (valueTable l) = unat (lvpt_tableSize l) \<and>
     length (predictTable l) = unat (lvpt_tableSize l) div 4"

text \<open>The mask, and the two subscripts an access at \<open>pc\<close> uses.\<close>

definition lvpt_mask :: "lvpt \<Rightarrow> u64" where
  "lvpt_mask l = mask (flog2 (unat (lvpt_tableSize l)))"

abbreviation lvpt_index :: "lvpt \<Rightarrow> u64 \<Rightarrow> nat" where
  "lvpt_index l pc \<equiv> unat (pc AND lvpt_mask l)"

abbreviation lvpt_indexLCT :: "lvpt \<Rightarrow> u64 \<Rightarrow> nat" where
  "lvpt_indexLCT l pc \<equiv> unat (drop_bit 2 (pc AND lvpt_mask l))"

abbreviation lvpt_tag :: "lvpt \<Rightarrow> u64 \<Rightarrow> u64" where
  "lvpt_tag l pc \<equiv> pc AND NOT (lvpt_mask l)"

lemma lvpt_indexMask_wf: "lvpt_wf l \<Longrightarrow> lvpt_indexMask (lvpt_tableSize l) = Inr (lvpt_mask l)"
  by (auto simp: lvpt_indexMask_def lvpt_wf_def lvpt_mask_def Let_def
      intro: flog2_less)

lemma lvpt_index_bound:
  assumes "lvpt_wf l"
  shows "lvpt_index l pc < length (valueTable l)"
proof -
  have "lvpt_index l pc < 2 ^ flog2 (unat (lvpt_tableSize l))"
    by (simp add: lvpt_mask_def unat_and_mask)
  also have "\<dots> \<le> unat (lvpt_tableSize l)"
    using assms flog2_bounds [of "unat (lvpt_tableSize l)"] by (simp add: lvpt_wf_def)
  finally show ?thesis using assms by (simp add: lvpt_wf_def)
qed

lemma lvpt_indexLCT_div: "lvpt_indexLCT l pc = lvpt_index l pc div 4"
  using unat_drop_bit_div [of 2 "pc AND lvpt_mask l"] by simp

lemma lvpt_indexLCT_bound:
  assumes "lvpt_wf l"
  shows "lvpt_indexLCT l pc < length (predictTable l)"
proof -
  let ?k = "flog2 (unat (lvpt_tableSize l))"
  have k: "2 \<le> ?k" using assms flog2_ge [of 2 "unat (lvpt_tableSize l)"] by (simp add: lvpt_wf_def)
  then have p: "(2::nat) ^ ?k = 4 * 2 ^ (?k - 2)"
    by (rule power2_split4)
  have "lvpt_index l pc < 4 * 2 ^ (?k - 2)"
    using p by (simp add: lvpt_mask_def unat_and_mask)
  then have i: "lvpt_index l pc div 4 < 2 ^ (?k - 2)"
    by (simp add: less_mult_imp_div_less mult.commute)
  have "4 * (2::nat) ^ (?k - 2) \<le> unat (lvpt_tableSize l)"
    using p flog2_bounds [of "unat (lvpt_tableSize l)"] assms by (simp add: lvpt_wf_def)
  then have "(2::nat) ^ (?k - 2) \<le> unat (lvpt_tableSize l) div 4"
    by arith
  with i have "lvpt_index l pc div 4 < unat (lvpt_tableSize l) div 4" by linarith
  then show ?thesis using assms by (simp add: lvpt_indexLCT_div lvpt_wf_def del: drop_bit_and)
qed

lemmas lvpt_bounds = lvpt_indexMask_wf lvpt_index_bound lvpt_indexLCT_bound

section \<open>The operations on a well-formed table\<close>

abbreviation lvpt_entry_at :: "lvpt \<Rightarrow> u64 \<Rightarrow> lvpt_entry" where
  "lvpt_entry_at l pc \<equiv> valueTable l ! lvpt_index l pc"

abbreviation lvpt_counter_at :: "lvpt \<Rightarrow> u64 \<Rightarrow> u32" where
  "lvpt_counter_at l pc \<equiv> predictTable l ! lvpt_indexLCT l pc"

lemma lvpt_read_eq:
  assumes "lvpt_wf l"
  shows "lvpt_read l pc =
    Inr (if le_valid (lvpt_entry_at l pc) \<and> le_tag (lvpt_entry_at l pc) = lvpt_tag l pc
         then \<lparr>outPredict = True, outConstant = lvpt_threshold l \<le> lvpt_counter_at l pc,
               outValue = le_value (lvpt_entry_at l pc), outPC = pc,
               outIndex = pc AND lvpt_mask l, outAddr = le_addr (lvpt_entry_at l pc),
               outCounter = lvpt_counter_at l pc\<rparr>
         else lvpt_out_zero)"
  using assms by (simp add: lvpt_read_def lvpt_bounds Let_def del: drop_bit_and)

lemma lvpt_update_no_change: "lvpt_wf l \<Longrightarrow> lvpt_updateTable l d a pc p False = Inr l"
  by (simp add: lvpt_updateTable_def lvpt_bounds Let_def del: drop_bit_and)

definition lvpt_trained :: "lvpt \<Rightarrow> u64 \<Rightarrow> u64 \<Rightarrow> u64 \<Rightarrow> lvpt" where
  "lvpt_trained l d a pc =
     l\<lparr>lvptInCorrectPred := Suc (lvptInCorrectPred l),
       predictTable := (predictTable l)[lvpt_indexLCT l pc := lvpt_counter_at l pc -
         (if lvpt_counter_at l pc = 0 then 0 else 1)],
       lvptTableAdditions := (if le_tag (lvpt_entry_at l pc) \<noteq> lvpt_tag l pc \<or>
                                 \<not> le_valid (lvpt_entry_at l pc)
                              then Suc (lvptTableAdditions l) else lvptTableAdditions l),
       valueTable := (valueTable l)[lvpt_index l pc :=
         \<lparr>le_valid = True, le_tag = lvpt_tag l pc, le_addr = a, le_value = d\<rparr>]\<rparr>"

definition lvpt_confirmed :: "lvpt \<Rightarrow> u64 \<Rightarrow> lvpt" where
  "lvpt_confirmed l pc =
     l\<lparr>predictTable := (predictTable l)[lvpt_indexLCT l pc := lvpt_counter_at l pc +
         (if lvpt_maxValue l \<le> lvpt_counter_at l pc then 0 else 1)],
       lvptCorrectPred := Suc (lvptCorrectPred l)\<rparr>"

lemma lvpt_entry_overwritten:
  "e\<lparr>le_valid := v, le_value := d, le_addr := a, le_tag := t\<rparr> =
   \<lparr>le_valid = v, le_tag = t, le_addr = a, le_value = d\<rparr>"
  by (cases e) simp

lemma lvpt_update_mispredict:
  "lvpt_wf l \<Longrightarrow> lvpt_updateTable l d a pc False True = Inr (lvpt_trained l d a pc)"
  by (simp add: lvpt_updateTable_def lvpt_bounds Let_def lvpt_trained_def lvpt_entry_overwritten del: drop_bit_and)

lemma lvpt_update_correct:
  "lvpt_wf l \<Longrightarrow> lvpt_updateTable l d a pc True True = Inr (lvpt_confirmed l pc)"
  by (simp add: lvpt_updateTable_def lvpt_bounds Let_def lvpt_confirmed_def del: drop_bit_and)

lemmas lvpt_update_eq = lvpt_update_no_change lvpt_update_mispredict lvpt_update_correct

lemma lvpt_step_fields [simp]:
  "lvpt_tableSize (lvpt_trained l d a pc) = lvpt_tableSize l"
  "lvpt_threshold (lvpt_trained l d a pc) = lvpt_threshold l"
  "lvpt_maxValue (lvpt_trained l d a pc) = lvpt_maxValue l"
  "lvpt_mask (lvpt_trained l d a pc) = lvpt_mask l"
  "lvpt_tableSize (lvpt_confirmed l pc) = lvpt_tableSize l"
  "lvpt_threshold (lvpt_confirmed l pc) = lvpt_threshold l"
  "lvpt_maxValue (lvpt_confirmed l pc) = lvpt_maxValue l"
  "lvpt_mask (lvpt_confirmed l pc) = lvpt_mask l"
  "valueTable (lvpt_confirmed l pc) = valueTable l"
  by (simp_all add: lvpt_trained_def lvpt_confirmed_def lvpt_mask_def)

lemma lvpt_wf_step [simp]:
  "lvpt_wf l \<Longrightarrow> lvpt_wf (lvpt_trained l d a pc)"
  "lvpt_wf l \<Longrightarrow> lvpt_wf (lvpt_confirmed l pc)"
  by (simp_all add: lvpt_wf_def lvpt_trained_def lvpt_confirmed_def)

text \<open>The classification counters saturate at \<open>maxValue\<close>.\<close>

definition lvpt_saturated :: "lvpt \<Rightarrow> bool" where
  "lvpt_saturated l \<longleftrightarrow> (\<forall>c \<in> set (predictTable l). c \<le> lvpt_maxValue l)"

lemma lvpt_saturated_step:
  assumes "lvpt_wf l" "lvpt_saturated l"
  shows "lvpt_saturated (lvpt_trained l d a pc)" "lvpt_saturated (lvpt_confirmed l pc)"
proof -
  have c: "lvpt_counter_at l pc \<le> lvpt_maxValue l"
    using assms lvpt_indexLCT_bound by (simp add: lvpt_saturated_def)
  show "lvpt_saturated (lvpt_trained l d a pc)"
    using assms(2) c word_dec_le [OF c]
    by (auto simp: lvpt_saturated_def lvpt_trained_def dest!: set_update_subset_insert [THEN subsetD])
  show "lvpt_saturated (lvpt_confirmed l pc)"
    using assms(2) c
    by (auto simp: lvpt_saturated_def lvpt_confirmed_def inc_le
        dest!: set_update_subset_insert [THEN subsetD])
qed

section \<open>Runs of the table\<close>

text \<open>A feedback is one call of \<^verbatim>\<open>updateTable\<close>: data, address, PC, predict and constant.\<close>

type_synonym lvpt_feedback = "u64 \<times> u64 \<times> u64 \<times> bool \<times> bool"

definition lvpt_feed :: "lvpt \<Rightarrow> lvpt_feedback \<Rightarrow> lvpt result" where
  "lvpt_feed l f = (case f of (d, a, pc, p, c) \<Rightarrow> lvpt_updateTable l d a pc p c)"

definition lvpt_run :: "lvpt \<Rightarrow> lvpt_feedback list \<Rightarrow> lvpt result" where
  "lvpt_run l fs = rfold lvpt_feed l fs"

definition lvpt_inv :: "u32 \<Rightarrow> u32 \<Rightarrow> lvpt \<Rightarrow> bool" where
  "lvpt_inv th mv l \<longleftrightarrow> lvpt_wf l \<and> lvpt_saturated l \<and> lvpt_threshold l = th \<and> lvpt_maxValue l = mv"

lemma lvpt_new_inv:
  assumes "lvpt_new ts th mv = Inr l" "4 \<le> unat ts" "unat ts < 2 ^ 31"
  shows "lvpt_inv th mv l"
proof -
  have "unat (ts div 4) = unat ts div 4" by (simp add: unat_div)
  with assms show ?thesis
    by (auto simp: lvpt_new_def lvpt_inv_def lvpt_wf_def lvpt_saturated_def split: if_splits)
qed

lemma lvpt_feed_inv:
  assumes "lvpt_inv th mv l"
  shows "\<exists>l'. lvpt_feed l f = Inr l' \<and> lvpt_inv th mv l'"
proof -
  obtain d a pc p c where f: "f = (d, a, pc, p, c)" by (cases f) auto
  show ?thesis
    using assms lvpt_saturated_step
    by (cases c; cases p)
      (auto simp: f lvpt_feed_def lvpt_inv_def lvpt_update_eq)
qed

lemma lvpt_run_inv:
  assumes "lvpt_inv th mv l"
  shows "\<exists>l'. lvpt_run l fs = Inr l' \<and> lvpt_inv th mv l'"
  unfolding lvpt_run_def
  using rfold_invariant [of "\<lambda>_. lvpt_inv th mv" l fs lvpt_feed] assms lvpt_feed_inv by blast

lemma lvpt_read_inv:
  assumes "lvpt_inv th mv l"
  shows "\<exists>out. lvpt_read l pc = Inr out \<and> (outPredict out \<longrightarrow> outCounter out \<le> mv) \<and>
    (outConstant out \<longleftrightarrow> outPredict out \<and> th \<le> outCounter out)"
  using assms lvpt_indexLCT_bound [of l pc]
  by (auto simp: lvpt_inv_def lvpt_read_eq lvpt_saturated_def lvpt_out_zero_def)

text \<open>
  C4: Memory safety of the value predictor. From a freshly constructed table with at least four
  and fewer than \<open>2 ^ 31\<close> entries, every sequence of updates runs without an out-of-range
  subscript, and a lookup at any PC afterwards succeeds; the counter it reports never exceeds
  \<open>maxValueLCT\<close>, and a prediction is flagged constant exactly when that counter has
  reached \<open>thresholdLCT\<close>.
\<close>

theorem lvpt_run_safe:
  assumes "lvpt_new ts th mv = Inr l0" "4 \<le> unat ts" "unat ts < 2 ^ 31"
  shows "\<exists>l out. lvpt_run l0 fs = Inr l \<and> lvpt_read l pc = Inr out \<and>
    (outPredict out \<longrightarrow> outCounter out \<le> mv) \<and>
    (outConstant out \<longleftrightarrow> outPredict out \<and> th \<le> outCounter out)"
proof -
  from lvpt_run_inv [OF lvpt_new_inv [OF assms]]
  obtain l where l: "lvpt_run l0 fs = Inr l" "lvpt_inv th mv l" by blast
  from lvpt_read_inv [OF l(2)] l(1) show ?thesis by blast
qed

definition lvpt_ex :: lvpt where
  "lvpt_ex = \<lparr>lvpt_tableSize = 4, lvpt_threshold = 1, lvpt_maxValue = 3,
              valueTable = replicate 4 lvpt_entry_zero, predictTable = [0],
              lvptInCorrectPred = 0, lvptCorrectPred = 0, lvptTableAdditions = 0\<rparr>"

lemma lvpt_ex_new: "lvpt_new 4 1 3 = Inr lvpt_ex"
  by (simp add: lvpt_new_def lvpt_ex_def)

theorem lvpt_run_safe_witness:
  "lvpt_new 4 1 3 = Inr lvpt_ex \<and>
   (\<exists>l out. lvpt_run lvpt_ex [(7, 64, 16, False, True), (7, 64, 16, True, True)] = Inr l \<and>
      lvpt_read l 16 = Inr out \<and> (outConstant out \<longleftrightarrow> outPredict out \<and> 1 \<le> outCounter out))"
  using lvpt_run_safe [OF lvpt_ex_new, of "[(7, 64, 16, False, True), (7, 64, 16, True, True)]" 16]
    lvpt_ex_new by auto

section \<open>What a lookup returns after an update\<close>

text \<open>
  C28: A mispredicted load trains the table: after the update for \<open>pc\<close> with the loaded
  \<open>data\<close> and \<open>addr\<close>, a lookup at the same PC predicts exactly that data and address,
  under the index the PC selects.
\<close>

theorem lvpt_train_then_read:
  assumes "lvpt_wf l" "lvpt_updateTable l d a pc False True = Inr l'"
  shows "\<exists>out. lvpt_read l' pc = Inr out \<and> outPredict out \<and> outValue out = d \<and>
    outAddr out = a \<and> outPC out = pc \<and> outIndex out = pc AND lvpt_mask l"
proof -
  from assms have "l' = lvpt_trained l d a pc" by (simp add: lvpt_update_mispredict)
  moreover from assms(1) have "lvpt_index l pc < length (valueTable l)" by (rule lvpt_index_bound)
  ultimately show ?thesis using assms(1) by (simp add: lvpt_read_eq) (simp add: lvpt_trained_def)
qed

theorem lvpt_train_then_read_witness:
  "lvpt_wf lvpt_ex \<and> (\<exists>l' out. lvpt_updateTable lvpt_ex 7 64 16 False True = Inr l' \<and>
     lvpt_read l' 16 = Inr out \<and> outPredict out \<and> outValue out = 7 \<and> outAddr out = 64)"
proof -
  have wf: "lvpt_wf lvpt_ex" using lvpt_new_inv [OF lvpt_ex_new] by (simp add: lvpt_inv_def)
  from lvpt_train_then_read [OF wf lvpt_update_mispredict [OF wf], of 7 64 16]
  show ?thesis using wf lvpt_update_mispredict [OF wf, of 7 64 16] by blast
qed

text \<open>
  Interference between loads. Training the entry of one PC leaves every other PC either
  untouched or unpredicted: a different PC that selects the same entry has another tag and now
  misses, and one that selects a different entry still gets its own prediction, value and
  address.
\<close>

lemma lvpt_train_other_pc:
  assumes "lvpt_wf l" "pc' \<noteq> pc"
    and "lvpt_updateTable l d a pc False True = Inr l'"
    and "lvpt_read l pc' = Inr before" "lvpt_read l' pc' = Inr after"
  shows "if pc' AND lvpt_mask l = pc AND lvpt_mask l then \<not> outPredict after
         else outPredict after = outPredict before \<and> outValue after = outValue before \<and>
              outAddr after = outAddr before \<and> outIndex after = outIndex before"
proof -
  have l': "l' = lvpt_trained l d a pc" using assms by (simp add: lvpt_update_mispredict)
  have bnd: "lvpt_index l pc' < length (valueTable l)" using assms(1) by (rule lvpt_index_bound)
  show ?thesis
  proof (cases "pc' AND lvpt_mask l = pc AND lvpt_mask l")
    case True
    with assms(2) have "lvpt_tag l pc' \<noteq> lvpt_tag l pc" using mask_split_eq by blast
    moreover have "le_tag (lvpt_entry_at l' pc') = lvpt_tag l pc"
      using True bnd by (simp add: l') (simp add: lvpt_trained_def)
    ultimately have "lvpt_read l' pc' = Inr lvpt_out_zero"
      using assms(1) by (simp add: l' lvpt_read_eq)
    with True assms(5) show ?thesis by (auto simp: lvpt_out_zero_def)
  next
    case False
    then have "lvpt_index l pc \<noteq> lvpt_index l pc'" by (metis word_unat_eq_iff)
    then have "lvpt_entry_at l' pc' = lvpt_entry_at l pc'"
      by (simp add: l') (simp add: lvpt_trained_def)
    with False assms l' show ?thesis
      by (auto simp: lvpt_read_eq lvpt_out_zero_def split: if_splits)
  qed
qed

lemma lvpt_train_other_pc_witness:
  "\<exists>l' before after. lvpt_updateTable lvpt_ex 7 64 16 False True = Inr l' \<and>
     lvpt_read lvpt_ex 20 = Inr before \<and> lvpt_read l' 20 = Inr after \<and> \<not> outPredict after"
proof -
  have wf: "lvpt_wf lvpt_ex" using lvpt_new_inv [OF lvpt_ex_new] by (simp add: lvpt_inv_def)
  have l': "lvpt_updateTable lvpt_ex 7 64 16 False True = Inr (lvpt_trained lvpt_ex 7 64 16)"
    by (rule lvpt_update_mispredict [OF wf])
  have m: "lvpt_mask lvpt_ex = 3"
    by (simp add: lvpt_mask_def lvpt_ex_def flog2.simps [of 4] flog2.simps [of 2] flog2.simps [of "Suc 0"]
        mask_eq_exp_minus_1)
  obtain b where b: "lvpt_read lvpt_ex 20 = Inr b" using lvpt_read_eq [OF wf] by blast
  obtain f where f: "lvpt_read (lvpt_trained lvpt_ex 7 64 16) 20 = Inr f"
    using lvpt_read_eq [OF lvpt_wf_step(1) [OF wf]] by blast
  have "\<not> outPredict f"
    using lvpt_train_other_pc [OF wf _ l' b f] m by simp
  with l' b f show ?thesis by blast
qed

section \<open>Classification as constant\<close>

lemma lvpt_confirmed_counter:
  assumes "lvpt_wf l" "lvpt_counter_at l pc \<le> lvpt_maxValue l"
  shows "unat (lvpt_counter_at (lvpt_confirmed l pc) pc) =
    min (unat (lvpt_maxValue l)) (Suc (unat (lvpt_counter_at l pc)))"
proof -
  let ?c = "lvpt_counter_at l pc"
  have bnd: "lvpt_indexLCT l pc < length (predictTable l)"
    using assms(1) by (rule lvpt_indexLCT_bound)
  have "lvpt_counter_at (lvpt_confirmed l pc) pc = ?c + (if lvpt_maxValue l \<le> ?c then 0 else 1)"
    using bnd by (simp add: lvpt_confirmed_def lvpt_mask_def del: drop_bit_and)
  moreover have "?c < lvpt_maxValue l \<Longrightarrow> unat (?c + 1) = Suc (unat ?c)" by (rule unat_inc)
  ultimately show ?thesis
    using assms(2) by (auto simp: min_def word_le_nat_alt word_less_nat_alt simp del: drop_bit_and)
qed

lemma lvpt_confirmations:
  assumes "lvpt_wf l" "lvpt_counter_at l pc \<le> lvpt_maxValue l"
  shows "\<exists>l'. lvpt_run l (replicate k (d, a, pc, True, True)) = Inr l' \<and> lvpt_wf l' \<and>
    lvpt_mask l' = lvpt_mask l \<and> valueTable l' = valueTable l \<and>
    lvpt_threshold l' = lvpt_threshold l \<and>
    unat (lvpt_counter_at l' pc) = min (unat (lvpt_maxValue l)) (unat (lvpt_counter_at l pc) + k)"
  using assms
proof (induction k arbitrary: l)
  case 0
  then show ?case by (auto simp: lvpt_run_def min_def word_le_nat_alt simp del: drop_bit_and)
next
  case (Suc k)
  let ?l1 = "lvpt_confirmed l pc"
  have c: "unat (lvpt_counter_at ?l1 pc) = min (unat (lvpt_maxValue l)) (Suc (unat (lvpt_counter_at l pc)))"
    by (rule lvpt_confirmed_counter [OF Suc.prems])
  then have "lvpt_counter_at ?l1 pc \<le> lvpt_maxValue ?l1"
    by (simp add: word_le_nat_alt del: drop_bit_and)
  from Suc.IH [OF lvpt_wf_step(2) [OF Suc.prems(1)] this] c
  obtain l' where l': "lvpt_run ?l1 (replicate k (d, a, pc, True, True)) = Inr l'" "lvpt_wf l'"
    "lvpt_mask l' = lvpt_mask l" "valueTable l' = valueTable l" "lvpt_threshold l' = lvpt_threshold l"
    "unat (lvpt_counter_at l' pc) = min (unat (lvpt_maxValue l)) (unat (lvpt_counter_at ?l1 pc) + k)"
    by (auto simp del: drop_bit_and)
  have "lvpt_run l (replicate (Suc k) (d, a, pc, True, True)) = Inr l'"
    using l'(1) Suc.prems(1) by (simp add: lvpt_run_def lvpt_feed_def lvpt_update_correct)
  with l' c show ?case by (auto simp: min_def simp del: drop_bit_and)
qed

text \<open>
  C29: Learning a constant load. Train the entry of a PC once with a value, then confirm it
  \<open>maxValueLCT\<close> times: whatever the counter was before, the next lookup predicts that
  value and flags it constant, and its counter is exactly \<open>maxValueLCT\<close>.
\<close>

theorem lvpt_learns_constant:
  assumes "lvpt_inv th mv l" "th \<le> mv"
  shows "\<exists>l' out. lvpt_run l ((d, a, pc, False, True) #
      replicate (unat mv) (d, a, pc, True, True)) = Inr l' \<and> lvpt_read l' pc = Inr out \<and>
    outPredict out \<and> outConstant out \<and> outValue out = d \<and> outAddr out = a \<and> outCounter out = mv"
proof -
  let ?l1 = "lvpt_trained l d a pc"
  from assms have wf: "lvpt_wf l" and sat: "lvpt_saturated l" and
    p: "lvpt_threshold l = th" "lvpt_maxValue l = mv" by (simp_all add: lvpt_inv_def)
  have wf1: "lvpt_wf ?l1" using wf by simp
  have "lvpt_saturated ?l1" by (rule lvpt_saturated_step(1) [OF wf sat])
  then have "lvpt_counter_at ?l1 pc \<le> lvpt_maxValue ?l1"
    using lvpt_indexLCT_bound [OF wf1] by (simp add: lvpt_saturated_def)
  from lvpt_confirmations [OF wf1 this, of "unat mv" d a] p obtain l' where
    l': "lvpt_run ?l1 (replicate (unat mv) (d, a, pc, True, True)) = Inr l'" "lvpt_wf l'"
    "lvpt_mask l' = lvpt_mask l" "valueTable l' = valueTable ?l1" "lvpt_threshold l' = th"
    "unat (lvpt_counter_at l' pc) = unat mv"
    by (auto simp del: drop_bit_and)
  have "lvpt_entry_at l' pc = \<lparr>le_valid = True, le_tag = lvpt_tag l pc, le_addr = a, le_value = d\<rparr>"
    using lvpt_index_bound [OF wf] by (simp add: l'(3,4)) (simp add: lvpt_trained_def)
  moreover have "lvpt_counter_at l' pc = mv" using l'(6) by (rule word_unat_eq_iff [THEN iffD2])
  ultimately have "lvpt_read l' pc = Inr \<lparr>outPredict = True, outConstant = True, outValue = d,
      outPC = pc, outIndex = pc AND lvpt_mask l, outAddr = a, outCounter = mv\<rparr>"
    using l'(2,3,5) assms(2) by (simp add: lvpt_read_eq del: drop_bit_and)
  moreover have "lvpt_run l ((d, a, pc, False, True) #
      replicate (unat mv) (d, a, pc, True, True)) = Inr l'"
    using l'(1) wf by (simp add: lvpt_run_def lvpt_feed_def lvpt_update_mispredict)
  ultimately show ?thesis by simp
qed

theorem lvpt_learns_constant_witness:
  "\<exists>l' out. lvpt_run lvpt_ex ((7, 64, 16, False, True) #
      replicate 3 (7, 64, 16, True, True)) = Inr l' \<and> lvpt_read l' 16 = Inr out \<and>
    outPredict out \<and> outConstant out \<and> outValue out = 7 \<and> outAddr out = 64 \<and> outCounter out = 3"
proof -
  have "lvpt_inv 1 3 lvpt_ex" by (rule lvpt_new_inv [OF lvpt_ex_new]) simp_all
  from lvpt_learns_constant [OF this, of 7 64 16] show ?thesis by simp
qed

end
