(* ===== verification/CVU.thy ===== *)
theory CVU
  imports Prelude
begin

unbundle bit_operations_syntax

text \<open>
  The constant verification unit, \<^verbatim>\<open>cpu/myminor/CVU.hh\<close> and \<^verbatim>\<open>CVU.cc\<close>: a small
  fully associative table of loads whose value is known not to have changed since it was
  entered. \<open>cvu\<close> is the object's state; \<open>cvu_storeInvalidate\<close>, \<open>cvu_AddEntryToCVU\<close> and
  \<open>cvu_verifyEntryInCVU\<close> are its operations. The value \<^verbatim>\<open>std::rand()\<close> returns is an
  argument of \<open>cvu_AddEntryToCVU\<close>.

  The locale \<open>value_cache\<close> is what the pipeline relies on: what an insertion may add to the
  live entries, and what a store must remove. Coherence with memory is proved once from these
  laws and holds of the unit by the interpretation \<open>cvuc\<close>.
\<close>

record cvu_entry =
  ce_valid :: bool
  ce_vaddr :: u64
  ce_paddr :: u64
  ce_index :: u64
  ce_data :: u64

record cvu =
  cvu_tableSize :: u32
  cvu_threshold :: u32
  cvu_maxValue :: u32
  InvalidEntries :: "u32 list"
  cvuTable :: "cvu_entry list"
  CvuTableAdditions :: nat

definition cvu_entry_zero :: cvu_entry where
  "cvu_entry_zero = \<lparr>ce_valid = False, ce_vaddr = 0, ce_paddr = 0, ce_index = 0, ce_data = 0\<rparr>"

definition cvu_new :: "u32 \<Rightarrow> u32 \<Rightarrow> u32 \<Rightarrow> cvu" where
  "cvu_new cvu_table_size lct_threshold lct_maxvalue =
     \<lparr>cvu_tableSize = cvu_table_size, cvu_threshold = lct_threshold, cvu_maxValue = lct_maxvalue,
      InvalidEntries = map of_nat [0..<unat cvu_table_size],
      cvuTable = replicate (unat cvu_table_size) cvu_entry_zero, CvuTableAdditions = 0\<rparr>"

definition cvu_AddToInvalidateList :: "cvu \<Rightarrow> u32 \<Rightarrow> cvu" where
  "cvu_AddToInvalidateList c tableIndex = c\<lparr>InvalidEntries := InvalidEntries c @ [tableIndex]\<rparr>"

text \<open>One round of the loop of \<^verbatim>\<open>storeInvalidate\<close>; it does not look at \<^verbatim>\<open>valid\<close>.\<close>

definition cvu_invalidate_at :: "u64 \<Rightarrow> u64 \<Rightarrow> cvu \<Rightarrow> nat \<Rightarrow> cvu result" where
  "cvu_invalidate_at vaddr paddr c hitIndex =
     rbind (vec_at (cvuTable c) hitIndex) (\<lambda>entry.
     if ce_vaddr entry = vaddr \<or> ce_paddr entry = paddr then
       rbind (vec_set (cvuTable c) hitIndex (entry\<lparr>ce_valid := False\<rparr>)) (\<lambda>table.
       Inr (cvu_AddToInvalidateList (c\<lparr>cvuTable := table\<rparr>) (of_nat hitIndex)))
     else Inr c)"

definition cvu_storeInvalidate :: "cvu \<Rightarrow> u64 \<Rightarrow> u64 \<Rightarrow> cvu result" where
  "cvu_storeInvalidate c vaddr paddr =
     rfold (cvu_invalidate_at vaddr paddr) c [0..<unat (cvu_tableSize c)]"

definition cvu_AddEntryToCVU :: "u32 \<Rightarrow> cvu \<Rightarrow> u64 \<Rightarrow> u64 \<Rightarrow> u64 \<Rightarrow> u64 \<Rightarrow> cvu result" where
  "cvu_AddEntryToCVU rnd c data LVPT_Index vaddr paddr =
     (let newEntry = \<lparr>ce_valid = True, ce_vaddr = vaddr, ce_paddr = paddr,
                      ce_index = LVPT_Index, ce_data = data\<rparr> in
      rbind (case InvalidEntries c of
               [] \<Rightarrow> (if cvu_tableSize c + 1 = 0 then Inl Undefined
                      else Inr (rnd mod (cvu_tableSize c + 1), []))
             | i # rest \<Rightarrow> Inr (i, rest)) (\<lambda>(new_entry_index, rest).
      rbind (vec_set (cvuTable c) (unat new_entry_index) newEntry) (\<lambda>table.
      Inr (c\<lparr>InvalidEntries := rest, cvuTable := table,
             CvuTableAdditions := Suc (CvuTableAdditions c)\<rparr>))))"

definition cvu_matches :: "u64 \<Rightarrow> u64 \<Rightarrow> u64 \<Rightarrow> cvu_entry \<Rightarrow> bool" where
  "cvu_matches address index data e \<longleftrightarrow>
     ce_valid e \<and> ce_vaddr e = address \<and> ce_index e = index \<and> ce_data e = data"

text \<open>The search loop: the index where it stops and the entry it breaks at.\<close>

fun cvu_search :: "cvu_entry list \<Rightarrow> (cvu_entry \<Rightarrow> bool) \<Rightarrow> nat list \<Rightarrow> (cvu_entry option) result" where
  "cvu_search table m [] = Inr None"
| "cvu_search table m (hitIndex # is) =
     rbind (vec_at table hitIndex) (\<lambda>entry.
     if m entry then Inr (Some entry) else cvu_search table m is)"

text \<open>The result, and the reference parameter \<^verbatim>\<open>paddr\<close> (left alone on a miss).\<close>

definition cvu_verifyEntryInCVU ::
  "cvu \<Rightarrow> u64 \<Rightarrow> u64 \<Rightarrow> u64 \<Rightarrow> bool \<Rightarrow> u64 \<Rightarrow> (bool \<times> u64) result" where
  "cvu_verifyEntryInCVU c address index data constant paddr =
     (if constant then
        rbind (cvu_search (cvuTable c) (cvu_matches address index data)
                 [0..<unat (cvu_tableSize c)]) (\<lambda>hit.
        Inr (case hit of Some entry \<Rightarrow> (True, ce_paddr entry) | None \<Rightarrow> (False, paddr)))
      else Inr (False, paddr))"

section \<open>Invariant\<close>

text \<open>
  Every listed index is in range, and every invalid entry is listed: the unit picks a victim at
  random only when all of its entries are live.
\<close>

definition cvu_wf :: "cvu \<Rightarrow> bool" where
  "cvu_wf c \<longleftrightarrow> length (cvuTable c) = unat (cvu_tableSize c) \<and>
     (\<forall>i \<in> set (InvalidEntries c). unat i < length (cvuTable c)) \<and>
     (\<forall>i < length (cvuTable c). \<not> ce_valid (cvuTable c ! i) \<longrightarrow> of_nat i \<in> set (InvalidEntries c))"

lemma unat_of_table_index: "i < unat (n :: u32) \<Longrightarrow> unat (of_nat i :: u32) = i"
  by (rule le_unat_uoi [of _ n]) simp

lemma cvu_new_wf: "cvu_wf (cvu_new ts th mv)"
  by (auto simp: cvu_wf_def cvu_new_def unat_of_table_index)

definition cvu_invalidated :: "u64 \<Rightarrow> u64 \<Rightarrow> cvu_entry \<Rightarrow> cvu_entry" where
  "cvu_invalidated v p e =
     (if ce_vaddr e = v \<or> ce_paddr e = p then e\<lparr>ce_valid := False\<rparr> else e)"

abbreviation cvu_hits :: "cvu_entry list \<Rightarrow> u64 \<Rightarrow> u64 \<Rightarrow> nat \<Rightarrow> u32 list" where
  "cvu_hits es v p n \<equiv>
     map of_nat (filter (\<lambda>i. ce_vaddr (es ! i) = v \<or> ce_paddr (es ! i) = p) [0..<n])"

lemma cvu_invalidate_loop:
  assumes "n \<le> length (cvuTable c)"
  shows "rfold (cvu_invalidate_at v p) c [0..<n] =
    Inr (c\<lparr>cvuTable := map (cvu_invalidated v p) (take n (cvuTable c)) @ drop n (cvuTable c),
           InvalidEntries := InvalidEntries c @ cvu_hits (cvuTable c) v p n\<rparr>)"
  using assms
proof (induction n)
  case 0
  then show ?case by simp
next
  case (Suc n)
  let ?t = "cvuTable c"
  have n: "n < length ?t" using Suc.prems by simp
  have upd: "(map (cvu_invalidated v p) (take n ?t) @ drop n ?t)[n := x] =
      map (cvu_invalidated v p) (take n ?t) @ x # drop (Suc n) ?t" for x
    using n by (simp add: list_update_append Cons_nth_drop_Suc [symmetric])
  have cur: "(map (cvu_invalidated v p) (take n ?t) @ drop n ?t) ! n = ?t ! n"
    using n by (simp add: nth_append)
  show ?case
  proof (cases "ce_vaddr (?t ! n) = v \<or> ce_paddr (?t ! n) = p")
    case True
    then have "cvu_invalidated v p (?t ! n) = (?t ! n)\<lparr>ce_valid := False\<rparr>"
      by (simp add: cvu_invalidated_def)
    with True show ?thesis
      using Suc n upd cur by (simp add: rfold_append cvu_invalidate_at_def
          cvu_AddToInvalidateList_def take_Suc_conv_app_nth)
  next
    case False
    then have "cvu_invalidated v p (?t ! n) = ?t ! n" by (simp add: cvu_invalidated_def)
    with False show ?thesis
      using Suc n cur by (simp add: rfold_append cvu_invalidate_at_def take_Suc_conv_app_nth
          Cons_nth_drop_Suc)
  qed
qed

lemma cvu_storeInvalidate_eq:
  assumes "cvu_wf c"
  shows "cvu_storeInvalidate c v p =
    Inr (c\<lparr>cvuTable := map (cvu_invalidated v p) (cvuTable c),
           InvalidEntries := InvalidEntries c @ cvu_hits (cvuTable c) v p (length (cvuTable c))\<rparr>)"
  using assms cvu_invalidate_loop [of "length (cvuTable c)" c v p]
  by (simp add: cvu_storeInvalidate_def cvu_wf_def)

lemma cvu_storeInvalidate_wf:
  assumes "cvu_wf c" "cvu_storeInvalidate c v p = Inr c'"
  shows "cvu_wf c'"
proof -
  have c': "c' = c\<lparr>cvuTable := map (cvu_invalidated v p) (cvuTable c),
      InvalidEntries := InvalidEntries c @ cvu_hits (cvuTable c) v p (length (cvuTable c))\<rparr>"
    using assms by (simp add: cvu_storeInvalidate_eq)
  show ?thesis
    using assms(1)
    by (auto simp: c' cvu_wf_def cvu_invalidated_def unat_of_table_index split: if_splits)
qed

text \<open>The entry an insertion overwrites.\<close>

definition cvu_slot :: "u32 \<Rightarrow> cvu \<Rightarrow> nat" where
  "cvu_slot rnd c = (case InvalidEntries c of [] \<Rightarrow> unat (rnd mod (cvu_tableSize c + 1))
                                            | i # _ \<Rightarrow> unat i)"

definition cvu_fresh :: "u64 \<Rightarrow> u64 \<Rightarrow> u64 \<Rightarrow> u64 \<Rightarrow> cvu_entry" where
  "cvu_fresh d idx v p = \<lparr>ce_valid = True, ce_vaddr = v, ce_paddr = p, ce_index = idx, ce_data = d\<rparr>"

lemma cvu_Add_Inr_iff:
  "cvu_AddEntryToCVU rnd c d idx v p = Inr c' \<longleftrightarrow>
     (InvalidEntries c = [] \<longrightarrow> cvu_tableSize c + 1 \<noteq> 0) \<and> cvu_slot rnd c < length (cvuTable c) \<and>
     c' = c\<lparr>InvalidEntries := tl (InvalidEntries c),
            cvuTable := (cvuTable c)[cvu_slot rnd c := cvu_fresh d idx v p],
            CvuTableAdditions := Suc (CvuTableAdditions c)\<rparr>"
  by (auto simp: cvu_AddEntryToCVU_def cvu_slot_def cvu_fresh_def vec_set_def Let_def
      split: list.splits)

lemma cvu_Add_wf:
  assumes "cvu_wf c" "cvu_AddEntryToCVU rnd c d idx v p = Inr c'"
  shows "cvu_wf c'"
proof -
  have c': "c' = c\<lparr>InvalidEntries := tl (InvalidEntries c),
      cvuTable := (cvuTable c)[cvu_slot rnd c := cvu_fresh d idx v p],
      CvuTableAdditions := Suc (CvuTableAdditions c)\<rparr>"
    using assms(2) by (simp add: cvu_Add_Inr_iff)
  have "of_nat i \<in> set (tl (InvalidEntries c))"
    if "i < length (cvuTable c)" "\<not> ce_valid (cvuTable c ! i)" "i \<noteq> cvu_slot rnd c" for i
    using assms(1) that
    by (cases "InvalidEntries c") (auto simp: cvu_wf_def cvu_slot_def unat_of_table_index)
  moreover have "set (tl (InvalidEntries c)) \<subseteq> set (InvalidEntries c)"
    by (cases "InvalidEntries c") auto
  ultimately show ?thesis
    using assms(1) by (auto simp: c' cvu_wf_def nth_update_if cvu_fresh_def split: if_splits)
qed

lemma cvu_search_upt:
  assumes "n \<le> length t"
  shows "cvu_search t m [0..<n] = Inr (List.find m (take n t))"
proof -
  have "cvu_search t m [k..<n] = Inr (List.find m (drop k (take n t)))" if "k \<le> n" for k
    using that
  proof (induction "n - k" arbitrary: k)
    case 0
    then show ?case by simp
  next
    case (Suc j)
    then have "[k..<n] = k # [Suc k..<n]" by (simp add: upt_conv_Cons)
    moreover have "drop k (take n t) = t ! k # drop (Suc k) (take n t)"
      using Suc assms by (subst Cons_nth_drop_Suc [symmetric]) auto
    ultimately show ?case using Suc assms by simp
  qed
  from this [of 0] show ?thesis by simp
qed

lemma cvu_verify_eq:
  assumes "cvu_wf c"
  shows "cvu_verifyEntryInCVU c a idx d True p0 =
    Inr (case List.find (cvu_matches a idx d) (cvuTable c) of
           Some e \<Rightarrow> (True, ce_paddr e) | None \<Rightarrow> (False, p0))"
  using assms cvu_search_upt [of "unat (cvu_tableSize c)" "cvuTable c"]
  by (simp add: cvu_verifyEntryInCVU_def cvu_wf_def split: option.split)

lemma cvu_verify_hit_iff:
  assumes "cvu_wf c"
  shows "(\<exists>p. cvu_verifyEntryInCVU c a idx d constant p0 = Inr (True, p)) \<longleftrightarrow>
    constant \<and> (\<exists>e \<in> set (cvuTable c). cvu_matches a idx d e)"
proof (cases "constant")
  case True
  then show ?thesis
    using assms by (auto simp: cvu_verify_eq find_Some_iff find_None_iff in_set_conv_nth
        split: option.splits)
      (metis find_None_iff nth_mem option.exhaust)+
qed (simp add: cvu_verifyEntryInCVU_def)

section \<open>Coherence with memory\<close>

text \<open>
  Byte-addressed physical memory, an eight-byte read and an eight-byte write. The coherence
  argument is about naturally aligned eight-byte accesses; \<open>tr\<close> is the address translation.
\<close>

type_synonym memory = "u64 \<Rightarrow> u8"

definition load64 :: "memory \<Rightarrow> u64 \<Rightarrow> u64" where
  "load64 m p = word_rcat (map (\<lambda>i. m (p + of_nat i)) (rev [0..<8]))"

definition store64 :: "memory \<Rightarrow> u64 \<Rightarrow> u64 \<Rightarrow> memory" where
  "store64 m p d = (\<lambda>a. if unat (a - p) < 8 then ucast (drop_bit (8 * unat (a - p)) d) else m a)"

definition aligned8 :: "u64 \<Rightarrow> bool" where
  "aligned8 p \<longleftrightarrow> unat p mod 8 = 0"

lemma aligned8_div: "aligned8 p \<Longrightarrow> i < 8 \<Longrightarrow> unat (p + of_nat i) div 8 = unat p div 8"
proof -
  assume a: "aligned8 p" and i: "i < 8"
  have "unat p < 2 ^ 64" using unsigned_less [of p] by simp
  with a have "unat p + 8 \<le> 2 ^ 64" by (auto simp: aligned8_def)
  with i have "unat (p + of_nat i) = unat p + i"
    by (simp add: unat_word_ariths unat_of_nat)
  moreover from a obtain k where "unat p = 8 * k" by (auto simp: aligned8_def)
  with i have "(unat p + i) div 8 = unat p div 8" by simp
  ultimately show ?thesis by simp
qed

lemma load64_store64_other:
  assumes "aligned8 p" "aligned8 q" "p \<noteq> q"
  shows "load64 (store64 m q d) p = load64 m p"
proof -
  have "\<not> unat (p + of_nat i - q) < 8" if i: "i < 8" for i
  proof
    assume j: "unat (p + of_nat i - q) < 8"
    have "p + of_nat i = q + of_nat (unat (p + of_nat i - q))" by simp
    with aligned8_div [OF assms(1) i] aligned8_div [OF assms(2) j]
    have "unat p div 8 = unat q div 8" by metis
    with assms(1,2) have "unat p = unat q"
      by (metis aligned8_def mod_0_imp_dvd dvd_mult_div_cancel)
    with assms(3) show False by (simp add: word_unat_eq_iff)
  qed
  then have "store64 m q d (p + of_nat i) = m (p + of_nat i)" if "i < 8" for i
    using that by (simp add: store64_def)
  then have "map (\<lambda>i. store64 m q d (p + of_nat i)) (rev [0..<8]) =
      map (\<lambda>i. m (p + of_nat i)) (rev [0..<8])" by (intro map_cong) simp_all
  then show ?thesis by (simp only: load64_def)
qed

datatype cvu_op = LoadOp u64 u64 u64 u32 | StoreOp u64 u64 u64

text \<open>
  How the pipeline drives the unit: a load enters the value it read, a store writes memory and
  invalidates. The unit's two operations are arguments.
\<close>

definition vc_step :: "(u32 \<Rightarrow> 'c \<Rightarrow> u64 \<Rightarrow> u64 \<Rightarrow> u64 \<Rightarrow> u64 \<Rightarrow> 'c result) \<Rightarrow>
    ('c \<Rightarrow> u64 \<Rightarrow> u64 \<Rightarrow> 'c result) \<Rightarrow> 'c \<times> memory \<Rightarrow> cvu_op \<Rightarrow> ('c \<times> memory) result" where
  "vc_step ins inval s x = (case s of (c, m) \<Rightarrow> case x of
       LoadOp v p idx rnd \<Rightarrow> rbind (ins rnd c (load64 m p) idx v p) (\<lambda>c'. Inr (c', m))
     | StoreOp v p d \<Rightarrow> rbind (inval c v p) (\<lambda>c'. Inr (c', store64 m p d)))"

definition vc_translated :: "(u64 \<Rightarrow> u64) \<Rightarrow> cvu_op \<Rightarrow> bool" where
  "vc_translated tr x = (case x of LoadOp v p _ _ \<Rightarrow> p = tr v \<and> aligned8 p
                                 | StoreOp v p _ \<Rightarrow> p = tr v \<and> aligned8 p)"

locale value_cache =
  fixes ok :: "'c \<Rightarrow> bool"
    and live :: "'c \<Rightarrow> (u64 \<times> u64 \<times> u64 \<times> u64) set"
    and ins :: "u32 \<Rightarrow> 'c \<Rightarrow> u64 \<Rightarrow> u64 \<Rightarrow> u64 \<Rightarrow> u64 \<Rightarrow> 'c result"
    and inval :: "'c \<Rightarrow> u64 \<Rightarrow> u64 \<Rightarrow> 'c result"
    and probe :: "'c \<Rightarrow> u64 \<Rightarrow> u64 \<Rightarrow> u64 \<Rightarrow> bool \<Rightarrow> u64 \<Rightarrow> (bool \<times> u64) result"
  assumes ins_law: "ok c \<Longrightarrow> ins rnd c d idx v p = Inr c' \<Longrightarrow>
      ok c' \<and> live c' \<subseteq> insert (v, p, idx, d) (live c)"
    and inval_law: "ok c \<Longrightarrow> \<exists>c'. inval c v p = Inr c' \<and> ok c' \<and>
      live c' = {(v', p', i, d) \<in> live c. v' \<noteq> v \<and> p' \<noteq> p}"
    and probe_law: "ok c \<Longrightarrow> probe c a idx d k p0 = Inr (True, p) \<Longrightarrow> (a, p, idx, d) \<in> live c"
begin

definition coherent :: "(u64 \<Rightarrow> u64) \<Rightarrow> 'c \<times> memory \<Rightarrow> bool" where
  "coherent tr s \<longleftrightarrow> ok (fst s) \<and>
     (\<forall>(v, p, i, d) \<in> live (fst s). p = tr v \<and> aligned8 p \<and> load64 (snd s) p = d)"

lemma step_coherent:
  assumes "coherent tr s" "vc_translated tr x" "vc_step ins inval s x = Inr s'"
  shows "coherent tr s'"
proof -
  obtain c m where s: "s = (c, m)" by (cases s)
  from assms(1) have ok: "ok c" by (simp add: coherent_def s)
  show ?thesis
  proof (cases x)
    case (LoadOp v p idx rnd)
    with assms(3) obtain c' where c': "ins rnd c (load64 m p) idx v p = Inr c'" "s' = (c', m)"
      by (auto simp: vc_step_def s rbind_Inr_iff)
    from ins_law [OF ok c'(1)] assms(1,2) show ?thesis
      by (auto simp: coherent_def s c' LoadOp vc_translated_def)
  next
    case (StoreOp v p d)
    obtain c' where c': "inval c v p = Inr c'" "ok c'"
      "live c' = {(v', p', i, d) \<in> live c. v' \<noteq> v \<and> p' \<noteq> p}" using inval_law [OF ok] by blast
    with assms(3) have s': "s' = (c', store64 m p d)"
      by (simp add: vc_step_def s StoreOp)
    show ?thesis using assms(1,2) c'(2)
      by (auto simp: coherent_def s s' c'(3) StoreOp vc_translated_def load64_store64_other)
  qed
qed

lemma run_coherent:
  assumes "coherent tr s" "\<forall>x \<in> set xs. vc_translated tr x" "rfold (vc_step ins inval) s xs = Inr s'"
  shows "coherent tr s'"
  using assms
proof (induction xs arbitrary: s)
  case (Cons x xs)
  from Cons.prems(3) obtain s1 where "vc_step ins inval s x = Inr s1"
    "rfold (vc_step ins inval) s1 xs = Inr s'" by (auto simp: rbind_Inr_iff)
  moreover have "coherent tr s1"
    using Cons.prems(1,2) calculation(1) by (auto intro: step_coherent)
  ultimately show ?case using Cons.IH Cons.prems(2) by simp
qed simp

lemma hit_is_current:
  assumes "coherent tr (c, m)" "probe c a idx d k p0 = Inr (True, p)"
  shows "p = tr a \<and> load64 m (tr a) = d"
  using assms probe_law [of c a idx d k p0 p] by (auto simp: coherent_def)

end

definition cvu_live :: "cvu \<Rightarrow> (u64 \<times> u64 \<times> u64 \<times> u64) set" where
  "cvu_live c = (\<lambda>e. (ce_vaddr e, ce_paddr e, ce_index e, ce_data e)) ` {e \<in> set (cvuTable c). ce_valid e}"

lemma cvu_live_new: "cvu_live (cvu_new ts th mv) = {}"
  by (auto simp: cvu_live_def cvu_new_def cvu_entry_zero_def)

lemma cvu_live_ins:
  assumes "cvu_wf c" "cvu_AddEntryToCVU rnd c d idx v p = Inr c'"
  shows "cvu_wf c' \<and> cvu_live c' \<subseteq> insert (v, p, idx, d) (cvu_live c)"
  using cvu_Add_wf [OF assms] assms(2) set_update_subset_insert [of "cvuTable c" "cvu_slot rnd c" "cvu_fresh d idx v p"]
  by (auto simp: cvu_live_def cvu_Add_Inr_iff cvu_fresh_def)

lemma cvu_live_inval:
  assumes "cvu_wf c"
  shows "\<exists>c'. cvu_storeInvalidate c v p = Inr c' \<and> cvu_wf c' \<and>
    cvu_live c' = {(v', p', i, d) \<in> cvu_live c. v' \<noteq> v \<and> p' \<noteq> p}"
proof -
  obtain c' where c': "cvu_storeInvalidate c v p = Inr c'"
    "cvuTable c' = map (cvu_invalidated v p) (cvuTable c)"
    using cvu_storeInvalidate_eq [OF assms] by auto
  have "{e \<in> set (cvuTable c'). ce_valid e} =
      {e \<in> set (cvuTable c). ce_valid e \<and> ce_vaddr e \<noteq> v \<and> ce_paddr e \<noteq> p}"
    by (auto simp: c'(2) cvu_invalidated_def image_iff split: if_splits)
  then have "cvu_live c' = {(v', p', i, d) \<in> cvu_live c. v' \<noteq> v \<and> p' \<noteq> p}"
    by (auto simp: cvu_live_def)
  with c'(1) cvu_storeInvalidate_wf [OF assms c'(1)] show ?thesis by blast
qed

lemma cvu_live_probe:
  assumes "cvu_wf c" "cvu_verifyEntryInCVU c a idx d k p0 = Inr (True, p)"
  shows "(a, p, idx, d) \<in> cvu_live c"
proof -
  have k: "k" using assms(2) by (auto simp: cvu_verifyEntryInCVU_def split: if_splits)
  with assms obtain e where "List.find (cvu_matches a idx d) (cvuTable c) = Some e" "p = ce_paddr e"
    by (auto simp: cvu_verify_eq split: option.splits)
  then show ?thesis
    by (force simp: cvu_live_def find_Some_iff cvu_matches_def image_iff intro: nth_mem)
qed

interpretation cvuc: value_cache cvu_wf cvu_live cvu_AddEntryToCVU cvu_storeInvalidate
  cvu_verifyEntryInCVU
  by unfold_locales (fact cvu_live_ins cvu_live_inval cvu_live_probe)+

section \<open>Properties\<close>

text \<open>
  C2: Coherence of verified constants. Run any mix of load insertions and stores from a new
  unit, with aligned eight-byte accesses under one address translation. A hit of
  \<^verbatim>\<open>verifyEntryInCVU\<close> then means that the predicted value is what memory holds at the
  load's address now, and the physical address it reports is the load's.
\<close>

theorem cvu_hit_is_current:
  assumes "rfold (vc_step cvu_AddEntryToCVU cvu_storeInvalidate) (cvu_new ts th mv, m) xs = Inr (c, m')"
    and "\<forall>x \<in> set xs. vc_translated tr x"
    and "cvu_verifyEntryInCVU c a idx d k p0 = Inr (True, p)"
  shows "p = tr a \<and> load64 m' (tr a) = d"
proof -
  have "cvuc.coherent tr (cvu_new ts th mv, m)"
    by (simp add: cvuc.coherent_def cvu_new_wf cvu_live_new)
  from cvuc.run_coherent [OF this assms(2,1)] assms(3) show ?thesis
    by (rule cvuc.hit_is_current)
qed

text \<open>A run that inserts a load, stores elsewhere and inserts a second load.\<close>

definition cvu_ex_ops :: "cvu_op list" where
  "cvu_ex_ops = [LoadOp 64 64 3 0, StoreOp 128 128 5, LoadOp 192 192 4 0]"

lemma cvu_ex_run: "rfold (vc_step cvu_AddEntryToCVU cvu_storeInvalidate) (cvu_new 2 3 3, \<lambda>_. 0) cvu_ex_ops =
   Inr (\<lparr>cvu_tableSize = 2, cvu_threshold = 3, cvu_maxValue = 3, InvalidEntries = [],
         cvuTable = [cvu_fresh 0 3 64 64, cvu_fresh 0 4 192 192], CvuTableAdditions = 2\<rparr>,
        store64 (\<lambda>_. 0) 128 5)"
proof -
  have z: "load64 (\<lambda>_. 0) 64 = 0" by (simp add: load64_def word_rcat_def numeral_eq_Suc)
  have o: "load64 (store64 (\<lambda>_. 0) 128 5) 192 = load64 (\<lambda>_. 0) 192"
    by (rule load64_store64_other) (simp_all add: aligned8_def)
  have z': "load64 (\<lambda>_. 0) 192 = 0" by (simp add: load64_def word_rcat_def numeral_eq_Suc)
  show ?thesis
    by (simp add: cvu_ex_ops_def vc_step_def cvu_new_def cvu_AddEntryToCVU_def upt_rec replicate_numeral z o z'
        cvu_storeInvalidate_def cvu_invalidate_at_def cvu_entry_zero_def cvu_fresh_def
        vec_at_def vec_set_def)
qed

theorem cvu_hit_is_current_witness:
  "load64 (store64 (\<lambda>_. 0) 128 5) 192 = 0"
proof -
  have t: "\<forall>x \<in> set cvu_ex_ops. vc_translated (\<lambda>v. v) x"
    by (simp add: cvu_ex_ops_def vc_translated_def aligned8_def)
  from cvu_hit_is_current [OF cvu_ex_run t, of 192 4 0 True 0 192] show ?thesis
    by (simp add: cvu_verifyEntryInCVU_def cvu_fresh_def cvu_matches_def upt_rec replicate_numeral vec_at_def)
qed

text \<open>
  Invalidation by stores. \<^verbatim>\<open>storeInvalidate\<close> never fails on a well-formed unit, and
  afterwards a probe hits exactly on the entries that matched before and have neither the
  store's virtual nor its physical address.
\<close>

lemma cvu_store_then_verify:
  assumes "cvu_wf c"
  shows "\<exists>c'. cvu_storeInvalidate c v p = Inr c' \<and> cvu_wf c' \<and>
    ((\<exists>q. cvu_verifyEntryInCVU c' a idx d True p0 = Inr (True, q)) \<longleftrightarrow>
     (\<exists>e \<in> set (cvuTable c). cvu_matches a idx d e \<and> ce_vaddr e \<noteq> v \<and> ce_paddr e \<noteq> p))"
proof -
  obtain c' where c': "cvu_storeInvalidate c v p = Inr c'"
    "cvuTable c' = map (cvu_invalidated v p) (cvuTable c)"
    using cvu_storeInvalidate_eq [OF assms] by auto
  have wf': "cvu_wf c'" by (rule cvu_storeInvalidate_wf [OF assms c'(1)])
  have "cvu_matches a idx d (cvu_invalidated v p e) \<longleftrightarrow>
      cvu_matches a idx d e \<and> ce_vaddr e \<noteq> v \<and> ce_paddr e \<noteq> p" for e
    by (auto simp: cvu_matches_def cvu_invalidated_def)
  then show ?thesis using c' wf' by (auto simp: cvu_verify_hit_iff)
qed

lemma cvu_store_then_verify_witness:
  "\<exists>c'. cvu_storeInvalidate (cvu_new 2 3 3) 64 64 = Inr c' \<and> cvu_wf c'"
  using cvu_store_then_verify [OF cvu_new_wf, of 2 3 3 64 64] by blast

text \<open>
  C30: Insertion. On a well-formed unit \<^verbatim>\<open>AddEntryToCVU\<close> succeeds exactly unless the free
  list is empty and the random draw, taken modulo \<^verbatim>\<open>tableSize + 1\<close>, picks the subscript
  one past the end (or that modulus is itself zero); when it succeeds the next probe for the same
  load hits.
\<close>

theorem cvu_add_then_verify:
  assumes "cvu_wf c"
  shows "if InvalidEntries c = [] \<and> cvu_tableSize c + 1 = 0
         then cvu_AddEntryToCVU rnd c d idx v p = Inl Undefined
         else if InvalidEntries c = [] \<and> rnd mod (cvu_tableSize c + 1) = cvu_tableSize c
         then cvu_AddEntryToCVU rnd c d idx v p = Inl OutOfBounds
         else \<exists>c' q. cvu_AddEntryToCVU rnd c d idx v p = Inr c' \<and> cvu_wf c' \<and>
                cvu_verifyEntryInCVU c' v idx d True p0 = Inr (True, q)"
proof (cases "InvalidEntries c = [] \<and>
    (cvu_tableSize c + 1 = 0 \<or> rnd mod (cvu_tableSize c + 1) = cvu_tableSize c)")
  case True
  then show ?thesis using assms by (auto simp: cvu_AddEntryToCVU_def cvu_wf_def)
next
  case False
  have slot: "cvu_slot rnd c < length (cvuTable c)"
  proof (cases "InvalidEntries c")
    case Nil
    with False have nz: "cvu_tableSize c + 1 \<noteq> 0" and ne: "rnd mod (cvu_tableSize c + 1) \<noteq> cvu_tableSize c"
      by auto
    have "unat (cvu_tableSize c + 1) = Suc (unat (cvu_tableSize c))"
      using nz by (metis add.commute unatSuc)
    then have "unat (rnd mod (cvu_tableSize c + 1)) < Suc (unat (cvu_tableSize c))"
      by (simp add: unat_mod_distrib)
    with ne have "unat (rnd mod (cvu_tableSize c + 1)) < unat (cvu_tableSize c)"
      by (metis less_SucE word_unat_eq_iff)
    with Nil assms show ?thesis by (simp add: cvu_slot_def cvu_wf_def)
  next
    case (Cons i rest)
    with assms show ?thesis by (simp add: cvu_slot_def cvu_wf_def)
  qed
  with False obtain c' where c': "cvu_AddEntryToCVU rnd c d idx v p = Inr c'"
    "cvuTable c' = (cvuTable c)[cvu_slot rnd c := cvu_fresh d idx v p]"
    by (auto simp: cvu_Add_Inr_iff)
  have wf': "cvu_wf c'" by (rule cvu_Add_wf [OF assms c'(1)])
  have "cvu_fresh d idx v p \<in> set (cvuTable c')" using slot by (simp add: c'(2) set_update_memI)
  then have "\<exists>e \<in> set (cvuTable c'). cvu_matches v idx d e"
    by (force simp: cvu_matches_def cvu_fresh_def)
  then have "\<exists>q. cvu_verifyEntryInCVU c' v idx d True p0 = Inr (True, q)"
    using cvu_verify_hit_iff [OF wf', of v idx d True p0] by blast
  with False c'(1) wf' show ?thesis by auto
qed

theorem cvu_add_then_verify_witness:
  "\<exists>c' q. cvu_AddEntryToCVU 0 (cvu_new 2 3 3) 7 3 64 64 = Inr c' \<and> cvu_wf c' \<and>
     cvu_verifyEntryInCVU c' 64 3 7 True 0 = Inr (True, q)"
  using cvu_add_then_verify [OF cvu_new_wf, of 2 3 3 0 7 3 64 64 0] by (simp add: cvu_new_def)


end
