(* ===== verification/PCState.thy ===== *)
theory PCState
  imports Prelude
begin

text \<open>
  \<^verbatim>\<open>arch/generic/pcstate.hh\<close>: the program counter objects the pipeline moves around.
  \<open>pcstate\<close> has the fields of \<^verbatim>\<open>PCStateBase\<close> and \<^verbatim>\<open>PCStateWithNext\<close>; the
  operations are those of \<^verbatim>\<open>SimplePCState<InstWidth>\<close> and \<^verbatim>\<open>UPCState<InstWidth>\<close>
  with the instruction width as an argument. A possibly null pointer to a PC state is an
  \<open>option\<close>; \<open>pc_set_ptr\<close> and \<open>pc_set_ref\<close> are the overloads of \<^verbatim>\<open>set\<close>.
\<close>

record pcstate =
  pc_pc :: u64
  pc_upc :: u16
  pc_npc :: u64
  pc_nupc :: u16

definition pc_new :: pcstate where
  "pc_new = \<lparr>pc_pc = 0, pc_upc = 0, pc_npc = 0, pc_nupc = 1\<rparr>"

definition instAddr :: "pcstate \<Rightarrow> u64" where
  "instAddr p = pc_pc p"

definition microPC :: "pcstate \<Rightarrow> u16" where
  "microPC p = pc_upc p"

definition pc_update :: "pcstate \<Rightarrow> pcstate \<Rightarrow> pcstate" where
  "pc_update p other =
     p\<lparr>pc_pc := pc_pc other, pc_upc := pc_upc other, pc_npc := pc_npc other, pc_nupc := pc_nupc other\<rparr>"

definition pc_equals :: "pcstate \<Rightarrow> pcstate \<Rightarrow> bool" where
  "pc_equals p other \<longleftrightarrow> (pc_pc p = pc_pc other \<and> pc_upc p = pc_upc other) \<and>
     pc_npc p = pc_npc other \<and> pc_nupc p = pc_nupc other"

definition pc_uReset :: "pcstate \<Rightarrow> pcstate" where
  "pc_uReset p = p\<lparr>pc_upc := 0, pc_nupc := 1\<rparr>"

definition pc_set_ptr :: "pcstate option \<Rightarrow> pcstate option \<Rightarrow> pcstate option" where
  "pc_set_ptr dest src =
     (case dest of
        Some d \<Rightarrow> (case src of Some s \<Rightarrow> Some (pc_update d s) | None \<Rightarrow> None)
      | None \<Rightarrow> (case src of Some s \<Rightarrow> Some s | None \<Rightarrow> None))"

definition pc_set_ref :: "pcstate option \<Rightarrow> pcstate \<Rightarrow> pcstate option" where
  "pc_set_ref dest src = (case dest of Some d \<Rightarrow> Some (pc_update d src) | None \<Rightarrow> Some src)"

definition simple_set :: "u64 \<Rightarrow> pcstate \<Rightarrow> u64 \<Rightarrow> pcstate" where
  "simple_set w p val = p\<lparr>pc_pc := val, pc_npc := val + w\<rparr>"

definition simple_branching :: "u64 \<Rightarrow> pcstate \<Rightarrow> bool" where
  "simple_branching w p \<longleftrightarrow> pc_npc p \<noteq> pc_pc p + w"

definition simple_advance :: "u64 \<Rightarrow> pcstate \<Rightarrow> pcstate" where
  "simple_advance w p = p\<lparr>pc_pc := pc_npc p, pc_npc := pc_npc p + w\<rparr>"

definition upc_set :: "u64 \<Rightarrow> pcstate \<Rightarrow> u64 \<Rightarrow> pcstate" where
  "upc_set w p val = (simple_set w p val)\<lparr>pc_upc := 0, pc_nupc := 1\<rparr>"

text \<open>\<^verbatim>\<open>this->upc() + 1\<close> is computed in \<^verbatim>\<open>int\<close>, so it does not wrap at 16 bits.\<close>

definition upc_branching :: "u64 \<Rightarrow> pcstate \<Rightarrow> bool" where
  "upc_branching w p \<longleftrightarrow> pc_npc p \<noteq> pc_pc p + w \<or> uint (pc_nupc p) \<noteq> uint (pc_upc p) + 1"

definition upc_uAdvance :: "pcstate \<Rightarrow> pcstate" where
  "upc_uAdvance p = p\<lparr>pc_upc := pc_nupc p, pc_nupc := pc_nupc p + 1\<rparr>"

definition upc_uEnd :: "u64 \<Rightarrow> pcstate \<Rightarrow> pcstate" where
  "upc_uEnd w p = (simple_advance w p)\<lparr>pc_upc := 0, pc_nupc := 1\<rparr>"

text \<open>A PC with a delay slot, \<^verbatim>\<open>DelaySlotPCState\<close>.\<close>

record dspcstate = pcstate +
  pc_nnpc :: u64

definition ds_set :: "u64 \<Rightarrow> dspcstate \<Rightarrow> u64 \<Rightarrow> dspcstate" where
  "ds_set w p val = p\<lparr>pc_pc := val, pc_npc := val + w, pc_nnpc := val + 2 * w\<rparr>"

definition ds_branching :: "u64 \<Rightarrow> dspcstate \<Rightarrow> bool" where
  "ds_branching w p \<longleftrightarrow> \<not> (pc_nnpc p = pc_npc p + w \<and>
     (pc_npc p = pc_pc p + w \<or> pc_npc p = pc_pc p + 2 * w))"

definition ds_advance :: "u64 \<Rightarrow> dspcstate \<Rightarrow> dspcstate" where
  "ds_advance w p = p\<lparr>pc_pc := pc_npc p, pc_npc := pc_nnpc p, pc_nnpc := pc_nnpc p + w\<rparr>"

lemma pc_set_ptr_eq: "pc_set_ptr d p = p"
  by (cases d; cases p) (simp_all add: pc_set_ptr_def pc_update_def)

lemma pc_set_ref_eq: "pc_set_ref d p = Some p"
  by (cases d) (simp_all add: pc_set_ref_def pc_update_def)

lemma pc_update_copy [simp]: "pc_update p q = q"
  by (cases p, cases q) (simp add: pc_update_def)

lemma pc_set_ptr_copy [simp]: "pc_set_ptr dest src = src"
  by (simp add: pc_set_ptr_def split: option.split)

lemma pc_set_ref_copy [simp]: "pc_set_ref dest src = Some src"
  by (simp add: pc_set_ref_def split: option.split)

lemma pc_equals_iff: "pc_equals p q \<longleftrightarrow> p = q"
  by (cases p, cases q) (auto simp: pc_equals_def)

text \<open>
  Sequential flow of a micro-coded PC. Set to an address and then ended \<open>n\<close> times, the
  PC is at the address plus \<open>n\<close> instruction widths, modulo the address space; it points at
  micro-op 0 and never counts as branching on the way.
\<close>

lemma upc_sequential:
  "pc_pc ((upc_uEnd w ^^ n) (upc_set w p a)) = a + of_nat n * w \<and>
   pc_upc ((upc_uEnd w ^^ n) (upc_set w p a)) = 0 \<and>
   \<not> upc_branching w ((upc_uEnd w ^^ n) (upc_set w p a))"
proof -
  have "(upc_uEnd w ^^ n) (upc_set w p a) =
      \<lparr>pc_pc = a + of_nat n * w, pc_upc = 0, pc_npc = a + of_nat n * w + w, pc_nupc = 1\<rparr>" for n
    by (induction n; cases p)
      (simp_all add: upc_uEnd_def upc_set_def simple_set_def simple_advance_def algebra_simps)
  then show ?thesis by (simp add: upc_branching_def)
qed

end
