(* ===== verification/DynInst.thy ===== *)
theory DynInst
  imports PCState LVPT
begin

text \<open>
  Static and dynamic instructions: the part of \<^verbatim>\<open>cpu/static_inst.hh\<close> and
  \<^verbatim>\<open>cpu/reg_class.hh\<close> the pipeline consults, and \<^verbatim>\<open>cpu/myminor/dyn_inst.hh\<close> and
  \<^verbatim>\<open>dyn_inst.cc\<close>. A static instruction is what an instruction set's decoder supplies: its
  flags, operation class, registers and, for a macro-op, its micro-ops. A
  \<^verbatim>\<open>StaticInstPtr\<close> may be null and is an \<open>option\<close>; a \<^verbatim>\<open>Fault\<close> is an
  \<open>option\<close> of the fault's name, \<open>None\<close> being \<^verbatim>\<open>NoFault\<close>. The seven
  \<^verbatim>\<open>lvptOut\<close> fields are one \<open>lvpt_out\<close>.
\<close>

section \<open>Registers and static instructions\<close>

datatype regclass = IntRegClass | FloatRegClass | VecRegClass | VecElemClass | VecPredRegClass
  | CCRegClass | MiscRegClass | InvalidRegClass

record regid =
  regClass :: regclass
  regIdx :: u16

definition regid_zero :: regid where
  "regid_zero = \<lparr>regClass = InvalidRegClass, regIdx = 0\<rparr>"

datatype si_flag = IsNop | IsInteger | IsFloating | IsVector | IsVectorElem | IsLoad | IsStore
  | IsAtomic | IsStoreConditional | IsInstPrefetch | IsDataPrefetch | IsControl | IsDirectControl
  | IsIndirectControl | IsCondControl | IsUncondControl | IsCall | IsReturn | IsSerializing
  | IsSerializeBefore | IsSerializeAfter | IsWriteBarrier | IsReadBarrier | IsNonSpeculative
  | IsQuiesce | IsUnverifiable | IsSyscall | IsMacroop | IsMicroop | IsDelayedCommit
  | IsLastMicroop | IsFirstMicroop | IsSquashAfter | IsHtmStart | IsHtmStop | IsHtmCancel

datatype static_inst = StaticInst (si_flags: "si_flag list") (si_opClass: nat)
  (si_srcRegs: "regid list") (si_destRegs: "regid list") (si_microops: "static_inst list")

definition isMemRef :: "static_inst \<Rightarrow> bool" where
  "isMemRef si \<longleftrightarrow> IsLoad \<in> set (si_flags si) \<or> IsStore \<in> set (si_flags si) \<or> IsAtomic \<in> set (si_flags si)"

definition isSerializing :: "static_inst \<Rightarrow> bool" where
  "isSerializing si \<longleftrightarrow> IsSerializing \<in> set (si_flags si) \<or> IsSerializeBefore \<in> set (si_flags si) \<or>
     IsSerializeAfter \<in> set (si_flags si)"

definition isFullMemBarrier :: "static_inst \<Rightarrow> bool" where
  "isFullMemBarrier si \<longleftrightarrow> IsReadBarrier \<in> set (si_flags si) \<and> IsWriteBarrier \<in> set (si_flags si)"

abbreviation si_is :: "si_flag \<Rightarrow> static_inst \<Rightarrow> bool" where
  "si_is f si \<equiv> f \<in> set (si_flags si)"

definition No_OpClass :: nat where "No_OpClass = 0"

section \<open>Instruction identifiers\<close>

record inst_id =
  threadId :: int
  streamSeqNum :: u64
  predictionSeqNum :: u64
  lineSeqNum :: u64
  fetchSeqNum :: u64
  execSeqNum :: u64

definition InvalidThreadID :: int where "InvalidThreadID = -1"

definition inst_id_zero :: inst_id where
  "inst_id_zero = \<lparr>threadId = 0, streamSeqNum = 0, predictionSeqNum = 0, lineSeqNum = 0,
                   fetchSeqNum = 0, execSeqNum = 0\<rparr>"

definition firstSeqNum :: u64 where "firstSeqNum = 1"

definition inst_id_eq :: "inst_id \<Rightarrow> inst_id \<Rightarrow> bool result" where
  "inst_id_eq lhs rhs =
     (let ret = (threadId lhs = threadId rhs \<and> lineSeqNum lhs = lineSeqNum rhs \<and>
                 fetchSeqNum lhs = fetchSeqNum rhs \<and> execSeqNum lhs = execSeqNum rhs) in
      rbind (if ret then rassert (streamSeqNum lhs = streamSeqNum rhs \<and>
                                  predictionSeqNum lhs = predictionSeqNum rhs)
             else Inr ()) (\<lambda>_. Inr ret))"

text \<open>Decimal output of an unsigned and of a signed integer.\<close>

fun show_nat :: "nat \<Rightarrow> string" where
  "show_nat n = (if n < 10 then [char_of (48 + n)] else show_nat (n div 10) @ [char_of (48 + n mod 10)])"

declare show_nat.simps [simp del]

definition show_int :: "int \<Rightarrow> string" where
  "show_int i = (if i < 0 then CHR ''-'' # show_nat (nat (- i)) else show_nat (nat i))"

definition show_id :: "inst_id \<Rightarrow> string" where
  "show_id iid =
     show_int (threadId iid) @ ''/'' @ show_nat (unat (streamSeqNum iid)) @ ''.'' @
     show_nat (unat (predictionSeqNum iid)) @ ''/'' @ show_nat (unat (lineSeqNum iid)) @
     (if fetchSeqNum iid \<noteq> 0 then
        ''/'' @ show_nat (unat (fetchSeqNum iid)) @
        (if execSeqNum iid \<noteq> 0 then ''.'' @ show_nat (unat (execSeqNum iid)) else '''')
      else '''')"

section \<open>Dynamic instructions\<close>

type_synonym fault = "string option"

abbreviation NoFault :: fault where "NoFault \<equiv> None"

record dyn_inst =
  staticInst :: "static_inst option"
  di_id :: inst_id
  di_pc :: "pcstate option"
  di_fault :: fault
  di_lvptOut :: lvpt_out
  triedToPredict :: bool
  predictedTaken :: bool
  predictedTarget :: "pcstate option"
  fuIndex :: u32
  inLSQ :: bool
  translationFault :: fault
  inStoreBuffer :: bool
  canEarlyIssue :: bool
  predicate :: bool
  memAccPredicate :: bool
  instToWaitFor :: u64
  extraCommitDelay :: u64
  extraCommitDelayExpr :: "nat option"
  minimumCommitCycle :: u64
  flatDestRegIdx :: "regid list"

definition dyn_inst_new :: "static_inst option \<Rightarrow> inst_id \<Rightarrow> fault \<Rightarrow> dyn_inst" where
  "dyn_inst_new si iid f =
     \<lparr>staticInst = si, di_id = iid, di_pc = None, di_fault = f, di_lvptOut = lvpt_out_zero,
      triedToPredict = False, predictedTaken = False, predictedTarget = None, fuIndex = 0,
      inLSQ = False, translationFault = NoFault, inStoreBuffer = False, canEarlyIssue = False,
      predicate = True, memAccPredicate = True, instToWaitFor = 0, extraCommitDelay = 0,
      extraCommitDelayExpr = None, minimumCommitCycle = 0,
      flatDestRegIdx = (case si of Some s \<Rightarrow> replicate (length (si_destRegs s)) regid_zero | None \<Rightarrow> [])\<rparr>"

definition di_isBubble :: "dyn_inst \<Rightarrow> bool" where
  "di_isBubble i \<longleftrightarrow> fetchSeqNum (di_id i) = 0"

definition di_bubble :: dyn_inst where
  "di_bubble = dyn_inst_new None inst_id_zero NoFault"

definition di_isFault :: "dyn_inst \<Rightarrow> bool" where
  "di_isFault i \<longleftrightarrow> di_fault i \<noteq> NoFault"

definition di_isInst :: "dyn_inst \<Rightarrow> bool" where
  "di_isInst i \<longleftrightarrow> \<not> di_isBubble i \<and> \<not> di_isFault i"

text \<open>The dereference of the static instruction, which may be null.\<close>

definition di_static :: "dyn_inst \<Rightarrow> static_inst result" where
  "di_static i = (case staticInst i of Some s \<Rightarrow> Inr s | None \<Rightarrow> Inl NullDeref)"

definition di_isMemRef :: "dyn_inst \<Rightarrow> bool result" where
  "di_isMemRef i = (if di_isInst i then rbind (di_static i) (\<lambda>s. Inr (isMemRef s)) else Inr False)"

definition di_isNoCostInst :: "dyn_inst \<Rightarrow> bool result" where
  "di_isNoCostInst i =
     (if di_isInst i then rbind (di_static i) (\<lambda>s. Inr (si_opClass s = No_OpClass)) else Inr False)"

definition di_isLastOpInInst :: "dyn_inst \<Rightarrow> bool result" where
  "di_isLastOpInInst i =
     rbind (rassert (staticInst i \<noteq> None)) (\<lambda>_.
     rbind (di_static i) (\<lambda>s. Inr (\<not> (si_is IsMicroop s \<and> \<not> si_is IsLastMicroop s))))"

definition di_reportData :: "dyn_inst \<Rightarrow> string" where
  "di_reportData i =
     (if di_isBubble i then ''-''
      else if di_isFault i then ''F;'' @ show_id (di_id i)
      else if translationFault i \<noteq> NoFault then ''TF;'' @ show_id (di_id i)
      else show_id (di_id i))"

lemma di_bubble_isBubble [simp]: "di_isBubble di_bubble"
  by (simp add: di_isBubble_def di_bubble_def dyn_inst_new_def inst_id_zero_def)

section \<open>Trace identifiers are unambiguous\<close>

definition digit :: "char \<Rightarrow> bool" where
  "digit c \<longleftrightarrow> 48 \<le> (of_char c :: nat) \<and> (of_char c :: nat) \<le> 57"

definition read_nat :: "string \<Rightarrow> nat" where
  "read_nat s = foldl (\<lambda>n c. n * 10 + (of_char c - 48)) 0 s"

lemma of_char_digit: "d < 10 \<Longrightarrow> (of_char (char_of (48 + d :: nat)) :: nat) = 48 + d"
  by simp

lemma show_nat_digits: "c \<in> set (show_nat n) \<Longrightarrow> digit c"
proof (induction n rule: show_nat.induct)
  case (1 n)
  then show ?case
    by (cases "n < 10") (auto simp: show_nat.simps [of n] digit_def of_char_digit)
qed

lemma read_show_nat: "read_nat (show_nat n) = n"
proof (induction n rule: show_nat.induct)
  case (1 n)
  then show ?case
    by (cases "n < 10") (simp_all add: show_nat.simps [of n] read_nat_def of_char_digit)
qed

lemma show_nat_split:
  assumes "show_nat a @ x = show_nat b @ y"
    and "x = [] \<or> \<not> digit (hd x)" "y = [] \<or> \<not> digit (hd y)"
  shows "a = b \<and> x = y"
proof -
  have tw: "takeWhile digit (show_nat n @ z) = show_nat n" if "z = [] \<or> \<not> digit (hd z)" for n z
  proof -
    have "takeWhile digit z = []" using that by (cases z) auto
    then show ?thesis by (subst takeWhile_append2) (auto dest: show_nat_digits)
  qed
  from tw [OF assms(2), of a] tw [OF assms(3), of b] assms(1)
  have "show_nat a = show_nat b" by simp
  moreover from this have "a = b" by (metis read_show_nat)
  ultimately show ?thesis using assms(1) by simp
qed

lemma show_nat_hd: "\<exists>c s. show_nat n = c # s \<and> digit c"
proof -
  have "show_nat n \<noteq> []" by (simp add: show_nat.simps [of n])
  then obtain c s where "show_nat n = c # s" by (cases "show_nat n") auto
  with show_nat_digits [of c n] show ?thesis by simp
qed

lemma show_int_split:
  assumes "show_int a @ x = show_int b @ y"
    and "x = [] \<or> \<not> digit (hd x)" "y = [] \<or> \<not> digit (hd y)"
  shows "a = b \<and> x = y"
proof -
  have minus: "\<not> digit (CHR ''-'')" by (simp add: digit_def)
  show ?thesis
  proof (cases "(a < 0) = (b < 0)")
    case True
    then have "show_nat (nat \<bar>a\<bar>) @ x = show_nat (nat \<bar>b\<bar>) @ y"
      using assms(1) by (auto simp: show_int_def split: if_splits)
    from show_nat_split [OF this assms(2,3)] True show ?thesis by auto
  next
    case False
    obtain c s d t where "show_nat (nat a) = c # s" "digit c" "show_nat (nat b) = d # t" "digit d"
      using show_nat_hd by meson
    with False assms(1) minus show ?thesis by (auto simp: show_int_def split: if_splits)
  qed
qed

lemma separators [simp]: "\<not> digit (CHR ''/'')" "\<not> digit (CHR ''.'')"
  by (simp_all add: digit_def)

definition inst_id_wf :: "inst_id \<Rightarrow> bool" where
  "inst_id_wf i \<longleftrightarrow> (fetchSeqNum i = 0 \<longrightarrow> execSeqNum i = 0)"

text \<open>The part of an identifier after the line number.\<close>

abbreviation show_id_tail :: "inst_id \<Rightarrow> string" where
  "show_id_tail i \<equiv> (if fetchSeqNum i \<noteq> 0 then ''/'' @ show_nat (unat (fetchSeqNum i)) @
      (if execSeqNum i \<noteq> 0 then ''.'' @ show_nat (unat (execSeqNum i)) else '''') else '''')"

lemma show_id_tail_inj:
  assumes "inst_id_wf i" "inst_id_wf j" "show_id_tail i = show_id_tail j"
  shows "fetchSeqNum i = fetchSeqNum j \<and> execSeqNum i = execSeqNum j"
proof (cases "fetchSeqNum i = 0 \<or> fetchSeqNum j = 0")
  case True
  with assms show ?thesis by (auto simp: inst_id_wf_def split: if_splits)
next
  case False
  let ?e = "\<lambda>k. if execSeqNum k \<noteq> 0 then ''.'' @ show_nat (unat (execSeqNum k)) else ''''"
  from False assms(3) have "show_nat (unat (fetchSeqNum i)) @ ?e i = show_nat (unat (fetchSeqNum j)) @ ?e j"
    by simp
  from show_nat_split [OF this] have f: "fetchSeqNum i = fetchSeqNum j" and e: "?e i = ?e j"
    by (simp_all add: word_unat_eq_iff)
  have "execSeqNum i = execSeqNum j"
    using e show_nat_split [of "unat (execSeqNum i)" "[]" "unat (execSeqNum j)" "[]"]
    by (auto simp: word_unat_eq_iff split: if_splits)
  with f show ?thesis by simp
qed

text \<open>
  Trace identifiers are unambiguous. Two instruction identifiers whose execute sequence
  number is set only together with the fetch sequence number print as the same text only if they
  are equal in every field.
\<close>

lemma show_id_injective:
  assumes "inst_id_wf i" "inst_id_wf j" "show_id i = show_id j"
  shows "i = j"
proof -
  from assms(3) have "show_int (threadId i) @ ''/'' @ show_nat (unat (streamSeqNum i)) @ ''.'' @
      show_nat (unat (predictionSeqNum i)) @ ''/'' @ show_nat (unat (lineSeqNum i)) @ show_id_tail i =
    show_int (threadId j) @ ''/'' @ show_nat (unat (streamSeqNum j)) @ ''.'' @
      show_nat (unat (predictionSeqNum j)) @ ''/'' @ show_nat (unat (lineSeqNum j)) @ show_id_tail j"
    unfolding show_id_def .
  from show_int_split [OF this] have t: "threadId i = threadId j" and
    "show_nat (unat (streamSeqNum i)) @ ''.'' @ show_nat (unat (predictionSeqNum i)) @ ''/'' @
      show_nat (unat (lineSeqNum i)) @ show_id_tail i =
    show_nat (unat (streamSeqNum j)) @ ''.'' @ show_nat (unat (predictionSeqNum j)) @ ''/'' @
      show_nat (unat (lineSeqNum j)) @ show_id_tail j" by simp_all
  from show_nat_split [OF this(2)] have s: "streamSeqNum i = streamSeqNum j" and
    "show_nat (unat (predictionSeqNum i)) @ ''/'' @ show_nat (unat (lineSeqNum i)) @ show_id_tail i =
    show_nat (unat (predictionSeqNum j)) @ ''/'' @ show_nat (unat (lineSeqNum j)) @ show_id_tail j"
    by (simp_all add: word_unat_eq_iff)
  from show_nat_split [OF this(2)] have p: "predictionSeqNum i = predictionSeqNum j" and
    "show_nat (unat (lineSeqNum i)) @ show_id_tail i = show_nat (unat (lineSeqNum j)) @ show_id_tail j"
    by (simp_all add: word_unat_eq_iff)
  from show_nat_split [OF this(2)] have l: "lineSeqNum i = lineSeqNum j" and
    "show_id_tail i = show_id_tail j" by (simp_all add: word_unat_eq_iff)
  from show_id_tail_inj [OF assms(1,2) this(2)] t s p l show ?thesis by simp
qed

lemma show_id_injective_witness:
  "show_id (inst_id_zero\<lparr>lineSeqNum := 12\<rparr>) \<noteq> show_id (inst_id_zero\<lparr>lineSeqNum := 13\<rparr>)"
  using show_id_injective [of "inst_id_zero\<lparr>lineSeqNum := 12\<rparr>" "inst_id_zero\<lparr>lineSeqNum := 13\<rparr>"]
  by (auto simp: inst_id_wf_def inst_id_zero_def)

end
