(* ===== verification/Scoreboard.thy ===== *)
theory Scoreboard
  imports DynInst
begin

text \<open>
  The register scoreboard, \<^verbatim>\<open>cpu/myminor/scoreboard.hh\<close> and \<^verbatim>\<open>scoreboard.cc\<close>: per
  register the number of results in flight, of results with unpredictable timing, the cycle at
  which the last one is due, and the writing instruction. Register classes' sizes are the argument
  \<open>rc\<close>; \<^verbatim>\<open>thread_context->flattenRegId\<close>, which belongs to the instruction set, is the
  argument \<open>flat\<close>. Scoreboard indices are \<^verbatim>\<open>unsigned short\<close>.
\<close>

record sb_layout =
  floatRegOffset :: u32
  ccRegOffset :: u32
  vecRegOffset :: u32
  vecPredRegOffset :: u32
  sb_numRegs :: u32

record scoreboard =
  sb_lay :: sb_layout
  numResults :: "u16 list"
  numUnpredictableResults :: "u16 list"
  fuIndices :: "int list"
  returnCycle :: "u64 list"
  writingInst :: "u64 list"

definition invalidFUIndex :: int where "invalidFUIndex = -1"

definition sb_new_layout :: "(regclass \<Rightarrow> u32) \<Rightarrow> sb_layout" where
  "sb_new_layout rc =
     (let f = 0 + rc IntRegClass; cc = f + rc FloatRegClass; v = cc + rc CCRegClass;
          vp = v + rc VecElemClass in
      \<lparr>floatRegOffset = f, ccRegOffset = cc, vecRegOffset = v, vecPredRegOffset = vp,
       sb_numRegs = vp + rc VecPredRegClass\<rparr>)"

definition sb_new :: "(regclass \<Rightarrow> u32) \<Rightarrow> scoreboard" where
  "sb_new rc =
     (let lay = sb_new_layout rc; n = unat (sb_numRegs lay) in
      \<lparr>sb_lay = lay, numResults = replicate n 0, numUnpredictableResults = replicate n 0,
       fuIndices = replicate n invalidFUIndex, returnCycle = replicate n 0, writingInst = replicate n 0\<rparr>)"

fun sb_findIndex :: "sb_layout \<Rightarrow> regid \<Rightarrow> u16 option" where
  "sb_findIndex lay r =
     (case regClass r of
        IntRegClass \<Rightarrow> Some (regIdx r)
      | FloatRegClass \<Rightarrow> Some (ucast (floatRegOffset lay + ucast (regIdx r)))
      | VecRegClass \<Rightarrow> Some (ucast (vecRegOffset lay + ucast (regIdx r)))
      | VecElemClass \<Rightarrow> Some (ucast (vecRegOffset lay + ucast (regIdx r)))
      | VecPredRegClass \<Rightarrow> Some (ucast (vecPredRegOffset lay + ucast (regIdx r)))
      | CCRegClass \<Rightarrow> Some (ucast (ccRegOffset lay + ucast (regIdx r)))
      | MiscRegClass \<Rightarrow> None
      | InvalidRegClass \<Rightarrow> None)"

declare sb_findIndex.simps [simp del]

text \<open>The counters and times of one destination register.\<close>

definition sb_mark_reg :: "u64 \<Rightarrow> bool \<Rightarrow> dyn_inst \<Rightarrow> scoreboard \<Rightarrow> nat \<Rightarrow> scoreboard result" where
  "sb_mark_reg retire_time mark_unpredictable inst sb index =
     rbind (if mark_unpredictable then
              rbind (vec_at (numUnpredictableResults sb) index) (\<lambda>n.
              rbind (vec_set (numUnpredictableResults sb) index (n + 1)) (\<lambda>xs.
              Inr (sb\<lparr>numUnpredictableResults := xs\<rparr>)))
            else Inr sb) (\<lambda>sb.
     rbind (vec_at (numResults sb) index) (\<lambda>n.
     rbind (vec_set (numResults sb) index (n + 1)) (\<lambda>res.
     rbind (vec_set (returnCycle sb) index retire_time) (\<lambda>ret.
     let sb = sb\<lparr>numResults := res, returnCycle := ret\<rparr> in
     rbind (vec_at (writingInst sb) index) (\<lambda>w.
     if execSeqNum (di_id inst) > w then
       rbind (vec_set (writingInst sb) index (execSeqNum (di_id inst))) (\<lambda>ws.
       rbind (vec_set (fuIndices sb) index (sint (fuIndex inst))) (\<lambda>fus.
       Inr (sb\<lparr>writingInst := ws, fuIndices := fus\<rparr>)))
     else Inr sb)))))"

definition sb_mark_dest :: "u64 \<Rightarrow> (regid \<Rightarrow> regid) \<Rightarrow> bool \<Rightarrow> static_inst \<Rightarrow>
    scoreboard \<times> dyn_inst \<Rightarrow> nat \<Rightarrow> (scoreboard \<times> dyn_inst) result" where
  "sb_mark_dest retire_time flat mark_unpredictable si s dest_index =
     (case s of (sb, inst) \<Rightarrow>
      rbind (vec_at (si_destRegs si) dest_index) (\<lambda>r.
      let reg = flat r in
      case sb_findIndex (sb_lay sb) reg of
        Some index \<Rightarrow>
          rbind (vec_set (flatDestRegIdx inst) dest_index reg) (\<lambda>fl.
          rbind (sb_mark_reg retire_time mark_unpredictable inst sb (unat index)) (\<lambda>sb.
          Inr (sb, inst\<lparr>flatDestRegIdx := fl\<rparr>)))
      | None \<Rightarrow>
          rbind (vec_set (flatDestRegIdx inst) dest_index regid_zero) (\<lambda>fl.
          Inr (sb, inst\<lparr>flatDestRegIdx := fl\<rparr>))))"

definition sb_markupInstDests :: "scoreboard \<Rightarrow> dyn_inst \<Rightarrow> u64 \<Rightarrow> (regid \<Rightarrow> regid) \<Rightarrow> bool \<Rightarrow>
    (scoreboard \<times> dyn_inst) result" where
  "sb_markupInstDests sb inst retire_time flat mark_unpredictable =
     (if di_isFault inst then Inr (sb, inst)
      else rbind (di_static inst) (\<lambda>si.
        rfold (sb_mark_dest retire_time flat mark_unpredictable si) (sb, inst)
          [0..<length (si_destRegs si)]))"

definition sb_execSeqNumToWaitFor :: "scoreboard \<Rightarrow> dyn_inst \<Rightarrow> (regid \<Rightarrow> regid) \<Rightarrow> u64 result" where
  "sb_execSeqNumToWaitFor sb inst flat =
     (if di_isFault inst then Inr 0
      else rbind (di_static inst) (\<lambda>si.
        rfold (\<lambda>ret r. case sb_findIndex (sb_lay sb) (flat r) of
                 Some index \<Rightarrow> rbind (vec_at (writingInst sb) (unat index)) (\<lambda>w. Inr (if w > ret then w else ret))
               | None \<Rightarrow> Inr ret) 0 (si_srcRegs si)))"

definition sb_clear_reg :: "bool \<Rightarrow> scoreboard \<Rightarrow> nat \<Rightarrow> scoreboard result" where
  "sb_clear_reg clear_unpredictable sb index =
     rbind (if clear_unpredictable then
              rbind (vec_at (numUnpredictableResults sb) index) (\<lambda>n.
              if n \<noteq> 0 then
                rbind (vec_set (numUnpredictableResults sb) index (n - 1)) (\<lambda>xs.
                Inr (sb\<lparr>numUnpredictableResults := xs\<rparr>))
              else Inr sb)
            else Inr sb) (\<lambda>sb.
     rbind (vec_at (numResults sb) index) (\<lambda>n.
     rbind (vec_set (numResults sb) index (n - 1)) (\<lambda>res.
     let sb = sb\<lparr>numResults := res\<rparr> in
     if n - 1 = 0 then
       rbind (vec_set (returnCycle sb) index 0) (\<lambda>ret.
       rbind (vec_set (writingInst sb) index 0) (\<lambda>ws.
       rbind (vec_set (fuIndices sb) index invalidFUIndex) (\<lambda>fus.
       Inr (sb\<lparr>returnCycle := ret, writingInst := ws, fuIndices := fus\<rparr>))))
     else Inr sb)))"

definition sb_clear_dest :: "bool \<Rightarrow> dyn_inst \<Rightarrow> scoreboard \<Rightarrow> nat \<Rightarrow> scoreboard result" where
  "sb_clear_dest clear_unpredictable inst sb dest_index =
     rbind (vec_at (flatDestRegIdx inst) dest_index) (\<lambda>reg.
     case sb_findIndex (sb_lay sb) reg of
       Some index \<Rightarrow> sb_clear_reg clear_unpredictable sb (unat index)
     | None \<Rightarrow> Inr sb)"

definition sb_clearInstDests :: "scoreboard \<Rightarrow> dyn_inst \<Rightarrow> bool \<Rightarrow> scoreboard result" where
  "sb_clearInstDests sb inst clear_unpredictable =
     (if di_isFault inst then Inr sb
      else rbind (di_static inst) (\<lambda>si.
        rfold (sb_clear_dest clear_unpredictable inst) sb [0..<length (si_destRegs si)]))"

text \<open>
  One source register: may the instruction read it now? \<open>lats\<close> and \<open>cant\<close> are the two
  optional vectors; the comparison of the signed \<^verbatim>\<open>src_reg_fu\<close> with a size is reached only
  when it is not \<^verbatim>\<open>invalidFUIndex\<close>.
\<close>

definition sb_src_ready :: "scoreboard \<Rightarrow> u64 list option \<Rightarrow> bool list option \<Rightarrow> u64 \<Rightarrow> nat \<Rightarrow> nat \<Rightarrow> bool result" where
  "sb_src_ready sb lats cant now src_index index =
     (let ls = (case lats of Some l \<Rightarrow> l | None \<Rightarrow> []);
          num_relative_latencies = length ls;
          default_relative_latency = (if ls = [] then 0 else last ls) in
      rbind (vec_at (fuIndices sb) index) (\<lambda>src_reg_fu.
      let cant_forward = (src_reg_fu \<noteq> invalidFUIndex \<and>
            (case cant of Some cs \<Rightarrow> 0 \<le> src_reg_fu \<and> nat src_reg_fu < length cs \<and> cs ! nat src_reg_fu
                        | None \<Rightarrow> False));
          relative_latency = (if cant_forward then 0
            else if src_index \<ge> num_relative_latencies then default_relative_latency else ls ! src_index) in
      rbind (vec_at (returnCycle sb) index) (\<lambda>ret.
      rbind (vec_at (numUnpredictableResults sb) index) (\<lambda>unp.
      Inr (\<not> (ret > now + relative_latency \<or> unp \<noteq> 0))))))"

fun sb_srcs_ready :: "scoreboard \<Rightarrow> u64 list option \<Rightarrow> bool list option \<Rightarrow> u64 \<Rightarrow> (regid \<Rightarrow> regid) \<Rightarrow>
    nat \<Rightarrow> regid list \<Rightarrow> bool result" where
  "sb_srcs_ready sb lats cant now flat src_index [] = Inr True"
| "sb_srcs_ready sb lats cant now flat src_index (r # rs) =
     rbind (case sb_findIndex (sb_lay sb) (flat r) of
              Some index \<Rightarrow> sb_src_ready sb lats cant now src_index (unat index)
            | None \<Rightarrow> Inr True) (\<lambda>ready.
     if ready then sb_srcs_ready sb lats cant now flat (Suc src_index) rs else Inr False)"

definition sb_canInstIssue :: "scoreboard \<Rightarrow> dyn_inst \<Rightarrow> u64 list option \<Rightarrow> bool list option \<Rightarrow> u64 \<Rightarrow>
    (regid \<Rightarrow> regid) \<Rightarrow> bool result" where
  "sb_canInstIssue sb inst lats cant now flat =
     (if di_isFault inst then Inr True
      else rbind (di_static inst) (\<lambda>si. sb_srcs_ready sb lats cant now flat 0 (si_srcRegs si)))"

section \<open>Counters\<close>

definition sb_wf :: "scoreboard \<Rightarrow> bool" where
  "sb_wf sb \<longleftrightarrow> (let n = unat (sb_numRegs (sb_lay sb)) in
     length (numResults sb) = n \<and> length (numUnpredictableResults sb) = n \<and>
     length (fuIndices sb) = n \<and> length (returnCycle sb) = n \<and> length (writingInst sb) = n)"

abbreviation sb_size :: "scoreboard \<Rightarrow> nat" where
  "sb_size sb \<equiv> unat (sb_numRegs (sb_lay sb))"

text \<open>A register the scoreboard can hold: untracked, or with an index inside the vectors.\<close>

definition sb_fits :: "sb_layout \<Rightarrow> regid \<Rightarrow> bool" where
  "sb_fits lay r = (case sb_findIndex lay r of Some i \<Rightarrow> unat i < unat (sb_numRegs lay) | None \<Rightarrow> True)"

definition sb_at :: "sb_layout \<Rightarrow> nat \<Rightarrow> regid \<Rightarrow> bool" where
  "sb_at lay k r \<longleftrightarrow> map_option unat (sb_findIndex lay r) = Some k"

abbreviation sb_cnt :: "sb_layout \<Rightarrow> nat \<Rightarrow> regid list \<Rightarrow> nat" where
  "sb_cnt lay k rs \<equiv> length (filter (sb_at lay k) rs)"

lemma sb_new_wf: "sb_wf (sb_new rc)"
  by (simp add: sb_wf_def sb_new_def Let_def)

lemma sb_mark_reg_ok:
  assumes "sb_wf sb" "i < sb_size sb"
  shows "\<exists>sb'. sb_mark_reg rt u inst sb i = Inr sb' \<and> sb_wf sb' \<and> sb_lay sb' = sb_lay sb \<and>
    numResults sb' = (numResults sb)[i := numResults sb ! i + 1] \<and>
    numUnpredictableResults sb' = (if u then (numUnpredictableResults sb)[i := numUnpredictableResults sb ! i + 1]
      else numUnpredictableResults sb) \<and>
    returnCycle sb' = (returnCycle sb)[i := rt]"
  using assms by (cases u) (auto simp: sb_mark_reg_def sb_wf_def Let_def)

lemma sb_clear_reg_ok:
  assumes "sb_wf sb" "i < sb_size sb"
  shows "\<exists>sb'. sb_clear_reg u sb i = Inr sb' \<and> sb_wf sb' \<and> sb_lay sb' = sb_lay sb \<and>
    numResults sb' = (numResults sb)[i := numResults sb ! i - 1] \<and>
    numUnpredictableResults sb' = (if u \<and> numUnpredictableResults sb ! i \<noteq> 0
      then (numUnpredictableResults sb)[i := numUnpredictableResults sb ! i - 1]
      else numUnpredictableResults sb)"
  using assms by (cases u) (auto simp: sb_clear_reg_def sb_wf_def Let_def)

lemma sb_at_fits: "sb_fits lay r \<Longrightarrow> sb_at lay k r \<Longrightarrow> k < unat (sb_numRegs lay)"
  by (auto simp: sb_at_def sb_fits_def)

lemma sb_cnt_snoc: "i < length rs \<Longrightarrow>
  sb_cnt lay k (take (Suc i) rs) = sb_cnt lay k (take i rs) + (if sb_at lay k (rs ! i) then 1 else 0)"
  by (simp add: take_Suc_conv_app_nth)

text \<open>The registers an instruction records when it is marked up.\<close>

abbreviation sb_recorded :: "sb_layout \<Rightarrow> (regid \<Rightarrow> regid) \<Rightarrow> regid list \<Rightarrow> regid list" where
  "sb_recorded lay flat rs \<equiv> map (\<lambda>r. if sb_findIndex lay (flat r) = None then regid_zero else flat r) rs"

lemma regid_zero_untracked [simp]: "sb_findIndex lay regid_zero = None"
  by (simp add: regid_zero_def sb_findIndex.simps)

lemma sb_at_recorded: "sb_at lay k (if sb_findIndex lay r = None then regid_zero else r) = sb_at lay k r"
  by (simp add: sb_at_def)

definition sb_marked :: "scoreboard \<Rightarrow> u64 \<Rightarrow> bool \<Rightarrow> regid list \<Rightarrow> scoreboard \<Rightarrow> bool" where
  "sb_marked sb rt u rs sb' \<longleftrightarrow> sb_wf sb' \<and> sb_lay sb' = sb_lay sb \<and>
     (\<forall>k < sb_size sb. numResults sb' ! k = numResults sb ! k + of_nat (sb_cnt (sb_lay sb) k rs) \<and>
        numUnpredictableResults sb' ! k =
          numUnpredictableResults sb ! k + (if u then of_nat (sb_cnt (sb_lay sb) k rs) else 0) \<and>
        returnCycle sb' ! k = (if \<exists>r \<in> set rs. sb_at (sb_lay sb) k r then rt else returnCycle sb ! k))"

lemma sb_marked_step:
  assumes "sb_marked sb rt u rs sb1" "sb_fits (sb_lay sb) r"
  shows "sb_findIndex (sb_lay sb) r = None \<Longrightarrow> sb_marked sb rt u (rs @ [r]) sb1"
    and "sb_findIndex (sb_lay sb) r = Some i \<Longrightarrow>
      \<exists>sb2. sb_mark_reg rt u inst sb1 (unat i) = Inr sb2 \<and> sb_marked sb rt u (rs @ [r]) sb2"
proof -
  show "sb_marked sb rt u (rs @ [r]) sb1" if "sb_findIndex (sb_lay sb) r = None"
    using that assms(1) by (simp add: sb_marked_def sb_at_def)
  assume i: "sb_findIndex (sb_lay sb) r = Some i"
  have w: "sb_wf sb1" "sb_lay sb1 = sb_lay sb" "unat i < sb_size sb1"
    using assms i by (auto simp: sb_marked_def sb_fits_def)
  from sb_mark_reg_ok [OF w(1,3), of rt u inst] obtain sb2 where
    sb2: "sb_mark_reg rt u inst sb1 (unat i) = Inr sb2" "sb_wf sb2" "sb_lay sb2 = sb_lay sb"
    "numResults sb2 = (numResults sb1)[unat i := numResults sb1 ! unat i + 1]"
    "numUnpredictableResults sb2 = (if u then (numUnpredictableResults sb1)[unat i := numUnpredictableResults sb1 ! unat i + 1]
      else numUnpredictableResults sb1)" "returnCycle sb2 = (returnCycle sb1)[unat i := rt]"
    using w(2) by auto
  have "length (numResults sb1) = sb_size sb" "length (numUnpredictableResults sb1) = sb_size sb"
    "length (returnCycle sb1) = sb_size sb"
    using w by (simp_all add: sb_wf_def Let_def)
  moreover have "sb_at (sb_lay sb) k r \<longleftrightarrow> k = unat i" for k using i by (auto simp: sb_at_def)
  ultimately have "sb_marked sb rt u (rs @ [r]) sb2"
    using assms(1) sb2 by (auto simp: sb_marked_def nth_list_update)
  with sb2 show "\<exists>sb2. sb_mark_reg rt u inst sb1 (unat i) = Inr sb2 \<and> sb_marked sb rt u (rs @ [r]) sb2" by blast
qed

lemma sb_markup_ok:
  assumes "sb_wf sb" "\<not> di_isFault inst" "staticInst inst = Some si"
    and "length (flatDestRegIdx inst) = length (si_destRegs si)"
    and "\<forall>r \<in> set (si_destRegs si). sb_fits (sb_lay sb) (flat r)"
  shows "\<exists>sb' inst'. sb_markupInstDests sb inst rt flat u = Inr (sb', inst') \<and>
    sb_marked sb rt u (map flat (si_destRegs si)) sb' \<and>
    inst' = inst\<lparr>flatDestRegIdx := sb_recorded (sb_lay sb) flat (si_destRegs si)\<rparr>"
proof -
  let ?ds = "si_destRegs si"
  let ?P = "\<lambda>k (sb', inst'). sb_marked sb rt u (map flat (take k ?ds)) sb' \<and>
    inst' = inst\<lparr>flatDestRegIdx := sb_recorded (sb_lay sb) flat (take k ?ds) @ drop k (flatDestRegIdx inst)\<rparr>"
  have "\<exists>s. rfold (sb_mark_dest rt flat u si) (sb, inst) [0..<length ?ds] = Inr s \<and> ?P (length [0..<length ?ds]) s"
  proof (rule rfold_invariant)
    show "?P 0 (sb, inst)" using assms(1) by (simp add: sb_marked_def)
    fix k s assume k: "k < length [0..<length ?ds]" and P: "?P k s"
    obtain sb1 inst1 where s: "s = (sb1, inst1)" by (cases s)
    have m: "sb_marked sb rt u (map flat (take k ?ds)) sb1" and lay: "sb_lay sb1 = sb_lay sb"
      using P by (simp_all add: s sb_marked_def)
    have fits: "sb_fits (sb_lay sb) (flat (?ds ! k))" using k assms(5) by simp
    let ?x = "if sb_findIndex (sb_lay sb) (flat (?ds ! k)) = None then regid_zero else flat (?ds ! k)"
    have fl: "vec_set (flatDestRegIdx inst1) k ?x =
        Inr (sb_recorded (sb_lay sb) flat (take (Suc k) ?ds) @ drop (Suc k) (flatDestRegIdx inst))"
      using P k assms(4)
      by (simp add: s list_update_append take_Suc_conv_app_nth Cons_nth_drop_Suc [symmetric])
    have tk: "map flat (take (Suc k) ?ds) = map flat (take k ?ds) @ [flat (?ds ! k)]"
      using k by (simp add: take_Suc_conv_app_nth)
    show "\<exists>s'. sb_mark_dest rt flat u si s ([0..<length ?ds] ! k) = Inr s' \<and> ?P (Suc k) s'"
    proof (cases "sb_findIndex (sb_lay sb) (flat (?ds ! k))")
      case None
      with sb_marked_step(1) [OF m fits] k P fl show ?thesis
        by (simp add: sb_mark_dest_def s lay tk Let_def)
    next
      case (Some i)
      with sb_marked_step(2) [OF m fits Some, of inst1] k P fl show ?thesis
        by (auto simp: sb_mark_dest_def s lay tk Let_def)
    qed
  qed
  with assms(2-4) show ?thesis
    by (fastforce simp: sb_markupInstDests_def di_static_def)
qed

lemma sb_clear_ok:
  assumes "sb_wf sb" "\<not> di_isFault inst" "staticInst inst = Some si"
    and "length (flatDestRegIdx inst) = length (si_destRegs si)"
    and fits: "\<forall>r \<in> set (flatDestRegIdx inst). sb_fits (sb_lay sb) r"
    and enough: "u \<Longrightarrow> \<forall>k < sb_size sb. sb_cnt (sb_lay sb) k (flatDestRegIdx inst) \<le> unat (numUnpredictableResults sb ! k)"
  shows "\<exists>sb'. sb_clearInstDests sb inst u = Inr sb' \<and> sb_wf sb' \<and> sb_lay sb' = sb_lay sb \<and>
    (\<forall>k < sb_size sb. numResults sb' ! k = numResults sb ! k - of_nat (sb_cnt (sb_lay sb) k (flatDestRegIdx inst)) \<and>
      unat (numUnpredictableResults sb' ! k) = unat (numUnpredictableResults sb ! k) -
        (if u then sb_cnt (sb_lay sb) k (flatDestRegIdx inst) else 0))"
proof -
  let ?rs = "flatDestRegIdx inst" and ?lay = "sb_lay sb"
  let ?P = "\<lambda>i sb'. sb_wf sb' \<and> sb_lay sb' = ?lay \<and>
    (\<forall>k < sb_size sb. numResults sb' ! k = numResults sb ! k - of_nat (sb_cnt ?lay k (take i ?rs)) \<and>
      unat (numUnpredictableResults sb' ! k) = unat (numUnpredictableResults sb ! k) -
        (if u then sb_cnt ?lay k (take i ?rs) else 0))"
  have "\<exists>sb'. rfold (sb_clear_dest u inst) sb [0..<length ?rs] = Inr sb' \<and> ?P (length [0..<length ?rs]) sb'"
  proof (rule rfold_invariant)
    show "?P 0 sb" using assms(1) by simp
    fix i sb1 assume i: "i < length [0..<length ?rs]" and P: "?P i sb1"
    note snoc = sb_cnt_snoc [of i ?rs ?lay]
    show "\<exists>sb'. sb_clear_dest u inst sb1 ([0..<length ?rs] ! i) = Inr sb' \<and> ?P (Suc i) sb'"
    proof (cases "sb_findIndex ?lay (?rs ! i)")
      case None
      then have "\<not> sb_at ?lay k (?rs ! i)" for k by (simp add: sb_at_def)
      with None i P snoc show ?thesis by (simp add: sb_clear_dest_def)
    next
      case (Some j)
      then have at: "sb_at ?lay k (?rs ! i) \<longleftrightarrow> k = unat j" for k by (auto simp: sb_at_def)
      have w: "sb_wf sb1" "sb_lay sb1 = ?lay" "unat j < sb_size sb1"
        using P Some i fits by (auto simp: sb_fits_def dest: bspec [OF _ nth_mem])
      from sb_clear_reg_ok [OF w(1,3), of u] obtain sb2 where
        sb2: "sb_clear_reg u sb1 (unat j) = Inr sb2" "sb_wf sb2" "sb_lay sb2 = ?lay"
        "numResults sb2 = (numResults sb1)[unat j := numResults sb1 ! unat j - 1]"
        "numUnpredictableResults sb2 = (if u \<and> numUnpredictableResults sb1 ! unat j \<noteq> 0
          then (numUnpredictableResults sb1)[unat j := numUnpredictableResults sb1 ! unat j - 1]
          else numUnpredictableResults sb1)" using w(2) by auto
      have len: "length (numResults sb1) = sb_size sb" "length (numUnpredictableResults sb1) = sb_size sb"
        using w by (simp_all add: sb_wf_def Let_def)
      have pos: "u \<Longrightarrow> sb_cnt ?lay (unat j) (take i ?rs) < unat (numUnpredictableResults sb ! unat j)"
      proof -
        assume u: u
        have "sb_cnt ?lay (unat j) (take (Suc i) ?rs) \<le> sb_cnt ?lay (unat j) ?rs"
          by (metis append_take_drop_id filter_append le_add1 length_append)
        also have "\<dots> \<le> unat (numUnpredictableResults sb ! unat j)" using enough [OF u] w by simp
        finally show ?thesis using snoc [of "unat j"] i at by simp
      qed
      then have nz: "u \<Longrightarrow> unat (numUnpredictableResults sb1 ! unat j) \<noteq> 0"
        using P w by simp
      have dec: "u \<Longrightarrow> unat (numUnpredictableResults sb1 ! unat j - 1) = unat (numUnpredictableResults sb1 ! unat j) - 1"
        using nz by (subst unat_minus_one) auto
      have "?P (Suc i) sb2"
        using P i w sb2 len snoc at nz dec by (auto simp: nth_list_update algebra_simps)
      with sb2(1) Some i P show ?thesis by (simp add: sb_clear_dest_def)
    qed
  qed
  with assms(2-4) show ?thesis by (cases u) (simp_all add: sb_clearInstDests_def di_static_def)
qed

lemma sb_marked_unpredictable:
  assumes "sb_marked sb rt u rs sb1" "k < sb_size sb"
    and "unat (numUnpredictableResults sb ! k) + length rs < 2 ^ 16"
  shows "unat (numUnpredictableResults sb1 ! k) =
    unat (numUnpredictableResults sb ! k) + (if u then sb_cnt (sb_lay sb) k rs else 0)"
proof -
  have "sb_cnt (sb_lay sb) k rs \<le> length rs" by (rule length_filter_le)
  with assms(3) have "unat (numUnpredictableResults sb ! k) + sb_cnt (sb_lay sb) k rs < 2 ^ 16"
    by linarith
  then have "unat (numUnpredictableResults sb ! k) + sb_cnt (sb_lay sb) k rs < 2 ^ LENGTH(16)" by simp
  from unat_add_of_nat [OF this] assms(1,2) show ?thesis by (cases u) (simp_all add: sb_marked_def)
qed

section \<open>Properties\<close>

text \<open>
  C25: Marking up and clearing an instruction balance. For an instruction whose destination
  registers the scoreboard can hold, and with room in the 16-bit counters, markup followed by clear
  succeeds and leaves every register's count of results and of unpredictable results as it was.
\<close>

theorem scoreboard_mark_clear:
  assumes "sb_wf sb" "\<not> di_isFault inst" "staticInst inst = Some si"
    and "length (flatDestRegIdx inst) = length (si_destRegs si)"
    and "\<forall>r \<in> set (si_destRegs si). sb_fits (sb_lay sb) (flat r)"
    and room: "\<forall>k < sb_size sb. unat (numUnpredictableResults sb ! k) + length (si_destRegs si) < 2 ^ 16"
  shows "\<exists>sb1 inst1 sb2. sb_markupInstDests sb inst rt flat u = Inr (sb1, inst1) \<and>
    sb_clearInstDests sb1 inst1 u = Inr sb2 \<and> numResults sb2 = numResults sb \<and>
    numUnpredictableResults sb2 = numUnpredictableResults sb"
proof -
  let ?lay = "sb_lay sb" and ?rs = "map flat (si_destRegs si)"
  let ?rec = "sb_recorded ?lay flat (si_destRegs si)"
  from sb_markup_ok [OF assms(1-5), of rt u] obtain sb1 inst1 where
    m: "sb_markupInstDests sb inst rt flat u = Inr (sb1, inst1)" "sb_marked sb rt u ?rs sb1"
    "inst1 = inst\<lparr>flatDestRegIdx := ?rec\<rparr>" by blast
  have w: "sb_wf sb1" "sb_lay sb1 = ?lay" using m(2) by (simp_all add: sb_marked_def)
  have cnt: "sb_cnt ?lay k ?rec = sb_cnt ?lay k ?rs" for k
    by (simp add: filter_map comp_def sb_at_recorded)
  have un: "unat (numUnpredictableResults sb1 ! k) =
      unat (numUnpredictableResults sb ! k) + (if u then sb_cnt ?lay k ?rs else 0)" if "k < sb_size sb" for k
    using sb_marked_unpredictable [OF m(2) that] room that by simp
  have "\<exists>sb2. sb_clearInstDests sb1 inst1 u = Inr sb2 \<and> sb_wf sb2 \<and> sb_lay sb2 = sb_lay sb1 \<and>
    (\<forall>k < sb_size sb1. numResults sb2 ! k = numResults sb1 ! k - of_nat (sb_cnt (sb_lay sb1) k (flatDestRegIdx inst1)) \<and>
      unat (numUnpredictableResults sb2 ! k) = unat (numUnpredictableResults sb1 ! k) -
        (if u then sb_cnt (sb_lay sb1) k (flatDestRegIdx inst1) else 0))"
  proof (rule sb_clear_ok [OF w(1)])
    show "\<not> di_isFault inst1" "staticInst inst1 = Some si" using assms(2,3) m(3) by (simp_all add: di_isFault_def)
    show "length (flatDestRegIdx inst1) = length (si_destRegs si)" by (simp add: m(3))
    show "\<forall>r \<in> set (flatDestRegIdx inst1). sb_fits (sb_lay sb1) r"
      using assms(5) by (auto simp: m(3) w(2) sb_fits_def)
    show "\<forall>k < sb_size sb1. sb_cnt (sb_lay sb1) k (flatDestRegIdx inst1) \<le> unat (numUnpredictableResults sb1 ! k)"
      if u using that un cnt by (simp add: w(2) m(3))
  qed
  then obtain sb2 where sb2: "sb_clearInstDests sb1 inst1 u = Inr sb2" "sb_wf sb2" "sb_lay sb2 = ?lay"
    "\<And>k. k < sb_size sb \<Longrightarrow> numResults sb2 ! k = numResults sb1 ! k - of_nat (sb_cnt ?lay k ?rs)"
    "\<And>k. k < sb_size sb \<Longrightarrow> unat (numUnpredictableResults sb2 ! k) =
      unat (numUnpredictableResults sb1 ! k) - (if u then sb_cnt ?lay k ?rs else 0)"
    using w(2) cnt m(3) by auto
  have "numResults sb2 = numResults sb"
    using sb2 m(2) assms(1) by (intro nth_equalityI) (auto simp: sb_wf_def sb_marked_def Let_def)
  moreover have "numUnpredictableResults sb2 = numUnpredictableResults sb"
    using sb2 un assms(1) by (intro nth_equalityI) (auto simp: sb_wf_def Let_def word_unat_eq_iff)
  ultimately show ?thesis using m(1) sb2(1) by blast
qed

text \<open>An instruction that writes integer register 1 and a scoreboard of four integer registers.\<close>

definition sb_ex_rc :: "regclass \<Rightarrow> u32" where
  "sb_ex_rc c = (if c = IntRegClass then 4 else 0)"

definition sb_ex_si :: static_inst where
  "sb_ex_si = StaticInst [IsInteger] 1 [\<lparr>regClass = IntRegClass, regIdx = 1\<rparr>]
     [\<lparr>regClass = IntRegClass, regIdx = 1\<rparr>] []"

definition sb_ex_inst :: dyn_inst where
  "sb_ex_inst = dyn_inst_new (Some sb_ex_si) (inst_id_zero\<lparr>fetchSeqNum := 1, execSeqNum := 1\<rparr>) NoFault"

lemma sb_ex_simps:
  "\<not> di_isFault sb_ex_inst" "staticInst sb_ex_inst = Some sb_ex_si"
  "length (flatDestRegIdx sb_ex_inst) = length (si_destRegs sb_ex_si)"
  "\<forall>r \<in> set (si_destRegs sb_ex_si). sb_fits (sb_lay (sb_new sb_ex_rc)) r"
  "\<forall>r \<in> set (si_srcRegs sb_ex_si). sb_fits (sb_lay (sb_new sb_ex_rc)) r"
  "sb_size (sb_new sb_ex_rc) = 4" "numUnpredictableResults (sb_new sb_ex_rc) = replicate 4 0"
  by (simp_all add: sb_ex_inst_def dyn_inst_new_def di_isFault_def sb_ex_si_def sb_fits_def sb_new_def
      sb_new_layout_def sb_ex_rc_def Let_def sb_findIndex.simps)

theorem scoreboard_mark_clear_witness:
  "\<exists>sb1 inst1 sb2. sb_markupInstDests (sb_new sb_ex_rc) sb_ex_inst 9 (\<lambda>r. r) True = Inr (sb1, inst1) \<and>
    sb_clearInstDests sb1 inst1 True = Inr sb2 \<and> numResults sb2 = numResults (sb_new sb_ex_rc)"
  using scoreboard_mark_clear [OF sb_new_wf sb_ex_simps(1-3), of sb_ex_rc "\<lambda>r. r" 9 True]
  by (simp add: sb_ex_simps sb_ex_si_def) blast

lemma sb_src_ready_eq:
  assumes "sb_wf sb" "k < sb_size sb"
  shows "\<exists>lat \<in> insert 0 (set (case lats of Some l \<Rightarrow> l | None \<Rightarrow> [])).
    sb_src_ready sb lats cant now j k =
      Inr (\<not> (returnCycle sb ! k > now + lat \<or> numUnpredictableResults sb ! k \<noteq> 0))"
proof -
  let ?ls = "case lats of Some l \<Rightarrow> l | None \<Rightarrow> []"
  define cf where "cf = (fuIndices sb ! k \<noteq> invalidFUIndex \<and> (case cant of Some cs \<Rightarrow>
    0 \<le> fuIndices sb ! k \<and> nat (fuIndices sb ! k) < length cs \<and> cs ! nat (fuIndices sb ! k) | None \<Rightarrow> False))"
  define lat where "lat = (if cf then 0 else if j \<ge> length ?ls then (if ?ls = [] then 0 else last ?ls) else ?ls ! j)"
  have "lat \<in> insert 0 (set ?ls)" by (cases lats) (auto simp: lat_def)
  moreover have "sb_src_ready sb lats cant now j k =
      Inr (\<not> (returnCycle sb ! k > now + lat \<or> numUnpredictableResults sb ! k \<noteq> 0))"
    using assms by (simp add: sb_src_ready_def sb_wf_def Let_def cf_def lat_def)
  ultimately show ?thesis by blast
qed

lemma sb_srcs_blocked:
  assumes "sb_wf sb" "\<forall>r \<in> set rs. sb_fits (sb_lay sb) (flat r)"
    and "r \<in> set rs" "sb_at (sb_lay sb) k (flat r)" "k < sb_size sb"
    and blocked: "\<forall>lat \<in> insert 0 (set (case lats of Some l \<Rightarrow> l | None \<Rightarrow> [])).
      returnCycle sb ! k > now + lat \<or> numUnpredictableResults sb ! k \<noteq> 0"
  shows "sb_srcs_ready sb lats cant now flat j rs = Inr False"
  using assms(2,3)
proof (induction rs arbitrary: j)
  case (Cons x rs)
  show ?case
  proof (cases "sb_findIndex (sb_lay sb) (flat x)")
    case None
    with assms(4) Cons show ?thesis by (auto simp: sb_at_def)
  next
    case (Some i)
    then have "unat i < sb_size sb" using Cons.prems by (simp add: sb_fits_def)
    from sb_src_ready_eq [OF assms(1) this, of lats cant now j] obtain b where
      b: "sb_src_ready sb lats cant now j (unat i) = Inr b" by blast
    have "b = False" if "x = r"
    proof -
      have "unat i = k" using that Some assms(4) by (simp add: sb_at_def)
      with sb_src_ready_eq [OF assms(1,5), of lats cant now j] blocked b show ?thesis by fastforce
    qed
    with Cons Some b show ?thesis by auto
  qed
qed simp

text \<open>
  C5: Read-after-write hazards stall issue. After an instruction's destinations are marked up
  with an unpredictable time, or with a return cycle that no relative latency of the reader makes
  up for, an instruction that reads one of them cannot issue.
\<close>

theorem scoreboard_raw_stall:
  assumes "sb_wf sb" "\<not> di_isFault w" "staticInst w = Some sw"
    and "length (flatDestRegIdx w) = length (si_destRegs sw)"
    and "\<forall>r \<in> set (si_destRegs sw). sb_fits (sb_lay sb) (flat r)"
    and "\<forall>k < sb_size sb. unat (numUnpredictableResults sb ! k) + length (si_destRegs sw) < 2 ^ 16"
    and "\<not> di_isFault i" "staticInst i = Some si" "\<forall>r \<in> set (si_srcRegs si). sb_fits (sb_lay sb) (flat r)"
    and "d \<in> set (si_destRegs sw)" "s \<in> set (si_srcRegs si)"
    and "sb_findIndex (sb_lay sb) (flat d) = Some k" "sb_findIndex (sb_lay sb) (flat s) = Some k"
    and "u \<or> (\<forall>lat \<in> insert 0 (set (case lats of Some l \<Rightarrow> l | None \<Rightarrow> [])). rt > now + lat)"
  shows "\<exists>sb' w'. sb_markupInstDests sb w rt flat u = Inr (sb', w') \<and>
    sb_canInstIssue sb' i lats cant now flat = Inr False"
proof -
  let ?lay = "sb_lay sb" and ?rs = "map flat (si_destRegs sw)"
  from sb_markup_ok [OF assms(1-5), of rt u] obtain sb' w' where
    m: "sb_markupInstDests sb w rt flat u = Inr (sb', w')" "sb_marked sb rt u ?rs sb'" by blast
  have wf: "sb_wf sb'" "sb_lay sb' = ?lay" using m(2) by (simp_all add: sb_marked_def)
  have k: "unat k < sb_size sb" using assms(9,11,13) by (auto simp: sb_fits_def dest: bspec)
  have at: "sb_at ?lay (unat k) (flat d)" "sb_at ?lay (unat k) (flat s)"
    using assms(12,13) by (simp_all add: sb_at_def)
  have ret: "returnCycle sb' ! unat k = rt" using m(2) k at(1) assms(10) by (auto simp: sb_marked_def)
  have "numUnpredictableResults sb' ! unat k \<noteq> 0" if u
  proof -
    have "0 < sb_cnt ?lay (unat k) ?rs" using at(1) assms(10) by (auto simp: filter_empty_conv)
    with sb_marked_unpredictable [OF m(2) k] assms(6) k that
    have "unat (numUnpredictableResults sb' ! unat k) \<noteq> 0" by simp
    then show ?thesis by auto
  qed
  with assms(14) ret have "\<forall>lat \<in> insert 0 (set (case lats of Some l \<Rightarrow> l | None \<Rightarrow> [])).
      returnCycle sb' ! unat k > now + lat \<or> numUnpredictableResults sb' ! unat k \<noteq> 0" by auto
  with sb_srcs_blocked [OF wf(1) _ assms(11), of flat "unat k" lats now cant 0] assms(7-9) at(2) k wf(2) m(1)
  show ?thesis by (auto simp: sb_canInstIssue_def di_static_def)
qed

theorem scoreboard_raw_stall_witness:
  "\<exists>sb' w'. sb_markupInstDests (sb_new sb_ex_rc) sb_ex_inst 9 (\<lambda>r. r) True = Inr (sb', w') \<and>
    sb_canInstIssue sb' sb_ex_inst None None 3 (\<lambda>r. r) = Inr False"
proof -
  let ?r = "\<lparr>regClass = IntRegClass, regIdx = 1\<rparr>"
  have "?r \<in> set (si_destRegs sb_ex_si)" "?r \<in> set (si_srcRegs sb_ex_si)"
    "sb_findIndex (sb_lay (sb_new sb_ex_rc)) ?r = Some 1" by (simp_all add: sb_ex_si_def sb_findIndex.simps)
  with scoreboard_raw_stall [OF sb_new_wf sb_ex_simps(1-3), of sb_ex_rc "\<lambda>r. r" sb_ex_inst sb_ex_si ?r ?r 1 True]
  show ?thesis by (auto simp: sb_ex_simps) (simp_all add: sb_ex_si_def)
qed

lemma sb_wait_loop:
  assumes "sb_wf sb" "\<forall>r \<in> set rs. sb_fits (sb_lay sb) (flat r)"
  shows "\<exists>m. rfold (\<lambda>ret r. case sb_findIndex (sb_lay sb) (flat r) of
      Some index \<Rightarrow> rbind (vec_at (writingInst sb) (unat index)) (\<lambda>w. Inr (if w > ret then w else ret))
    | None \<Rightarrow> Inr ret) m0 rs = Inr m \<and> m0 \<le> m \<and>
    (\<forall>r \<in> set rs. \<forall>k. sb_findIndex (sb_lay sb) (flat r) = Some k \<longrightarrow> writingInst sb ! unat k \<le> m) \<and>
    (m = m0 \<or> (\<exists>r \<in> set rs. \<exists>k. sb_findIndex (sb_lay sb) (flat r) = Some k \<and> m = writingInst sb ! unat k))"
  using assms(2)
proof (induction rs arbitrary: m0)
  case (Cons x rs)
  then have ih: "\<forall>r \<in> set rs. sb_fits (sb_lay sb) (flat r)" by simp
  show ?case
  proof (cases "sb_findIndex (sb_lay sb) (flat x)")
    case None
    with Cons.IH [OF ih, of m0] show ?thesis by auto
  next
    case (Some i)
    then have "unat i < length (writingInst sb)"
      using Cons.prems assms(1) by (simp add: sb_fits_def sb_wf_def Let_def)
    with Some Cons.IH [OF ih, of "if writingInst sb ! unat i > m0 then writingInst sb ! unat i else m0"]
    show ?thesis by (auto split: if_splits) fastforce+
  qed
qed simp

text \<open>
  The instruction to wait for. \<^verbatim>\<open>execSeqNumToWaitFor\<close> returns the largest execute
  sequence number recorded against any tracked source register, and 0 when there is none.
\<close>

lemma scoreboard_wait_for_latest:
  assumes "sb_wf sb" "\<not> di_isFault i" "staticInst i = Some si"
    and "\<forall>r \<in> set (si_srcRegs si). sb_fits (sb_lay sb) (flat r)"
  shows "sb_execSeqNumToWaitFor sb i flat = Inr (Max (insert 0
    {writingInst sb ! unat k | k. \<exists>r \<in> set (si_srcRegs si). sb_findIndex (sb_lay sb) (flat r) = Some k}))"
proof -
  let ?S = "{writingInst sb ! unat k | k. \<exists>r \<in> set (si_srcRegs si). sb_findIndex (sb_lay sb) (flat r) = Some k}"
  from sb_wait_loop [OF assms(1,4), of 0] obtain m where
    m: "sb_execSeqNumToWaitFor sb i flat = Inr m" "\<forall>x \<in> ?S. x \<le> m" "m = 0 \<or> m \<in> ?S"
    using assms(2,3) by (fastforce simp: sb_execSeqNumToWaitFor_def di_static_def)
  have "?S \<subseteq> (\<lambda>r. writingInst sb ! unat (the (sb_findIndex (sb_lay sb) (flat r)))) ` set (si_srcRegs si)"
    by force
  then have "finite (insert 0 ?S)" by (simp add: finite_subset)
  then have "Max (insert 0 ?S) = m" using m(2,3) by (intro Max_eqI) auto
  with m(1) show ?thesis by simp
qed

lemma scoreboard_wait_for_latest_witness:
  "sb_execSeqNumToWaitFor (sb_new sb_ex_rc) sb_ex_inst (\<lambda>r. r) = Inr (Max (insert 0
    {writingInst (sb_new sb_ex_rc) ! unat k | k.
      \<exists>r \<in> set (si_srcRegs sb_ex_si). sb_findIndex (sb_lay (sb_new sb_ex_rc)) r = Some k}))"
  using scoreboard_wait_for_latest [OF sb_new_wf sb_ex_simps(1,2), of sb_ex_rc "\<lambda>r. r"]
  by (simp add: sb_ex_simps)

section \<open>Layout\<close>

text \<open>The first index of each tracked class: integer, float, condition code, vector, predicate.\<close>

definition sb_first :: "(regclass \<Rightarrow> u32) \<Rightarrow> regclass \<Rightarrow> nat" where
  "sb_first rc c = (case c of IntRegClass \<Rightarrow> 0
     | FloatRegClass \<Rightarrow> unat (rc IntRegClass)
     | CCRegClass \<Rightarrow> unat (rc IntRegClass) + unat (rc FloatRegClass)
     | VecPredRegClass \<Rightarrow> unat (rc IntRegClass) + unat (rc FloatRegClass) + unat (rc CCRegClass) +
         unat (rc VecElemClass)
     | _ \<Rightarrow> unat (rc IntRegClass) + unat (rc FloatRegClass) + unat (rc CCRegClass))"

definition sb_total :: "(regclass \<Rightarrow> u32) \<Rightarrow> nat" where
  "sb_total rc = unat (rc IntRegClass) + unat (rc FloatRegClass) + unat (rc CCRegClass) +
     unat (rc VecElemClass) + unat (rc VecPredRegClass)"

lemma sb_layout_eq:
  assumes "sb_total rc < 2 ^ 16"
  shows "unat (floatRegOffset (sb_new_layout rc)) = sb_first rc FloatRegClass"
    "unat (ccRegOffset (sb_new_layout rc)) = sb_first rc CCRegClass"
    "unat (vecRegOffset (sb_new_layout rc)) = sb_first rc VecElemClass"
    "unat (vecPredRegOffset (sb_new_layout rc)) = sb_first rc VecPredRegClass"
    "unat (sb_numRegs (sb_new_layout rc)) = sb_total rc"
  using assms by (simp_all add: sb_new_layout_def Let_def sb_first_def sb_total_def unat_add_small)

lemma unat_index_u16:
  assumes "unat (off :: u32) + unat (i :: u16) < 2 ^ 16"
  shows "unat (ucast (off + ucast i) :: u16) = unat off + unat i"
proof -
  have "unat i < 2 ^ 32" using assms by simp
  then have "unat (ucast i :: u32) = unat i" by (simp add: unsigned_ucast_eq take_bit_nat_eq_self)
  then have "unat (off + ucast i) = unat off + unat i" using assms by (subst unat_add_small) simp_all
  with assms show ?thesis by (simp add: unsigned_ucast_eq take_bit_nat_eq_self)
qed

definition sb_reg_ok :: "(regclass \<Rightarrow> u32) \<Rightarrow> regid \<Rightarrow> bool" where
  "sb_reg_ok rc r \<longleftrightarrow> regClass r \<in> {IntRegClass, FloatRegClass, CCRegClass, VecElemClass, VecPredRegClass} \<and>
     unat (regIdx r) < unat (rc (regClass r))"

lemma sb_findIndex_layout:
  assumes "sb_total rc < 2 ^ 16" "sb_reg_ok rc r"
  shows "\<exists>i. sb_findIndex (sb_new_layout rc) r = Some i \<and>
    unat i = sb_first rc (regClass r) + unat (regIdx r) \<and> unat i < sb_total rc"
proof -
  have "sb_first rc (regClass r) + unat (regIdx r) < sb_total rc"
    using assms(2) by (auto simp: sb_reg_ok_def sb_first_def sb_total_def)
  then show ?thesis
    using assms sb_layout_eq [OF assms(1)]
    by (auto simp: sb_reg_ok_def sb_findIndex.simps unat_index_u16 sb_first_def)
qed



end
