(* ===== verification/TimeBuf.thy ===== *)
theory TimeBuf
  imports Prelude
begin

text \<open>
  \<^verbatim>\<open>cpu/timebuf.hh\<close>: the circular buffer of \<open>past + future + 1\<close> slots that carries
  data between pipeline stages. Slot 0 is the current cycle, negative indices are past and
  positive ones future cycles. The placement-new of a default \<^verbatim>\<open>T\<close> over zeroed memory is
  the argument \<open>dflt\<close>. \<open>tb_abs\<close> reads the buffer as a function of relative time; advancing is
  then a shift of that function. The locale \<open>shift_register\<close> states this contract for the
  latches and pipelines built on the buffer. Sizes are small constants of the configuration, so
  \<^verbatim>\<open>int\<close> and \<^verbatim>\<open>unsigned\<close> arithmetic on them is exact.
\<close>

record 'a timebuf =
  tb_past :: int
  tb_future :: int
  tb_size :: int
  tb_index :: "'a list"
  tb_base :: int
  tb_id :: int

definition tb_new :: "'a \<Rightarrow> int \<Rightarrow> int \<Rightarrow> 'a timebuf result" where
  "tb_new dflt p f =
     rbind (rassert (0 \<le> p \<and> 0 \<le> f)) (\<lambda>_.
     Inr \<lparr>tb_past = p, tb_future = f, tb_size = p + f + 1,
          tb_index = replicate (nat (p + f + 1)) dflt, tb_base = 0, tb_id = -1\<rparr>)"

definition tb_valid :: "'a timebuf \<Rightarrow> int \<Rightarrow> unit result" where
  "tb_valid b idx = rassert (- tb_past b \<le> idx \<and> idx \<le> tb_future b)"

definition tb_advance :: "'a \<Rightarrow> 'a timebuf \<Rightarrow> 'a timebuf result" where
  "tb_advance dflt b =
     (let base = (if tb_base b + 1 \<ge> tb_size b then 0 else tb_base b + 1);
          ptr = base + tb_future b;
          ptr = (if ptr \<ge> tb_size b then ptr - tb_size b else ptr) in
      rbind (vec_set (tb_index b) (nat ptr) dflt) (\<lambda>idx.
      Inr (b\<lparr>tb_base := base, tb_index := idx\<rparr>)))"

definition tb_vectorIndex :: "'a timebuf \<Rightarrow> int \<Rightarrow> int result" where
  "tb_vectorIndex b idx =
     rbind (tb_valid b idx) (\<lambda>_.
     let v = idx + tb_base b in
     Inr (if v \<ge> tb_size b then v - tb_size b else if v < 0 then v + tb_size b else v))"

definition tb_access :: "'a timebuf \<Rightarrow> int \<Rightarrow> 'a result" where
  "tb_access b idx = rbind (tb_vectorIndex b idx) (\<lambda>v. vec_at (tb_index b) (nat v))"

text \<open>Assignment through the reference \<^verbatim>\<open>operator[]\<close> returns.\<close>

definition tb_assign :: "'a timebuf \<Rightarrow> int \<Rightarrow> 'a \<Rightarrow> 'a timebuf result" where
  "tb_assign b idx x =
     rbind (tb_vectorIndex b idx) (\<lambda>v.
     rbind (vec_set (tb_index b) (nat v) x) (\<lambda>xs. Inr (b\<lparr>tb_index := xs\<rparr>)))"

text \<open>A wire is a checked index into its buffer; it is moved by \<^verbatim>\<open>set\<close>.\<close>

type_synonym wire = int

definition tb_getWire :: "'a timebuf \<Rightarrow> int \<Rightarrow> wire result" where
  "tb_getWire b idx = rbind (tb_valid b idx) (\<lambda>_. Inr idx)"

definition wire_set :: "'a timebuf \<Rightarrow> wire \<Rightarrow> int \<Rightarrow> wire result" where
  "wire_set b w idx = rbind (tb_valid b idx) (\<lambda>_. Inr idx)"

definition wire_plus :: "'a timebuf \<Rightarrow> wire \<Rightarrow> int \<Rightarrow> wire result" where
  "wire_plus b w offset = wire_set b w (w + offset)"

definition wire_minus :: "'a timebuf \<Rightarrow> wire \<Rightarrow> int \<Rightarrow> wire result" where
  "wire_minus b w offset = wire_set b w (w - offset)"

definition wire_deref :: "'a timebuf \<Rightarrow> wire \<Rightarrow> 'a result" where
  "wire_deref b w = tb_access b w"

definition wire_assign :: "'a timebuf \<Rightarrow> wire \<Rightarrow> 'a \<Rightarrow> 'a timebuf result" where
  "wire_assign b w x = tb_assign b w x"

section \<open>The buffer as a function of relative time\<close>

definition tb_wf :: "'a timebuf \<Rightarrow> bool" where
  "tb_wf b \<longleftrightarrow> 0 \<le> tb_past b \<and> 0 \<le> tb_future b \<and> tb_size b = tb_past b + tb_future b + 1 \<and>
     int (length (tb_index b)) = tb_size b \<and> 0 \<le> tb_base b \<and> tb_base b < tb_size b"

definition tb_in :: "'a timebuf \<Rightarrow> int \<Rightarrow> bool" where
  "tb_in b i \<longleftrightarrow> - tb_past b \<le> i \<and> i \<le> tb_future b"

definition tb_pos :: "'a timebuf \<Rightarrow> int \<Rightarrow> nat" where
  "tb_pos b i = nat ((i + tb_base b) mod tb_size b)"

definition tb_abs :: "'a timebuf \<Rightarrow> int \<Rightarrow> 'a" where
  "tb_abs b i = tb_index b ! tb_pos b i"

lemma mod_add_once:
  assumes "0 \<le> x" "x < n" "- n \<le> i" "i < (n :: int)"
  shows "(i + x) mod n = (if i + x \<ge> n then i + x - n else if i + x < 0 then i + x + n else i + x)"
proof -
  consider "i + x \<ge> n" | "i + x < 0" | "0 \<le> i + x" "i + x < n" by linarith
  then show ?thesis
  proof cases
    case 1
    have "(i + x) mod n = (i + x - n) mod n" by simp
    also have "\<dots> = i + x - n" by (rule mod_pos_pos_trivial) (use 1 assms in linarith)+
    finally show ?thesis using 1 by simp
  next
    case 2
    have "(i + x) mod n = (i + x + n) mod n" by simp
    also have "\<dots> = i + x + n" by (rule mod_pos_pos_trivial) (use 2 assms in linarith)+
    finally show ?thesis using 2 assms by simp
  next
    case 3
    then have "(i + x) mod n = i + x" by (intro mod_pos_pos_trivial)
    with 3 show ?thesis by simp
  qed
qed

lemma tb_pos_less: "tb_wf b \<Longrightarrow> tb_pos b i < length (tb_index b)"
  using pos_mod_bound [of "tb_size b" "i + tb_base b"] pos_mod_sign [of "tb_size b" "i + tb_base b"]
  by (simp add: tb_pos_def tb_wf_def nat_less_iff)

lemma tb_vectorIndex_eq:
  assumes "tb_wf b"
  shows "tb_vectorIndex b i = (if tb_in b i then Inr (int (tb_pos b i)) else Inl AssertFailed)"
proof (cases "tb_in b i")
  case True
  with assms have "(i + tb_base b) mod tb_size b =
      (if i + tb_base b \<ge> tb_size b then i + tb_base b - tb_size b
       else if i + tb_base b < 0 then i + tb_base b + tb_size b else i + tb_base b)"
    by (intro mod_add_once) (auto simp: tb_wf_def tb_in_def)
  moreover have "0 \<le> (i + tb_base b) mod tb_size b" using assms by (simp add: tb_wf_def)
  ultimately show ?thesis
    using True by (simp add: tb_vectorIndex_def tb_valid_def tb_in_def tb_pos_def Let_def)
next
  case False
  then have "rassert (- tb_past b \<le> i \<and> i \<le> tb_future b) = Inl AssertFailed"
    by (simp add: rassert_def tb_in_def)
  with False show ?thesis by (simp add: tb_vectorIndex_def tb_valid_def)
qed

lemma tb_access_eq:
  "tb_wf b \<Longrightarrow> tb_access b i = (if tb_in b i then Inr (tb_abs b i) else Inl AssertFailed)"
  by (simp add: tb_access_def tb_vectorIndex_eq tb_pos_less tb_abs_def)

definition tb_put :: "'a timebuf \<Rightarrow> int \<Rightarrow> 'a \<Rightarrow> 'a timebuf" where
  "tb_put b i x = b\<lparr>tb_index := (tb_index b)[tb_pos b i := x]\<rparr>"

lemma tb_assign_eq:
  "tb_wf b \<Longrightarrow> tb_assign b i x = (if tb_in b i then Inr (tb_put b i x) else Inl AssertFailed)"
  by (simp add: tb_assign_def tb_vectorIndex_eq tb_pos_less tb_put_def)

lemma tb_put_simps [simp]:
  "tb_past (tb_put b i x) = tb_past b" "tb_future (tb_put b i x) = tb_future b"
  "tb_wf (tb_put b i x) = tb_wf b" "tb_in (tb_put b i x) j = tb_in b j"
  by (simp_all add: tb_put_def tb_wf_def tb_in_def)

lemma tb_pos_inj:
  assumes "tb_wf b" "tb_in b i" "tb_in b j" "tb_pos b i = tb_pos b j"
  shows "i = j"
proof -
  have n: "0 < tb_size b" using assms(1) by (simp add: tb_wf_def)
  have "(i + tb_base b) mod tb_size b = (j + tb_base b) mod tb_size b"
    using assms(4) n by (simp add: tb_pos_def nat_eq_iff)
  then have "tb_size b dvd i - j" by (simp add: mod_eq_dvd_iff)
  moreover have "\<bar>i - j\<bar> < tb_size b" using assms(1-3) by (auto simp: tb_wf_def tb_in_def)
  ultimately have "i - j = 0" using dvd_imp_le_int [of "i - j" "tb_size b"] n by auto
  then show "i = j" by simp
qed

lemma tb_abs_put:
  assumes "tb_wf b" "tb_in b i" "tb_in b j"
  shows "tb_abs (tb_put b i x) j = (if j = i then x else tb_abs b j)"
proof -
  have "tb_pos (tb_put b i x) j = tb_pos b j" by (simp add: tb_pos_def tb_put_def)
  then show ?thesis
    using tb_pos_inj [OF assms] tb_pos_less [OF assms(1)]
    by (auto simp: tb_abs_def tb_put_def nth_list_update)
qed

lemma tb_advance_ok:
  assumes "tb_wf b"
  shows "\<exists>b'. tb_advance dflt b = Inr b' \<and> tb_wf b' \<and> tb_past b' = tb_past b \<and>
    tb_future b' = tb_future b \<and>
    (\<forall>i. tb_in b i \<longrightarrow> tb_abs b' i = (if i = tb_future b then dflt else tb_abs b (i + 1)))"
proof -
  define base where "base = (if tb_base b + 1 \<ge> tb_size b then 0 else tb_base b + 1)"
  let ?b1 = "b\<lparr>tb_base := base\<rparr>"
  have b: "0 \<le> base" "base < tb_size b" "base = (tb_base b + 1) mod tb_size b"
    using assms by (auto simp: tb_wf_def base_def)
  have wf1: "tb_wf ?b1" using assms b by (simp add: tb_wf_def)
  have in1: "tb_in ?b1 i = tb_in b i" for i by (simp add: tb_in_def)
  have pos: "tb_pos ?b1 i = tb_pos b (i + 1)" for i
    by (simp add: tb_pos_def b(3) mod_simps ac_simps)
  have fut: "tb_in b (tb_future b)" "0 \<le> tb_future b" "tb_future b < tb_size b"
    using assms by (simp_all add: tb_in_def tb_wf_def)
  have ptr: "nat (if base + tb_future b \<ge> tb_size b then base + tb_future b - tb_size b
      else base + tb_future b) = tb_pos ?b1 (tb_future b)"
    using mod_add_once [OF b(1,2), of "tb_future b"] fut b(1)
    by (simp add: tb_pos_def add.commute)
  let ?b' = "tb_put ?b1 (tb_future b) dflt"
  have "tb_advance dflt b = Inr ?b'"
    using tb_pos_less [OF wf1, of "tb_future b"]
    by (simp add: tb_advance_def Let_def base_def [symmetric] ptr) (simp add: tb_put_def)
  moreover have "tb_abs ?b' i = (if i = tb_future b then dflt else tb_abs b (i + 1))"
    if "tb_in b i" for i
    using tb_abs_put [OF wf1, of "tb_future b" i dflt] that fut
    by (simp add: in1) (simp add: tb_abs_def pos)
  ultimately show ?thesis using wf1 by simp
qed

lemma tb_new_wf:
  assumes "tb_new dflt p f = Inr b"
  shows "tb_wf b \<and> tb_past b = p \<and> tb_future b = f \<and> (\<forall>i. tb_in b i \<longrightarrow> tb_abs b i = dflt)"
proof -
  have pf: "0 \<le> p" "0 \<le> f" and b: "b = \<lparr>tb_past = p, tb_future = f, tb_size = p + f + 1,
      tb_index = replicate (nat (p + f + 1)) dflt, tb_base = 0, tb_id = -1\<rparr>"
    using assms by (auto simp: tb_new_def rbind_Inr_iff)
  then have wf: "tb_wf b" by (simp add: tb_wf_def)
  have "tb_abs b i = dflt" for i
    using tb_pos_less [OF wf, of i] by (simp add: tb_abs_def b)
  with wf show ?thesis by (simp add: b)
qed

section \<open>Shift registers\<close>

text \<open>One cycle of a producer: write slot 0, then advance.\<close>

definition sr_feed :: "('s \<Rightarrow> int \<Rightarrow> 'a \<Rightarrow> 's result) \<Rightarrow> ('s \<Rightarrow> 's result) \<Rightarrow> 's \<Rightarrow> 'a list \<Rightarrow> 's result" where
  "sr_feed put step s xs = rfold (\<lambda>s x. rbind (put s 0 x) step) s xs"

locale shift_register =
  fixes ok :: "'s \<Rightarrow> bool"
    and past :: "'s \<Rightarrow> int"
    and get :: "'s \<Rightarrow> int \<Rightarrow> 'a result"
    and put :: "'s \<Rightarrow> int \<Rightarrow> 'a \<Rightarrow> 's result"
    and step :: "'s \<Rightarrow> 's result"
  assumes put_law: "ok s \<Longrightarrow> \<exists>s'. put s 0 x = Inr s' \<and> ok s' \<and> past s' = past s \<and>
      (\<forall>i. - past s \<le> i \<and> i \<le> 0 \<longrightarrow> get s' i = (if i = 0 then Inr x else get s i))"
    and step_law: "ok s \<Longrightarrow> \<exists>s'. step s = Inr s' \<and> ok s' \<and> past s' = past s \<and>
      (\<forall>i. - past s \<le> i \<and> i < 0 \<longrightarrow> get s' i = get s (i + 1))"
begin

text \<open>After a run of cycles, slot \<open>-i\<close> holds what was written \<open>i\<close> cycles ago.\<close>

lemma feed_delivers:
  assumes "ok s"
  shows "\<exists>s'. sr_feed put step s xs = Inr s' \<and> ok s' \<and> past s' = past s \<and>
    (\<forall>k < length xs. int (Suc k) \<le> past s \<longrightarrow>
       get s' (- int (Suc k)) = Inr (xs ! (length xs - Suc k)))"
proof (induction xs rule: rev_induct)
  case Nil
  with assms show ?case by (simp add: sr_feed_def)
next
  case (snoc x xs)
  then obtain s1 where s1: "sr_feed put step s xs = Inr s1" "ok s1" "past s1 = past s"
    "\<And>k. k < length xs \<Longrightarrow> int (Suc k) \<le> past s \<Longrightarrow>
       get s1 (- int (Suc k)) = Inr (xs ! (length xs - Suc k))" by blast
  from put_law [OF s1(2), of x] obtain s2 where s2: "put s1 0 x = Inr s2" "ok s2" "past s2 = past s"
    "\<And>i. - past s \<le> i \<Longrightarrow> i \<le> 0 \<Longrightarrow> get s2 i = (if i = 0 then Inr x else get s1 i)"
    using s1(3) by auto
  from step_law [OF s2(2)] obtain s3 where s3: "step s2 = Inr s3" "ok s3" "past s3 = past s"
    "\<And>i. - past s \<le> i \<Longrightarrow> i < 0 \<Longrightarrow> get s3 i = get s2 (i + 1)" using s2(3) by auto
  have "get s3 (- int (Suc k)) = Inr ((xs @ [x]) ! (length (xs @ [x]) - Suc k))"
    if k: "k < length (xs @ [x])" "int (Suc k) \<le> past s" for k
  proof (cases k)
    case 0
    with k s3(4) s2(4) [of 0] show ?thesis by simp
  next
    case (Suc j)
    have "get s3 (- int (Suc k)) = get s2 (- int (Suc j))"
      using k s3(4) [of "- int (Suc k)"] Suc by simp
    also have "\<dots> = get s1 (- int (Suc j))" using k Suc s2(4) [of "- int (Suc j)"] by simp
    also have "\<dots> = Inr (xs ! (length xs - Suc j))" using k Suc by (intro s1(4)) simp_all
    finally show ?thesis using k Suc by (auto simp: nth_append)
  qed
  with s1(1) s2(1) s3 show ?case by (auto simp: sr_feed_def rfold_append)
qed

text \<open>Slots not yet reached by the first write still hold the initial contents, shifted.\<close>

lemma feed_shifts:
  assumes "ok s" "sr_feed put step s xs = Inr s'" "- past s \<le> i" "i + int (length xs) < 0"
  shows "get s' i = get s (i + int (length xs))"
  using assms
proof (induction xs arbitrary: s)
  case Nil
  then show ?case by (simp add: sr_feed_def)
next
  case (Cons x xs)
  from put_law [OF Cons.prems(1), of x] obtain s1 where s1: "put s 0 x = Inr s1" "ok s1"
    "past s1 = past s" "\<And>i. - past s \<le> i \<Longrightarrow> i \<le> 0 \<Longrightarrow> get s1 i = (if i = 0 then Inr x else get s i)"
    by auto
  from step_law [OF s1(2)] obtain s2 where s2: "step s1 = Inr s2" "ok s2" "past s2 = past s"
    "\<And>i. - past s \<le> i \<Longrightarrow> i < 0 \<Longrightarrow> get s2 i = get s1 (i + 1)" using s1(3) by auto
  have "sr_feed put step s2 xs = Inr s'" using Cons.prems(2) s1(1) s2(1) by (simp add: sr_feed_def)
  with Cons have "get s' i = get s2 (i + int (length xs))" by (simp add: s2(2,3))
  also have "\<dots> = get s1 (i + int (length xs) + 1)" using Cons.prems by (intro s2(4)) simp_all
  also have "\<dots> = get s (i + int (length (x # xs)))"
    using Cons.prems s1(4) [of "i + int (length xs) + 1"] by (simp add: ac_simps)
  finally show ?case .
qed

end

definition tb_line :: "'a timebuf \<Rightarrow> bool" where
  "tb_line b \<longleftrightarrow> tb_wf b \<and> tb_future b = 0"

lemma tb_line_put:
  assumes "tb_line b"
  shows "\<exists>b'. tb_assign b 0 x = Inr b' \<and> tb_line b' \<and> tb_past b' = tb_past b \<and>
    (\<forall>i. - tb_past b \<le> i \<and> i \<le> 0 \<longrightarrow> tb_access b' i = (if i = 0 then Inr x else tb_access b i))"
proof -
  have wf: "tb_wf b" "tb_future b = 0" using assms by (simp_all add: tb_line_def)
  then have "0 \<le> tb_past b" by (simp add: tb_wf_def)
  with wf tb_abs_put [OF wf(1), of 0] show ?thesis
    by (simp add: tb_line_def tb_assign_eq tb_access_eq tb_in_def)
qed

lemma tb_line_step:
  assumes "tb_line b"
  shows "\<exists>b'. tb_advance dflt b = Inr b' \<and> tb_line b' \<and> tb_past b' = tb_past b \<and>
    (\<forall>i. - tb_past b \<le> i \<and> i < 0 \<longrightarrow> tb_access b' i = tb_access b (i + 1))"
proof -
  obtain b' where b': "tb_advance dflt b = Inr b'" "tb_wf b'" "tb_past b' = tb_past b" "tb_future b' = 0"
    "\<And>i. tb_in b i \<Longrightarrow> tb_abs b' i = (if i = tb_future b then dflt else tb_abs b (i + 1))"
    using assms tb_advance_ok [of b dflt] unfolding tb_line_def by metis
  have "tb_access b' i = tb_access b (i + 1)" if "- tb_past b \<le> i" "i < 0" for i
    using assms that b'(2-5) by (simp add: tb_access_eq tb_line_def tb_in_def)
  with b' show ?thesis by (auto simp: tb_line_def)
qed

interpretation tbsr: shift_register tb_line tb_past tb_access tb_assign "tb_advance dflt" for dflt
  by unfold_locales (fact tb_line_put tb_line_step)+

section \<open>The window as a list\<close>

text \<open>A buffer without future slots, oldest element first.\<close>

definition tb_window :: "'a timebuf \<Rightarrow> 'a list" where
  "tb_window b = map (\<lambda>k. tb_abs b (int k - tb_past b)) [0..<Suc (nat (tb_past b))]"

lemma tb_window_length: "length (tb_window b) = Suc (nat (tb_past b))"
  by (simp add: tb_window_def)

lemma tb_window_nth: "k \<le> nat (tb_past b) \<Longrightarrow> tb_window b ! k = tb_abs b (int k - tb_past b)"
  by (simp add: tb_window_def del: upt_Suc)

lemma tb_window_ends:
  assumes "tb_line b"
  shows "tb_access b 0 = Inr (last (tb_window b))"
    and "tb_access b (- tb_past b) = Inr (hd (tb_window b))"
proof -
  have p: "0 \<le> tb_past b" "tb_wf b" using assms by (simp_all add: tb_line_def tb_wf_def)
  have ne: "tb_window b \<noteq> []" using tb_window_length [of b] by auto
  from p assms have "tb_in b 0" "tb_in b (- tb_past b)" by (simp_all add: tb_in_def tb_line_def)
  with p tb_window_nth [of "nat (tb_past b)" b] tb_window_nth [of 0 b] ne
  show "tb_access b 0 = Inr (last (tb_window b))"
    and "tb_access b (- tb_past b) = Inr (hd (tb_window b))"
    by (simp_all add: tb_access_eq last_conv_nth hd_conv_nth tb_window_length)
qed

lemma tb_window_put:
  assumes "tb_line b"
  shows "tb_assign b 0 x = Inr (tb_put b 0 x) \<and> tb_line (tb_put b 0 x) \<and>
    tb_window (tb_put b 0 x) = butlast (tb_window b) @ [x]"
proof -
  have p: "0 \<le> tb_past b" "tb_wf b" "tb_future b = 0" using assms by (simp_all add: tb_line_def tb_wf_def)
  have "tb_window (tb_put b 0 x) = butlast (tb_window b) @ [x]"
    using p tb_abs_put [OF p(2), of 0]
    by (intro nth_equalityI)
      (auto simp: tb_window_length tb_window_nth nth_append nth_butlast tb_in_def less_Suc_eq_le)
  then show ?thesis using p by (simp add: tb_assign_eq tb_line_def tb_in_def)
qed

lemma tb_window_advance:
  assumes "tb_line b"
  shows "\<exists>b'. tb_advance dflt b = Inr b' \<and> tb_line b' \<and> tb_past b' = tb_past b \<and>
    tb_window b' = tl (tb_window b) @ [dflt]"
proof -
  have p: "0 \<le> tb_past b" "tb_wf b" "tb_future b = 0" using assms by (simp_all add: tb_line_def tb_wf_def)
  obtain b' where b': "tb_advance dflt b = Inr b'" "tb_wf b'" "tb_past b' = tb_past b" "tb_future b' = 0"
    "\<And>i. tb_in b i \<Longrightarrow> tb_abs b' i = (if i = 0 then dflt else tb_abs b (i + 1))"
    using tb_advance_ok [OF p(2), of dflt] p(3) by auto
  have "tb_window b' = tl (tb_window b) @ [dflt]"
    using p b'(3,5)
    by (intro nth_equalityI)
      (auto simp: tb_window_length tb_window_nth nth_append nth_tl tb_in_def less_Suc_eq_le algebra_simps)
  with b' show ?thesis by (auto simp: tb_line_def)
qed

section \<open>Properties\<close>

text \<open>
  C11: The circular buffer is a window that slides over time. Advancing a well-formed buffer
  succeeds and keeps it well formed; afterwards index \<open>i\<close> reads what index \<open>i + 1\<close> read
  before, the newest future slot reads a default element, and an index outside the window is
  caught by the assertion both before and after.
\<close>

theorem timebuf_advance_shifts:
  assumes "tb_wf b"
  shows "\<exists>b'. tb_advance dflt b = Inr b' \<and> tb_wf b' \<and>
    (\<forall>i. tb_access b' i =
       (if i < - tb_past b \<or> tb_future b < i then Inl AssertFailed
        else if i = tb_future b then Inr dflt else tb_access b (i + 1)))"
proof -
  obtain b' where b': "tb_advance dflt b = Inr b'" "tb_wf b'" "tb_past b' = tb_past b"
    "tb_future b' = tb_future b"
    "\<And>i. tb_in b i \<Longrightarrow> tb_abs b' i = (if i = tb_future b then dflt else tb_abs b (i + 1))"
    using tb_advance_ok [OF assms, of dflt] by blast
  have "tb_access b' i = (if i < - tb_past b \<or> tb_future b < i then Inl AssertFailed
        else if i = tb_future b then Inr dflt else tb_access b (i + 1))" for i
    using assms b'(2-5) by (auto simp: tb_access_eq tb_in_def)
  with b' show ?thesis by blast
qed

theorem timebuf_advance_shifts_witness:
  "\<exists>b b'. tb_new (0::nat) 2 0 = Inr b \<and> tb_advance 0 b = Inr b' \<and> tb_access b' 0 = Inr 0 \<and>
     tb_access b' 1 = Inl AssertFailed"
proof -
  obtain b where b: "tb_new (0::nat) 2 0 = Inr b" by (simp add: tb_new_def)
  note wf = tb_new_wf [OF b]
  from timebuf_advance_shifts [of b 0] wf show ?thesis using b by auto
qed

end
