(* ===== verification/Buffers.thy ===== *)
theory Buffers
  imports TimeBuf
begin

text \<open>
  \<^verbatim>\<open>cpu/myminor/buffers.hh\<close>: what stages put between one another. \<open>buffer_empty\<close> is
  \<^verbatim>\<open>MyMinorBuffer::empty\<close>; \<open>latch\<close> is \<^verbatim>\<open>Latch\<close>; \<open>ssp\<close> is
  \<^verbatim>\<open>SelfStallingPipeline\<close>; \<open>mqueue\<close> is \<^verbatim>\<open>Queue\<close> and \<open>inputbuf\<close> is
  \<^verbatim>\<open>InputBuffer\<close>. The template argument \<^verbatim>\<open>BubbleTraits\<close> is the pair of arguments
  \<open>isB\<close> and \<open>bub\<close>.

  A latch is a delay line, a self-stalling pipeline refines a list that shifts by one, and an
  input buffer refines a plain queue (locale \<open>fifo\<close>). The locale \<open>reservable\<close> states the
  reservation protocol of \<^verbatim>\<open>Reservable\<close>; from it follows that a producer that asks before
  it reserves never overfills the structure.

  \<^verbatim>\<open>InputBuffer::elementPtr\<close> points to an element the caller owns until
  \<^verbatim>\<open>pushTail\<close>; the model holds the element itself.
\<close>

section \<open>MyMinorBuffer\<close>

definition buffer_empty :: "('a \<Rightarrow> bool) \<Rightarrow> 'a timebuf \<Rightarrow> bool result" where
  "buffer_empty isB b =
     rfold (\<lambda>ret i. rbind (tb_access b i) (\<lambda>x. Inr (if \<not> isB x then False else ret)))
       True [- tb_past b..tb_future b]"

lemma buffer_empty_loop:
  "\<forall>i \<in> set is. tb_in b i \<Longrightarrow> tb_wf b \<Longrightarrow>
   rfold (\<lambda>ret i. rbind (tb_access b i) (\<lambda>x. Inr (if \<not> isB x then False else ret))) r is =
   Inr (r \<and> (\<forall>i \<in> set is. isB (tb_abs b i)))"
  by (induction "is" arbitrary: r) (auto simp: tb_access_eq)

lemma buffer_empty_eq:
  "tb_wf b \<Longrightarrow> buffer_empty isB b = Inr (\<forall>i. tb_in b i \<longrightarrow> isB (tb_abs b i))"
  by (auto simp: buffer_empty_def buffer_empty_loop tb_in_def)

text \<open>The contract of \<^verbatim>\<open>BubbleTraits\<close>: \<^verbatim>\<open>bubble()\<close> is a bubble.\<close>

locale bubble_traits =
  fixes isB :: "'a \<Rightarrow> bool"
    and bub :: 'a
  assumes bubble_law: "isB bub"
begin

lemma new_buffer_empty: "tb_new bub p f = Inr b \<Longrightarrow> buffer_empty isB b = Inr True"
  using tb_new_wf [of bub p f b] bubble_law by (simp add: buffer_empty_eq)

end

section \<open>Latch\<close>

record 'a latch =
  latch_delay :: int
  latch_buffer :: "'a timebuf"

definition latch_new :: "'a \<Rightarrow> int \<Rightarrow> 'a latch result" where
  "latch_new dflt delay =
     rbind (tb_new dflt delay 0) (\<lambda>b. Inr \<lparr>latch_delay = delay, latch_buffer = b\<rparr>)"

definition latch_empty :: "('a \<Rightarrow> bool) \<Rightarrow> 'a latch \<Rightarrow> bool result" where
  "latch_empty isB l = buffer_empty isB (latch_buffer l)"

definition latch_input :: "'a latch \<Rightarrow> wire result" where
  "latch_input l = tb_getWire (latch_buffer l) 0"

definition latch_output :: "'a latch \<Rightarrow> wire result" where
  "latch_output l = tb_getWire (latch_buffer l) (- latch_delay l)"

definition latch_evaluate :: "'a \<Rightarrow> 'a latch \<Rightarrow> 'a latch result" where
  "latch_evaluate dflt l =
     rbind (tb_advance dflt (latch_buffer l)) (\<lambda>b. Inr (l\<lparr>latch_buffer := b\<rparr>))"

text \<open>What a stage does with a latch: write the input wire, read the output wire.\<close>

definition latch_write :: "'a latch \<Rightarrow> 'a \<Rightarrow> 'a latch result" where
  "latch_write l x =
     rbind (latch_input l) (\<lambda>w.
     rbind (wire_assign (latch_buffer l) w x) (\<lambda>b. Inr (l\<lparr>latch_buffer := b\<rparr>)))"

definition latch_read :: "'a latch \<Rightarrow> 'a result" where
  "latch_read l = rbind (latch_output l) (\<lambda>w. wire_deref (latch_buffer l) w)"

definition latch_cycles :: "'a \<Rightarrow> 'a latch \<Rightarrow> 'a list \<Rightarrow> 'a latch result" where
  "latch_cycles dflt l xs = rfold (\<lambda>l x. rbind (latch_write l x) (latch_evaluate dflt)) l xs"

lemma latch_cycles_feed:
  assumes "tb_line (latch_buffer l)"
  shows "latch_cycles dflt l xs =
    rbind (sr_feed tb_assign (tb_advance dflt) (latch_buffer l) xs) (\<lambda>b. Inr (l\<lparr>latch_buffer := b\<rparr>))"
  using assms
proof (induction xs arbitrary: l)
  case (Cons x xs)
  let ?b = "latch_buffer l"
  have v: "tb_valid ?b 0 = Inr ()" using Cons.prems
    by (auto simp: tb_valid_def tb_line_def tb_wf_def)
  obtain b1 where b1: "tb_assign ?b 0 x = Inr b1" "tb_line b1" using tb_line_put [OF Cons.prems] by blast
  obtain b2 where b2: "tb_advance dflt b1 = Inr b2" "tb_line b2" using tb_line_step [OF b1(2)] by blast
  have "latch_cycles dflt l (x # xs) = latch_cycles dflt (l\<lparr>latch_buffer := b2\<rparr>) xs"
    by (simp add: latch_cycles_def latch_write_def latch_input_def tb_getWire_def v wire_assign_def b1
        latch_evaluate_def b2)
  also have "\<dots> = rbind (sr_feed tb_assign (tb_advance dflt) b2 xs) (\<lambda>b. Inr (l\<lparr>latch_buffer := b\<rparr>))"
    using Cons.IH [of "l\<lparr>latch_buffer := b2\<rparr>"] b2 by simp
  finally show ?case using b1(1) b2(1) by (simp add: sr_feed_def)
qed (simp add: latch_cycles_def sr_feed_def)

lemma latch_read_eq:
  assumes "tb_line (latch_buffer l)" "latch_delay l = tb_past (latch_buffer l)"
  shows "latch_read l = tb_access (latch_buffer l) (- latch_delay l)"
proof -
  have "tb_valid (latch_buffer l) (- latch_delay l) = Inr ()" using assms
    by (auto simp: tb_valid_def tb_line_def tb_wf_def)
  then show ?thesis by (simp add: latch_read_def latch_output_def tb_getWire_def wire_deref_def)
qed

text \<open>
  A latch delays by exactly its delay. Write one value per cycle into a new latch of delay
  \<open>d \<ge> 1\<close>: after \<open>n\<close> cycles the output wire shows the value written \<open>d\<close> cycles
  ago, and the default element while no write has come through yet.
\<close>

lemma latch_delays:
  assumes "latch_new dflt d = Inr l" "1 \<le> d"
  shows "\<exists>l'. latch_cycles dflt l xs = Inr l' \<and>
    latch_read l' = Inr (if nat d \<le> length xs then xs ! (length xs - nat d) else dflt)"
proof -
  from assms(1) obtain b where b: "tb_new dflt d 0 = Inr b"
    and l: "l = \<lparr>latch_delay = d, latch_buffer = b\<rparr>" by (auto simp: latch_new_def rbind_Inr_iff)
  note new = tb_new_wf [OF b]
  then have line: "tb_line b" by (simp add: tb_line_def)
  from tbsr.feed_delivers [OF line, of dflt xs] obtain b' where
    b': "sr_feed tb_assign (tb_advance dflt) b xs = Inr b'" "tb_line b'" "tb_past b' = d"
    "\<And>k. k < length xs \<Longrightarrow> int (Suc k) \<le> d \<Longrightarrow>
       tb_access b' (- int (Suc k)) = Inr (xs ! (length xs - Suc k))"
    using new by auto
  have "latch_cycles dflt l xs = Inr (l\<lparr>latch_buffer := b'\<rparr>)"
    using latch_cycles_feed [of l dflt xs] line b'(1) by (simp add: l)
  moreover have "tb_access b' (- d) = Inr (if nat d \<le> length xs then xs ! (length xs - nat d) else dflt)"
  proof (cases "nat d \<le> length xs")
    case True
    with b'(4) [of "nat d - 1"] assms(2) show ?thesis by (simp add: of_nat_diff)
  next
    case False
    then have "tb_access b' (- d) = tb_access b (- d + int (length xs))"
      using tbsr.feed_shifts [OF line b'(1), of "- d"] new by simp
    with False new show ?thesis by (simp add: tb_access_eq tb_in_def)
  qed
  ultimately show ?thesis using latch_read_eq [of "l\<lparr>latch_buffer := b'\<rparr>"] b'(2,3) by (simp add: l)
qed

lemma latch_delays_witness:
  "\<exists>l l'. latch_new 0 2 = Inr l \<and> latch_cycles 0 l [5, 6, 7 :: nat] = Inr l' \<and> latch_read l' = Inr 6"
proof -
  obtain l where l: "latch_new (0::nat) 2 = Inr l" by (simp add: latch_new_def tb_new_def)
  from latch_delays [OF l, of "[5, 6, 7]"] l show ?thesis by auto
qed

section \<open>SelfStallingPipeline\<close>

record 'a ssp =
  ssp_buf :: "'a timebuf"
  ssp_pushWire :: wire
  ssp_popWire :: wire
  ssp_stalled :: bool
  ssp_occupancy :: u32

definition ssp_new :: "'a \<Rightarrow> 'a \<Rightarrow> nat \<Rightarrow> 'a ssp result" where
  "ssp_new bub dflt depth =
     rbind (tb_new dflt (int depth) 0) (\<lambda>b.
     rbind (tb_getWire b 0) (\<lambda>pushW.
     rbind (tb_getWire b (- int depth)) (\<lambda>popW.
     rbind (rassert (depth > 0)) (\<lambda>_.
     rbind (rfold (\<lambda>b i. tb_assign b (- int i) bub) b [0..<Suc depth]) (\<lambda>b.
     Inr \<lparr>ssp_buf = b, ssp_pushWire = pushW, ssp_popWire = popW, ssp_stalled = False,
          ssp_occupancy = 0\<rparr>)))))"

definition ssp_alreadyPushed :: "('a \<Rightarrow> bool) \<Rightarrow> 'a ssp \<Rightarrow> bool result" where
  "ssp_alreadyPushed isB p = rbind (wire_deref (ssp_buf p) (ssp_pushWire p)) (\<lambda>x. Inr (\<not> isB x))"

definition ssp_push :: "('a \<Rightarrow> bool) \<Rightarrow> 'a ssp \<Rightarrow> 'a \<Rightarrow> 'a ssp result" where
  "ssp_push isB p elem =
     rbind (ssp_alreadyPushed isB p) (\<lambda>already.
     rbind (rassert (\<not> already)) (\<lambda>_.
     rbind (wire_assign (ssp_buf p) (ssp_pushWire p) elem) (\<lambda>b.
     Inr (p\<lparr>ssp_buf := b,
            ssp_occupancy := (if \<not> isB elem then ssp_occupancy p + 1 else ssp_occupancy p)\<rparr>))))"

definition ssp_front :: "'a ssp \<Rightarrow> 'a result" where
  "ssp_front p = wire_deref (ssp_buf p) (ssp_popWire p)"

definition ssp_isPopable :: "('a \<Rightarrow> bool) \<Rightarrow> 'a ssp \<Rightarrow> bool result" where
  "ssp_isPopable isB p = rbind (ssp_front p) (\<lambda>x. Inr (\<not> isB x))"

definition ssp_advance :: "('a \<Rightarrow> bool) \<Rightarrow> 'a \<Rightarrow> 'a \<Rightarrow> 'a ssp \<Rightarrow> 'a ssp result" where
  "ssp_advance isB bub dflt p =
     rbind (ssp_isPopable isB p) (\<lambda>data_at_end.
     if ssp_stalled p then Inr p
     else
       rbind (tb_advance dflt (ssp_buf p)) (\<lambda>b.
       let p = p\<lparr>ssp_buf := b,
                 ssp_occupancy := (if data_at_end then ssp_occupancy p - 1 else ssp_occupancy p)\<rparr> in
       rbind (ssp_isPopable isB p) (\<lambda>popable.
       let p = p\<lparr>ssp_stalled := popable\<rparr> in
       rbind (wire_assign (ssp_buf p) (ssp_pushWire p) bub) (\<lambda>b.
       Inr (p\<lparr>ssp_buf := b\<rparr>)))))"

text \<open>
  The abstract pipeline: its slots from the output end to the input end, whose last slot is the
  one a push fills. \<open>occupancy\<close> counts the slots that hold data and \<open>stalled\<close> implies
  that the slot at the output end does.
\<close>

abbreviation slots_used :: "('a \<Rightarrow> bool) \<Rightarrow> 'a list \<Rightarrow> nat" where
  "slots_used isB xs \<equiv> length (filter (\<lambda>x. \<not> isB x) xs)"

definition ssp_wf :: "('a \<Rightarrow> bool) \<Rightarrow> 'a ssp \<Rightarrow> bool" where
  "ssp_wf isB p \<longleftrightarrow> tb_line (ssp_buf p) \<and> 0 < tb_past (ssp_buf p) \<and> tb_past (ssp_buf p) < 2 ^ 32 - 1 \<and>
     ssp_pushWire p = 0 \<and> ssp_popWire p = - tb_past (ssp_buf p) \<and>
     unat (ssp_occupancy p) = slots_used isB (tb_window (ssp_buf p)) \<and>
     (ssp_stalled p \<longrightarrow> \<not> isB (hd (tb_window (ssp_buf p))))"

abbreviation ssp_slots :: "'a ssp \<Rightarrow> 'a list" where
  "ssp_slots p \<equiv> tb_window (ssp_buf p)"

lemma ssp_slots_length: "ssp_wf isB p \<Longrightarrow> 2 \<le> length (ssp_slots p) \<and> length (ssp_slots p) < 2 ^ 32"
  by (auto simp: tb_window_length ssp_wf_def)

lemma ssp_wires:
  assumes "ssp_wf isB p"
  shows "wire_deref (ssp_buf p) (ssp_pushWire p) = Inr (last (ssp_slots p))"
    and "ssp_front p = Inr (hd (ssp_slots p))"
    and "wire_assign (ssp_buf p) (ssp_pushWire p) x = Inr (tb_put (ssp_buf p) 0 x)"
  using assms tb_window_ends [of "ssp_buf p"] tb_window_put [of "ssp_buf p"]
  by (simp_all add: wire_deref_def wire_assign_def ssp_front_def ssp_wf_def)

lemma slots_used_butlast:
  "xs \<noteq> [] \<Longrightarrow> slots_used isB xs = slots_used isB (butlast xs) + (if isB (last xs) then 0 else 1)"
  by (induction xs rule: rev_induct) auto

lemma slots_used_tl:
  "xs \<noteq> [] \<Longrightarrow> slots_used isB xs = slots_used isB (tl xs) + (if isB (hd xs) then 0 else 1)"
  by (cases xs) auto

lemma ssp_push_ok:
  assumes "ssp_wf isB p" "isB (last (ssp_slots p))"
  shows "\<exists>p'. ssp_push isB p x = Inr p' \<and> ssp_wf isB p' \<and> ssp_stalled p' = ssp_stalled p \<and>
    ssp_slots p' = butlast (ssp_slots p) @ [x]"
proof -
  let ?xs = "ssp_slots p"
  have len: "2 \<le> length ?xs" "length ?xs < 2 ^ 32" using ssp_slots_length [OF assms(1)] by simp_all
  then have ne: "?xs \<noteq> []" by auto
  have put: "tb_line (tb_put (ssp_buf p) 0 x)" "tb_window (tb_put (ssp_buf p) 0 x) = butlast ?xs @ [x]"
    using assms(1) tb_window_put [of "ssp_buf p" x] by (simp_all add: ssp_wf_def)
  have "length (filter (\<lambda>x. \<not> isB x) (butlast ?xs)) \<le> length ?xs - 1"
    using length_filter_le [of "\<lambda>x. \<not> isB x" "butlast ?xs"] by simp
  then have small: "slots_used isB ?xs < 2 ^ 32 - 1" using slots_used_butlast [OF ne, of isB] assms(2) len by simp
  moreover have "unat (ssp_occupancy p) = slots_used isB ?xs" using assms(1) by (simp add: ssp_wf_def)
  ultimately have occ: "unat (ssp_occupancy p + 1) = Suc (slots_used isB ?xs)"
    by (simp add: unat_word_ariths)
  have hd: "hd (butlast ?xs @ [x]) = hd ?xs" using len by (cases ?xs) (auto split: if_splits)
  from assms put occ slots_used_butlast [OF ne, of isB] hd ssp_wires [OF assms(1)] show ?thesis
    by (simp add: ssp_push_def ssp_alreadyPushed_def ssp_wf_def)
qed

lemma ssp_advance_ok:
  assumes "ssp_wf isB p" "isB bub"
  shows "\<exists>p'. ssp_advance isB bub dflt p = Inr p' \<and> ssp_wf isB p' \<and>
    (if ssp_stalled p then p' = p
     else ssp_slots p' = tl (ssp_slots p) @ [bub] \<and>
          (ssp_stalled p' \<longleftrightarrow> \<not> isB (hd (tl (ssp_slots p)))))"
proof (cases "ssp_stalled p")
  case True
  with assms ssp_wires [OF assms(1)] show ?thesis by (simp add: ssp_advance_def ssp_isPopable_def)
next
  case False
  let ?xs = "ssp_slots p"
  have len: "2 \<le> length ?xs" using ssp_slots_length [OF assms(1)] by simp
  then have "tl ?xs \<noteq> []" by (cases ?xs) auto
  then have ne: "?xs \<noteq> []" "tl ?xs \<noteq> []" by auto
  have line: "tb_line (ssp_buf p)" using assms(1) by (simp add: ssp_wf_def)
  obtain b where b: "tb_advance dflt (ssp_buf p) = Inr b" "tb_line b" "tb_past b = tb_past (ssp_buf p)"
    "tb_window b = tl ?xs @ [dflt]" using tb_window_advance [OF line] by blast
  have put: "tb_assign b 0 bub = Inr (tb_put b 0 bub)" "tb_line (tb_put b 0 bub)"
    "tb_window (tb_put b 0 bub) = tl ?xs @ [bub]"
    using tb_window_put [OF b(2), of bub] b(4) by simp_all
  have front: "tb_access b (- tb_past (ssp_buf p)) = Inr (hd (tl ?xs))"
    using tb_window_ends(2) [OF b(2)] b(3,4) ne by simp
  have occ: "unat (if \<not> isB (hd ?xs) then ssp_occupancy p - 1 else ssp_occupancy p) = slots_used isB (tl ?xs)"
    using assms(1) slots_used_tl [OF ne(1), of isB]
    by (cases "isB (hd ?xs)") (simp_all add: ssp_wf_def unat_dec_Suc)
  let ?p' = "p\<lparr>ssp_buf := tb_put b 0 bub,
      ssp_occupancy := (if \<not> isB (hd ?xs) then ssp_occupancy p - 1 else ssp_occupancy p),
      ssp_stalled := \<not> isB (hd (tl ?xs))\<rparr>"
  have "ssp_advance isB bub dflt p = Inr ?p'"
    using assms(1) False b(1) put(1) front ssp_wires(2) [OF assms(1)]
    by (simp add: ssp_advance_def ssp_isPopable_def ssp_front_def wire_deref_def wire_assign_def
        ssp_wf_def Let_def)
  moreover have "ssp_wf isB ?p'"
    using assms put(2,3) b(3) occ ne by (simp add: ssp_wf_def)
  ultimately show ?thesis using False put(3) by simp
qed

lemma ssp_unstall: "ssp_wf isB p \<Longrightarrow> ssp_wf isB (p\<lparr>ssp_stalled := False\<rparr>)"
  by (simp add: ssp_wf_def)

lemma ssp_new_ok:
  assumes "0 < d" "int d < 2 ^ 32 - 1" "isB bub"
  shows "\<exists>p. ssp_new bub dflt d = Inr p \<and> ssp_wf isB p \<and> \<not> ssp_stalled p \<and>
    ssp_slots p = replicate (Suc d) bub"
proof -
  obtain b where b: "tb_new dflt (int d) 0 = Inr b" by (simp add: tb_new_def)
  note new = tb_new_wf [OF b]
  then have line: "tb_line b" by (simp add: tb_line_def)
  let ?f = "\<lambda>b i. tb_assign b (- int i) bub"
  have "\<exists>b'. rfold ?f b [0..<Suc d] = Inr b' \<and> tb_line b' \<and> tb_past b' = int d \<and>
      (\<forall>j < length [0..<Suc d]. tb_abs b' (- int j) = bub)"
  proof (rule rfold_invariant [where P = "\<lambda>k b'. tb_line b' \<and> tb_past b' = int d \<and>
        (\<forall>j < k. tb_abs b' (- int j) = bub)", simplified conj_assoc])
    show "tb_line b \<and> tb_past b = int d \<and> (\<forall>j<0. tb_abs b (- int j) = bub)"
      using new line by simp
  next
    fix i b' assume i: "i < length [0..<Suc d]"
      and inv: "tb_line b' \<and> tb_past b' = int d \<and> (\<forall>j<i. tb_abs b' (- int j) = bub)"
    then have wf: "tb_wf b'" "tb_future b' = 0" by (simp_all add: tb_line_def)
    have in': "tb_in b' (- int j)" if "j \<le> d" for j using inv wf that by (simp add: tb_in_def)
    have "tb_abs (tb_put b' (- int i) bub) (- int j) = bub" if "j < Suc i" for j
      using tb_abs_put [OF wf(1), of "- int i" "- int j"] in' i inv that by (auto simp: less_Suc_eq)
    then show "\<exists>s'. ?f b' ([0..<Suc d] ! i) = Inr s' \<and> tb_line s' \<and> tb_past s' = int d \<and>
        (\<forall>j<Suc i. tb_abs s' (- int j) = bub)"
      using i inv wf in' [of i] nth_upt [of 0 i "Suc d"]
      by (simp add: tb_assign_eq tb_line_def del: upt_Suc)
  qed
  then obtain b' where b': "rfold ?f b [0..<Suc d] = Inr b'" "tb_line b'" "tb_past b' = int d"
    "\<And>j. j < Suc d \<Longrightarrow> tb_abs b' (- int j) = bub" by auto
  have "tb_window b' = replicate (Suc d) bub"
  proof (rule nth_equalityI)
    fix i assume "i < length (tb_window b')"
    then have "i \<le> d" using b'(3) by (simp add: tb_window_length)
    then show "tb_window b' ! i = replicate (Suc d) bub ! i"
      using b'(3) b'(4) [of "d - i"] by (simp add: tb_window_nth of_nat_diff del: replicate_Suc)
  qed (simp add: tb_window_length b'(3))
  with assms b b' new show ?thesis
    by (simp add: ssp_new_def tb_getWire_def tb_valid_def ssp_wf_def del: upt_Suc)
qed

definition ssp_advances :: "('a \<Rightarrow> bool) \<Rightarrow> 'a \<Rightarrow> 'a \<Rightarrow> nat \<Rightarrow> 'a ssp \<Rightarrow> 'a ssp result" where
  "ssp_advances isB bub dflt k p = rfold (\<lambda>p _. ssp_advance isB bub dflt p) p [0..<k]"

lemma ssp_advances_flight:
  assumes "ssp_wf isB p" "\<not> ssp_stalled p" "isB bub" "\<not> isB x" "0 < d"
    and "ssp_slots p = replicate d bub @ [x]"
  shows "\<exists>q. ssp_advances isB bub dflt k p = Inr q \<and> ssp_wf isB q \<and> ssp_stalled q = (d \<le> k) \<and>
    ssp_slots q = replicate (d - k) bub @ x # replicate (min d k) bub"
proof (induction k)
  case 0
  with assms show ?case by (simp add: ssp_advances_def)
next
  case (Suc k)
  then obtain q where q: "ssp_advances isB bub dflt k p = Inr q" "ssp_wf isB q"
    "ssp_stalled q = (d \<le> k)" "ssp_slots q = replicate (d - k) bub @ x # replicate (min d k) bub"
    by blast
  from ssp_advance_ok [OF q(2) assms(3), of dflt] obtain q' where
    q': "ssp_advance isB bub dflt q = Inr q'" "ssp_wf isB q'"
    "if ssp_stalled q then q' = q else ssp_slots q' = tl (ssp_slots q) @ [bub] \<and>
       (ssp_stalled q' \<longleftrightarrow> \<not> isB (hd (tl (ssp_slots q))))" by blast
  have run: "ssp_advances isB bub dflt (Suc k) p = Inr q'"
    using q(1) q'(1) by (simp add: ssp_advances_def rfold_append)
  show ?case
  proof (cases "d \<le> k")
    case True
    with q q' run show ?thesis by (simp add: min_def)
  next
    case False
    then obtain j where j: "d - k = Suc j" by (metis diff_is_0_eq not0_implies_Suc)
    with False have sl: "ssp_slots q = bub # replicate j bub @ x # replicate k bub"
      using q(4) by (simp add: min_def)
    have "replicate k bub @ [bub] = replicate (min d (Suc k)) bub"
      using False by (cases "d = Suc k") (simp_all add: min_def replicate_append_same)
    moreover have "d - Suc k = j" "ssp_stalled q' = (d \<le> Suc k)"
      using False j q q' sl assms(3,4) by (auto simp: hd_append)
    ultimately show ?thesis using run q' q(3) False sl by simp
  qed
qed



section \<open>Queue\<close>

record 'a mqueue =
  mq_queue :: "'a list"
  numReservedSlots :: u32
  mq_capacity :: u32

definition queue_new :: "u32 \<Rightarrow> 'a mqueue" where
  "queue_new capacity = \<lparr>mq_queue = [], numReservedSlots = 0, mq_capacity = capacity\<rparr>"

definition queue_freeReservation :: "'a mqueue \<Rightarrow> 'a mqueue" where
  "queue_freeReservation q =
     (if numReservedSlots q \<noteq> 0 then q\<lparr>numReservedSlots := numReservedSlots q - 1\<rparr> else q)"

text \<open>The result's second component is whether the overflow warning is printed.\<close>

definition queue_push :: "('a \<Rightarrow> bool) \<Rightarrow> 'a mqueue \<Rightarrow> 'a \<Rightarrow> 'a mqueue \<times> bool" where
  "queue_push isB q data =
     (if \<not> isB data then
        let q = queue_freeReservation q;
            q = q\<lparr>mq_queue := mq_queue q @ [data]\<rparr> in
        (q, length (mq_queue q) > unat (mq_capacity q))
      else (q, False))"

definition queue_clearReservedSpace :: "'a mqueue \<Rightarrow> 'a mqueue" where
  "queue_clearReservedSpace q = q\<lparr>numReservedSlots := 0\<rparr>"

definition queue_totalSpace :: "'a mqueue \<Rightarrow> u32" where
  "queue_totalSpace q = mq_capacity q"

definition queue_occupiedSpace :: "'a mqueue \<Rightarrow> u32" where
  "queue_occupiedSpace q = of_nat (length (mq_queue q))"

definition queue_reservedSpace :: "'a mqueue \<Rightarrow> u32" where
  "queue_reservedSpace q = numReservedSlots q"

text \<open>
  The difference is taken in \<^verbatim>\<open>size_t\<close>, where it wraps, truncated to \<^verbatim>\<open>int\<close> and
  clamped at zero.
\<close>

definition clamp_int :: "u64 \<Rightarrow> u32" where
  "clamp_int x = (let ret = ucast x :: u32 in if sint ret < 0 then 0 else ret)"

definition queue_remainingSpace :: "'a mqueue \<Rightarrow> u32" where
  "queue_remainingSpace q = clamp_int (ucast (mq_capacity q) - of_nat (length (mq_queue q)))"

definition queue_unreservedRemainingSpace :: "'a mqueue \<Rightarrow> u32" where
  "queue_unreservedRemainingSpace q =
     clamp_int (ucast (mq_capacity q) - (of_nat (length (mq_queue q)) + ucast (numReservedSlots q)))"

text \<open>The second component is whether \<^verbatim>\<open>reserve\<close> warns.\<close>

definition queue_reserve :: "'a mqueue \<Rightarrow> 'a mqueue \<times> bool" where
  "queue_reserve q =
     (q\<lparr>numReservedSlots := numReservedSlots q + 1\<rparr>, queue_unreservedRemainingSpace q = 0)"

definition queue_canReserve :: "'a mqueue \<Rightarrow> bool" where
  "queue_canReserve q \<longleftrightarrow> queue_unreservedRemainingSpace q \<noteq> 0"

definition queue_front :: "'a mqueue \<Rightarrow> 'a result" where
  "queue_front q = (case mq_queue q of [] \<Rightarrow> Inl Undefined | x # _ \<Rightarrow> Inr x)"

definition queue_pop :: "'a mqueue \<Rightarrow> 'a mqueue result" where
  "queue_pop q = (case mq_queue q of [] \<Rightarrow> Inl Undefined | _ # xs \<Rightarrow> Inr (q\<lparr>mq_queue := xs\<rparr>))"

definition queue_empty :: "'a mqueue \<Rightarrow> bool" where
  "queue_empty q \<longleftrightarrow> mq_queue q = []"

text \<open>
  \<^verbatim>\<open>myminorTrace\<close>: the occupied slots, then an \<^verbatim>\<open>R\<close> per reserved slot, then empty
  slots, separated by commas. \<open>rep\<close> is the text \<^verbatim>\<open>ReportTraits\<close> prints for an element.
\<close>

fun trace_occupied :: "('a \<Rightarrow> string) \<Rightarrow> nat \<Rightarrow> 'a list \<Rightarrow> nat \<Rightarrow> string \<times> nat" where
  "trace_occupied rep num_total [] num_printed = ('''', num_printed)"
| "trace_occupied rep num_total (x # xs) num_printed =
     (let sep = (if num_printed + 1 \<le> num_total then '','' else '''');
          (rest, n) = trace_occupied rep num_total xs (num_printed + 1) in
      (rep x @ sep @ rest, n))"

function trace_reserved :: "nat \<Rightarrow> nat \<Rightarrow> nat \<Rightarrow> nat \<Rightarrow> string \<times> nat" where
  "trace_reserved num_reserved num_total num_printed_reserved num_printed =
     (if num_printed_reserved \<le> num_reserved \<and> num_printed \<le> num_total then
        let sep = (if num_printed + 1 \<le> num_total then '','' else '''');
            (rest, n) = trace_reserved num_reserved num_total (num_printed_reserved + 1) (num_printed + 1) in
        (''R'' @ sep @ rest, n)
      else ('''', num_printed))"
  by auto
termination
  by (relation "measure (\<lambda>(r, t, pr, p). Suc t - p)") auto

function trace_empty :: "nat \<Rightarrow> nat \<Rightarrow> string" where
  "trace_empty num_total num_printed =
     (if num_printed \<le> num_total then
        (if num_printed + 1 \<le> num_total then '','' else '''') @ trace_empty num_total (num_printed + 1)
      else '''')"
  by auto
termination
  by (relation "measure (\<lambda>(t, p). Suc t - p)") auto

declare trace_reserved.simps [simp del] trace_empty.simps [simp del]

definition queue_myminorTrace :: "('a \<Rightarrow> string) \<Rightarrow> 'a mqueue \<Rightarrow> string" where
  "queue_myminorTrace rep q =
     (let num_total = max (unat (queue_occupiedSpace q)) (unat (queue_totalSpace q));
          (occ, n) = trace_occupied rep num_total
            (take (unat (queue_occupiedSpace q)) (mq_queue q)) 1;
          (res, n) = trace_reserved (unat (queue_reservedSpace q)) num_total 1 n in
      occ @ res @ trace_empty num_total n)"

section \<open>InputBuffer\<close>

record 'a inputbuf =
  ib_queue :: "'a mqueue"
  elementPtr :: "'a option"

definition inputbuf_new :: "u32 \<Rightarrow> 'a inputbuf" where
  "inputbuf_new capacity = \<lparr>ib_queue = queue_new capacity, elementPtr = None\<rparr>"

definition inputbuf_setTail :: "('a \<Rightarrow> bool) \<Rightarrow> 'a inputbuf \<Rightarrow> 'a \<Rightarrow> 'a inputbuf result" where
  "inputbuf_setTail isB b new_element =
     rbind (rassert (elementPtr b = None)) (\<lambda>_.
     Inr (if \<not> isB new_element then
            if queue_empty (ib_queue b) then b\<lparr>elementPtr := Some new_element\<rparr>
            else b\<lparr>ib_queue := fst (queue_push isB (ib_queue b) new_element)\<rparr>
          else b))"

definition inputbuf_empty :: "'a inputbuf \<Rightarrow> bool" where
  "inputbuf_empty b \<longleftrightarrow> elementPtr b = None \<and> queue_empty (ib_queue b)"

definition inputbuf_front :: "'a inputbuf \<Rightarrow> 'a result" where
  "inputbuf_front b = (case elementPtr b of Some x \<Rightarrow> Inr x | None \<Rightarrow> queue_front (ib_queue b))"

definition inputbuf_pop :: "'a inputbuf \<Rightarrow> 'a inputbuf result" where
  "inputbuf_pop b =
     (case elementPtr b of
        Some _ \<Rightarrow> Inr (b\<lparr>elementPtr := None, ib_queue := queue_freeReservation (ib_queue b)\<rparr>)
      | None \<Rightarrow> rbind (queue_pop (ib_queue b)) (\<lambda>q. Inr (b\<lparr>ib_queue := q\<rparr>)))"

definition inputbuf_pushTail :: "('a \<Rightarrow> bool) \<Rightarrow> 'a inputbuf \<Rightarrow> 'a inputbuf" where
  "inputbuf_pushTail isB b =
     b\<lparr>ib_queue := (case elementPtr b of Some x \<Rightarrow> fst (queue_push isB (ib_queue b) x)
                                       | None \<Rightarrow> ib_queue b),
       elementPtr := None\<rparr>"

definition inputbuf_canReserve :: "'a inputbuf \<Rightarrow> bool" where
  "inputbuf_canReserve b \<longleftrightarrow> queue_canReserve (ib_queue b)"

definition inputbuf_reserve :: "'a inputbuf \<Rightarrow> 'a inputbuf" where
  "inputbuf_reserve b = b\<lparr>ib_queue := fst (queue_reserve (ib_queue b))\<rparr>"

definition inputbuf_freeReservation :: "'a inputbuf \<Rightarrow> 'a inputbuf" where
  "inputbuf_freeReservation b = b\<lparr>ib_queue := queue_freeReservation (ib_queue b)\<rparr>"

definition inputbuf_unreservedRemainingSpace :: "('a \<Rightarrow> bool) \<Rightarrow> 'a inputbuf \<Rightarrow> 'a inputbuf \<times> u32" where
  "inputbuf_unreservedRemainingSpace isB b =
     (let b = inputbuf_pushTail isB b in (b, queue_unreservedRemainingSpace (ib_queue b)))"

definition inputbuf_myminorTrace :: "('a \<Rightarrow> bool) \<Rightarrow> ('a \<Rightarrow> string) \<Rightarrow> 'a inputbuf \<Rightarrow> 'a inputbuf \<times> string" where
  "inputbuf_myminorTrace isB rep b =
     (let b = inputbuf_pushTail isB b in (b, queue_myminorTrace rep (ib_queue b)))"

section \<open>Space accounting\<close>

lemma clamp_int_diff:
  assumes "a < 2 ^ 31" "b < 2 ^ 31"
  shows "unat (clamp_int (of_nat a - of_nat b)) = a - b"
proof -
  let ?k = "int a - int b"
  have k: "- (2 ^ 31) \<le> ?k" "?k < 2 ^ 31" using assms by auto
  have "(of_nat a - of_nat b :: u64) = word_of_int ?k" by simp
  moreover have "(ucast (word_of_int ?k :: u64) :: u32) = word_of_int ?k"
    by (rule ucast_down_wi) (simp add: is_down)
  ultimately have c: "(ucast (of_nat a - of_nat b :: u64) :: u32) = word_of_int ?k" by simp
  have s: "sint (word_of_int ?k :: u32) = ?k" by (rule sint32_of_int [OF k])
  show ?thesis
  proof (cases "?k < 0")
    case True
    then show ?thesis unfolding clamp_int_def c Let_def s by simp
  next
    case False
    then have "unat (word_of_int ?k :: u32) = nat ?k" by (intro unat32_of_int) (use k in auto)
    with False show ?thesis unfolding clamp_int_def c Let_def s by (simp add: nat_diff_distrib)
  qed
qed

definition queue_small :: "'a mqueue \<Rightarrow> bool" where
  "queue_small q \<longleftrightarrow> unat (mq_capacity q) < 2 ^ 31 \<and>
     length (mq_queue q) + unat (numReservedSlots q) < 2 ^ 31"

lemma queue_unreserved_eq:
  assumes "queue_small q"
  shows "unat (queue_unreservedRemainingSpace q) =
    unat (mq_capacity q) - (length (mq_queue q) + unat (numReservedSlots q))"
  using clamp_int_diff [of "unat (mq_capacity q)" "length (mq_queue q) + unat (numReservedSlots q)"] assms
  by (simp add: queue_small_def queue_unreservedRemainingSpace_def)

lemma queue_remaining_eq:
  assumes "queue_small q"
  shows "unat (queue_remainingSpace q) = unat (mq_capacity q) - length (mq_queue q)"
  using clamp_int_diff [of "unat (mq_capacity q)" "length (mq_queue q)"] assms
  by (simp add: queue_small_def queue_remainingSpace_def)

section \<open>First in, first out, and reservations\<close>

locale fifo =
  fixes isB :: "'a \<Rightarrow> bool"
    and ok :: "'s \<Rightarrow> bool"
    and ready :: "'s \<Rightarrow> bool"
    and items :: "'s \<Rightarrow> 'a list"
    and put :: "'s \<Rightarrow> 'a \<Rightarrow> 's result"
    and front :: "'s \<Rightarrow> 'a result"
    and take1 :: "'s \<Rightarrow> 's result"
    and tick :: "'s \<Rightarrow> 's"
  assumes put_items: "ok s \<Longrightarrow> ready s \<Longrightarrow> \<exists>s'. put s x = Inr s' \<and> ok s' \<and>
      items s' = (if isB x then items s else items s @ [x])"
    and front_items: "ok s \<Longrightarrow> front s = (case items s of [] \<Rightarrow> Inl Undefined | x # _ \<Rightarrow> Inr x)"
    and take_items: "ok s \<Longrightarrow> items s \<noteq> [] \<Longrightarrow> \<exists>s'. take1 s = Inr s' \<and> ok s' \<and> items s' = tl (items s)"
    and tick_items: "ok s \<Longrightarrow> ok (tick s) \<and> ready (tick s) \<and> items (tick s) = items s"
begin

text \<open>Elements come out in the order they went in, bubbles left out.\<close>

lemma put_run:
  assumes "ok s"
  shows "\<exists>s'. rfold (\<lambda>s x. put (tick s) x) s xs = Inr s' \<and> ok s' \<and>
    items s' = items s @ filter (\<lambda>x. \<not> isB x) xs"
  using assms
proof (induction xs arbitrary: s)
  case (Cons x xs)
  from tick_items [OF Cons.prems] have t: "ok (tick s)" "ready (tick s)" "items (tick s) = items s"
    by simp_all
  from put_items [OF t(1,2), of x] obtain s1 where s1: "put (tick s) x = Inr s1" "ok s1"
    "items s1 = (if isB x then items s else items s @ [x])" using t(3) by auto
  from Cons.IH [OF s1(2)] s1 show ?case by auto
qed simp

lemma take_run:
  assumes "ok s" "n \<le> length (items s)"
  shows "\<exists>s'. rfold (\<lambda>s _. take1 s) s [0..<n] = Inr s' \<and> ok s' \<and> items s' = drop n (items s)"
  using assms
proof (induction n)
  case (Suc n)
  then obtain s1 where s1: "rfold (\<lambda>s _. take1 s) s [0..<n] = Inr s1" "ok s1"
    "items s1 = drop n (items s)" by auto
  moreover have "items s1 \<noteq> []" using s1(3) Suc.prems by simp
  ultimately obtain s2 where "take1 s1 = Inr s2" "ok s2" "items s2 = tl (items s1)"
    using take_items by blast
  with s1 show ?case by (auto simp: rfold_append drop_Suc tl_drop)
qed simp

end

datatype 'a rop = RReserve | RPut 'a | RTake | RFree | RTick

text \<open>
  A step of a disciplined client: it reserves only when asked-for space is there, puts and frees
  only against a reservation of its own, and takes only when there is something to take.
\<close>

locale reservable = fifo +
  fixes aux :: "'s \<Rightarrow> bool"
    and reserved :: "'s \<Rightarrow> nat"
    and cap :: "'s \<Rightarrow> nat"
    and canReserve :: "'s \<Rightarrow> bool"
    and reserve :: "'s \<Rightarrow> 's"
    and free :: "'s \<Rightarrow> 's"
  assumes can_law: "ok s \<Longrightarrow> aux s \<Longrightarrow> length (items s) + reserved s \<le> cap s \<Longrightarrow>
      canReserve s \<longleftrightarrow> length (items s) + reserved s < cap s"
    and reserve_law: "ok s \<Longrightarrow> aux s \<Longrightarrow> length (items s) + reserved s < cap s \<Longrightarrow>
      ok (reserve s) \<and> aux (reserve s) \<and> items (reserve s) = items s \<and>
      reserved (reserve s) = Suc (reserved s) \<and> cap (reserve s) = cap s"
    and free_law: "ok s \<Longrightarrow> aux s \<Longrightarrow> 0 < reserved s \<Longrightarrow> ok (free s) \<and> aux (free s) \<and>
      items (free s) = items s \<and> Suc (reserved (free s)) = reserved s \<and> cap (free s) = cap s"
    and put_law: "ok s \<Longrightarrow> aux s \<Longrightarrow> ready s \<Longrightarrow> 0 < reserved s \<Longrightarrow> put s x = Inr s' \<Longrightarrow>
      aux s' \<and> reserved s' = reserved s - (if isB x then 0 else 1) \<and> cap s' = cap s"
    and take_law: "ok s \<Longrightarrow> aux s \<Longrightarrow> items s \<noteq> [] \<Longrightarrow> take1 s = Inr s' \<Longrightarrow>
      aux s' \<and> reserved s' = reserved s \<and> cap s' = cap s"
    and tick_law: "ok s \<Longrightarrow> aux s \<Longrightarrow>
      aux (tick s) \<and> reserved (tick s) = reserved s \<and> cap (tick s) = cap s"
begin

definition rstep :: "'s \<Rightarrow> 'a rop \<Rightarrow> 's result" where
  "rstep s x = (case x of
       RReserve \<Rightarrow> Inr (if canReserve s then reserve s else s)
     | RPut d \<Rightarrow> (if ready s \<and> 0 < reserved s then put s d else Inr s)
     | RTake \<Rightarrow> (if items s \<noteq> [] then take1 s else Inr s)
     | RFree \<Rightarrow> Inr (if 0 < reserved s then free s else s)
     | RTick \<Rightarrow> Inr (tick s))"

definition fits :: "'s \<Rightarrow> bool" where
  "fits s \<longleftrightarrow> ok s \<and> aux s \<and> length (items s) + reserved s \<le> cap s"

lemma fits_step:
  assumes "fits s"
  shows "\<exists>s'. rstep s x = Inr s' \<and> fits s' \<and> cap s' = cap s"
proof -
  have s: "ok s" "aux s" "length (items s) + reserved s \<le> cap s" using assms by (simp_all add: fits_def)
  show ?thesis
  proof (cases x)
    case RReserve
    then show ?thesis using s can_law [OF s] reserve_law [OF s(1,2)] by (auto simp: rstep_def fits_def)
  next
    case (RPut d)
    show ?thesis
    proof (cases "ready s \<and> 0 < reserved s")
      case True
      then obtain s' where s': "put s d = Inr s'" "ok s'" "items s' = (if isB d then items s else items s @ [d])"
        using put_items [OF s(1)] by blast
      with put_law [OF s(1,2) _ _ s'(1)] True s(3) RPut show ?thesis by (auto simp: rstep_def fits_def)
    next
      case False
      then have "rstep s x = Inr s" using RPut by (auto simp: rstep_def)
      with assms show ?thesis by simp
    qed
  next
    case RTake
    show ?thesis
    proof (cases "items s = []")
      case False
      then obtain s' where s': "take1 s = Inr s'" "ok s'" "items s' = tl (items s)"
        using take_items [OF s(1)] by blast
      with take_law [OF s(1,2) False s'(1)] s(3) RTake False show ?thesis
        by (auto simp: rstep_def fits_def)
    qed (use RTake assms in \<open>simp add: rstep_def\<close>)
  next
    case RFree
    then show ?thesis using s free_law [OF s(1,2)] by (fastforce simp: rstep_def fits_def)
  next
    case RTick
    then show ?thesis using s tick_law [OF s(1,2)] tick_items [OF s(1)] by (simp add: rstep_def fits_def)
  qed
qed

lemma fits_run:
  assumes "fits s"
  shows "\<exists>s'. rfold rstep s xs = Inr s' \<and> fits s' \<and> cap s' = cap s"
proof (rule rfold_invariant [of "\<lambda>_ t. fits t \<and> cap t = cap s"])
  show "fits s \<and> cap s = cap s" using assms by simp
  show "\<exists>s'. rstep t (xs ! i) = Inr s' \<and> fits s' \<and> cap s' = cap s" if "fits t \<and> cap t = cap s" for i t
    using fits_step [of t "xs ! i"] that by auto
qed

end

definition queue_ok :: "'a mqueue \<Rightarrow> bool" where
  "queue_ok q \<longleftrightarrow> unat (mq_capacity q) < 2 ^ 31"

definition queue_put :: "('a \<Rightarrow> bool) \<Rightarrow> 'a mqueue \<Rightarrow> 'a \<Rightarrow> 'a mqueue result" where
  "queue_put isB q x = Inr (fst (queue_push isB q x))"

lemma queue_free_simps [simp]:
  "mq_queue (queue_freeReservation q) = mq_queue q"
  "mq_capacity (queue_freeReservation q) = mq_capacity q"
  by (simp_all add: queue_freeReservation_def)

lemma queue_free_reserved: "unat (numReservedSlots (queue_freeReservation q)) = unat (numReservedSlots q) - 1"
  by (simp add: queue_freeReservation_def unat_minus_one)

lemma queue_push_simps [simp]:
  "mq_queue (fst (queue_push isB q x)) = (if isB x then mq_queue q else mq_queue q @ [x])"
  "mq_capacity (fst (queue_push isB q x)) = mq_capacity q"
  "unat (numReservedSlots (fst (queue_push isB q x))) =
     unat (numReservedSlots q) - (if isB x then 0 else 1)"
  by (simp_all add: queue_push_def Let_def queue_free_reserved)

lemma queue_canReserve_iff:
  assumes "queue_ok q" "length (mq_queue q) + unat (numReservedSlots q) \<le> unat (mq_capacity q)"
  shows "queue_canReserve q \<longleftrightarrow> length (mq_queue q) + unat (numReservedSlots q) < unat (mq_capacity q)"
proof -
  have "queue_small q" using assms by (simp add: queue_ok_def queue_small_def)
  then have "unat (queue_unreservedRemainingSpace q) \<noteq> 0 \<longleftrightarrow>
      length (mq_queue q) + unat (numReservedSlots q) < unat (mq_capacity q)"
    by (auto simp: queue_unreserved_eq)
  then show ?thesis by (simp add: queue_canReserve_def unat_eq_zero)
qed

lemma queue_reserve_count:
  assumes "queue_ok q" "length (mq_queue q) + unat (numReservedSlots q) < unat (mq_capacity q)"
  shows "unat (numReservedSlots q + 1) = Suc (unat (numReservedSlots q))"
  using assms by (simp add: unat_word_ariths queue_ok_def)

interpretation mqf: reservable isB "\<lambda>_. True" "\<lambda>_. True" mq_queue "queue_put isB" queue_front queue_pop
  "\<lambda>q. q" queue_ok "\<lambda>q. unat (numReservedSlots q)" "\<lambda>q. unat (mq_capacity q)" queue_canReserve
  "\<lambda>q. fst (queue_reserve q)" queue_freeReservation for isB
  by unfold_locales
    (auto simp: queue_put_def queue_front_def queue_pop_def queue_canReserve_iff queue_reserve_def
      queue_reserve_count queue_ok_def queue_free_reserved split: list.splits)

text \<open>
  An input buffer's contents are the pending element or else the queue; a pending element has not
  yet taken its reserved slot.
\<close>

definition inputbuf_items :: "'a inputbuf \<Rightarrow> 'a list" where
  "inputbuf_items b = (case elementPtr b of Some x \<Rightarrow> [x] | None \<Rightarrow> mq_queue (ib_queue b))"

definition inputbuf_wf :: "('a \<Rightarrow> bool) \<Rightarrow> 'a inputbuf \<Rightarrow> bool" where
  "inputbuf_wf isB b \<longleftrightarrow>
     (case elementPtr b of Some x \<Rightarrow> \<not> isB x \<and> mq_queue (ib_queue b) = [] | None \<Rightarrow> True)"

definition inputbuf_ready :: "'a inputbuf \<Rightarrow> bool" where
  "inputbuf_ready b \<longleftrightarrow> elementPtr b = None"

definition inputbuf_booked :: "'a inputbuf \<Rightarrow> bool" where
  "inputbuf_booked b \<longleftrightarrow> queue_ok (ib_queue b) \<and> (elementPtr b \<noteq> None \<longrightarrow> 0 < unat (numReservedSlots (ib_queue b)))"

definition inputbuf_reserved :: "'a inputbuf \<Rightarrow> nat" where
  "inputbuf_reserved b = unat (numReservedSlots (ib_queue b)) - (if elementPtr b = None then 0 else 1)"

abbreviation inputbuf_capacity :: "'a inputbuf \<Rightarrow> nat" where
  "inputbuf_capacity b \<equiv> unat (mq_capacity (ib_queue b))"

lemmas inputbuf_defs = inputbuf_items_def inputbuf_wf_def inputbuf_ready_def inputbuf_booked_def
  inputbuf_reserved_def

lemma inputbuf_net:
  assumes "inputbuf_wf isB b" "inputbuf_booked b"
  shows "length (inputbuf_items b) + inputbuf_reserved b =
    length (mq_queue (ib_queue b)) + unat (numReservedSlots (ib_queue b))"
  using assms by (auto simp: inputbuf_defs split: option.splits)

interpretation ibf: fifo isB "inputbuf_wf isB" inputbuf_ready inputbuf_items "inputbuf_setTail isB"
  inputbuf_front inputbuf_pop "inputbuf_pushTail isB" for isB
  by unfold_locales
    (auto simp: inputbuf_defs inputbuf_setTail_def queue_empty_def inputbuf_front_def queue_front_def
      inputbuf_pop_def queue_pop_def inputbuf_pushTail_def split: option.splits list.splits)

lemma inputbuf_can_law:
  assumes "inputbuf_wf isB b" "inputbuf_booked b"
    and "length (inputbuf_items b) + inputbuf_reserved b \<le> inputbuf_capacity b"
  shows "inputbuf_canReserve b \<longleftrightarrow> length (inputbuf_items b) + inputbuf_reserved b < inputbuf_capacity b"
  using assms queue_canReserve_iff [of "ib_queue b"]
  by (simp add: inputbuf_net inputbuf_canReserve_def inputbuf_booked_def)

lemma inputbuf_reserve_law:
  assumes "inputbuf_wf isB b" "inputbuf_booked b"
    and "length (inputbuf_items b) + inputbuf_reserved b < inputbuf_capacity b"
  shows "inputbuf_wf isB (inputbuf_reserve b) \<and> inputbuf_booked (inputbuf_reserve b) \<and>
    inputbuf_items (inputbuf_reserve b) = inputbuf_items b \<and>
    inputbuf_reserved (inputbuf_reserve b) = Suc (inputbuf_reserved b) \<and>
    inputbuf_capacity (inputbuf_reserve b) = inputbuf_capacity b"
proof -
  have r: "unat (numReservedSlots (ib_queue b) + 1) = Suc (unat (numReservedSlots (ib_queue b)))"
    using assms by (intro queue_reserve_count) (simp_all add: inputbuf_net inputbuf_booked_def)
  with assms show ?thesis
    by (auto simp: inputbuf_reserve_def inputbuf_defs queue_reserve_def queue_ok_def
        split: option.splits)
qed

lemma inputbuf_free_law:
  assumes "inputbuf_wf isB b" "inputbuf_booked b" "0 < inputbuf_reserved b"
  shows "inputbuf_wf isB (inputbuf_freeReservation b) \<and> inputbuf_booked (inputbuf_freeReservation b) \<and>
    inputbuf_items (inputbuf_freeReservation b) = inputbuf_items b \<and>
    Suc (inputbuf_reserved (inputbuf_freeReservation b)) = inputbuf_reserved b \<and>
    inputbuf_capacity (inputbuf_freeReservation b) = inputbuf_capacity b"
  using assms
  by (auto simp: inputbuf_freeReservation_def inputbuf_defs queue_ok_def queue_free_reserved
      split: option.splits)

lemma inputbuf_put_law:
  assumes "inputbuf_wf isB b" "inputbuf_booked b" "inputbuf_ready b" "0 < inputbuf_reserved b"
    and "inputbuf_setTail isB b x = Inr b'"
  shows "inputbuf_booked b' \<and> inputbuf_reserved b' = inputbuf_reserved b - (if isB x then 0 else 1) \<and>
    inputbuf_capacity b' = inputbuf_capacity b"
  using assms by (auto simp: inputbuf_setTail_def inputbuf_defs queue_ok_def split: if_splits)

lemma inputbuf_take_law:
  assumes "inputbuf_wf isB b" "inputbuf_booked b" "inputbuf_items b \<noteq> []" "inputbuf_pop b = Inr b'"
  shows "inputbuf_booked b' \<and> inputbuf_reserved b' = inputbuf_reserved b \<and>
    inputbuf_capacity b' = inputbuf_capacity b"
  using assms by (auto simp: inputbuf_pop_def inputbuf_defs queue_ok_def queue_free_reserved
      queue_pop_def split: option.splits list.splits)

lemma inputbuf_tick_law:
  assumes "inputbuf_wf isB b" "inputbuf_booked b"
  shows "inputbuf_booked (inputbuf_pushTail isB b) \<and>
    inputbuf_reserved (inputbuf_pushTail isB b) = inputbuf_reserved b \<and>
    inputbuf_capacity (inputbuf_pushTail isB b) = inputbuf_capacity b"
  using assms by (auto simp: inputbuf_pushTail_def inputbuf_defs queue_ok_def split: option.splits)

interpretation ibr: reservable isB "inputbuf_wf isB" inputbuf_ready inputbuf_items
  "inputbuf_setTail isB" inputbuf_front inputbuf_pop "inputbuf_pushTail isB" inputbuf_booked
  inputbuf_reserved inputbuf_capacity inputbuf_canReserve inputbuf_reserve inputbuf_freeReservation
  for isB
  by unfold_locales
    (fact inputbuf_can_law inputbuf_reserve_law inputbuf_free_law inputbuf_put_law inputbuf_take_law
      inputbuf_tick_law)+

text \<open>The disciplined step, spelled out for input buffers.\<close>

definition inputbuf_step :: "('a \<Rightarrow> bool) \<Rightarrow> 'a inputbuf \<Rightarrow> 'a rop \<Rightarrow> 'a inputbuf result" where
  "inputbuf_step isB b x = (case x of
       RReserve \<Rightarrow> Inr (if inputbuf_canReserve b then inputbuf_reserve b else b)
     | RPut d \<Rightarrow> (if elementPtr b = None \<and> 0 < inputbuf_reserved b then inputbuf_setTail isB b d else Inr b)
     | RTake \<Rightarrow> (if \<not> inputbuf_empty b then inputbuf_pop b else Inr b)
     | RFree \<Rightarrow> Inr (if 0 < inputbuf_reserved b then inputbuf_freeReservation b else b)
     | RTick \<Rightarrow> Inr (inputbuf_pushTail isB b))"

lemma inputbuf_empty_iff: "inputbuf_empty b \<longleftrightarrow> inputbuf_items b = []"
  by (simp add: inputbuf_empty_def inputbuf_items_def queue_empty_def split: option.split)

lemma inputbuf_step_rstep: "ibr.rstep isB = inputbuf_step isB"
  by (intro ext) (simp add: ibr.rstep_def inputbuf_step_def inputbuf_ready_def inputbuf_empty_iff
      split: rop.split)

section \<open>Properties of queues\<close>



text \<open>
  C6: Reservations keep a stage's input buffer within its capacity. Whatever interleaving of
  reserving (when \<^verbatim>\<open>canReserve\<close> allows it), writing and freeing against a reservation,
  popping and end-of-cycle pushes a new buffer sees, no step fails and the elements plus the
  outstanding reservations never exceed its capacity.
\<close>

theorem inputbuf_never_overfull:
  assumes "unat c < 2 ^ 31"
  shows "\<exists>b. rfold (inputbuf_step isB) (inputbuf_new c) xs = Inr b \<and>
    length (inputbuf_items b) + inputbuf_reserved b \<le> unat c \<and>
    length (mq_queue (ib_queue b)) \<le> unat c"
proof -
  have "ibr.fits isB (inputbuf_new c)"
    using assms by (simp add: ibr.fits_def inputbuf_defs inputbuf_new_def queue_new_def queue_ok_def)
  from ibr.fits_run [OF this, of xs, unfolded inputbuf_step_rstep] obtain b where b: "rfold (inputbuf_step isB) (inputbuf_new c) xs = Inr b"
    "ibr.fits isB b" "inputbuf_capacity b = unat c" by (auto simp: inputbuf_new_def queue_new_def)
  moreover have "length (inputbuf_items b) + inputbuf_reserved b =
      length (mq_queue (ib_queue b)) + unat (numReservedSlots (ib_queue b))"
    using b(2) inputbuf_net by (auto simp: ibr.fits_def)
  ultimately show ?thesis by (auto simp: ibr.fits_def)
qed

theorem inputbuf_never_overfull_witness:
  "\<exists>b. rfold (inputbuf_step (\<lambda>x. x = (0::nat))) (inputbuf_new 1) [RReserve, RPut 4, RReserve, RTick] = Inr b \<and>
    length (inputbuf_items b) + inputbuf_reserved b \<le> 1"
  using inputbuf_never_overfull [of 1 "\<lambda>x. x = (0::nat)" "[RReserve, RPut 4, RReserve, RTick]"] by auto

end
