(* ===== verification/PipeData.thy ===== *)
theory PipeData
  imports DynInst Buffers
begin

text \<open>
  The data that flows between stages, \<^verbatim>\<open>cpu/myminor/pipe_data.hh\<close> and
  \<^verbatim>\<open>pipe_data.cc\<close>: \<open>branch_data\<close> (from Execute to Fetch1 and Fetch2), \<open>line_data\<close>
  (from Fetch1 to Fetch2) and \<open>inst_data\<close> (from Fetch2 to Decode to Execute). Fields that a
  constructor leaves uninitialised take the value of the argument \<open>junk\<close>, what the storage held
  before; a \<^verbatim>\<open>TimeBuffer\<close> zeroes its storage first. A slot of the instruction array is a
  reference-counted pointer, null being \<open>None\<close>.
\<close>

section \<open>Branches\<close>

datatype reason = NoBranch | CorrectlyPredictedBranch | UnpredictedBranch | BranchPrediction
  | BadlyPredictedBranchTarget | BadlyPredictedBranch | SuspendThread | Interrupt | HaltFetch

fun show_reason :: "reason \<Rightarrow> string" where
  "show_reason NoBranch = ''NoBranch''"
| "show_reason UnpredictedBranch = ''UnpredictedBranch''"
| "show_reason BranchPrediction = ''BranchPrediction''"
| "show_reason CorrectlyPredictedBranch = ''CorrectlyPredictedBranch''"
| "show_reason BadlyPredictedBranch = ''BadlyPredictedBranch''"
| "show_reason BadlyPredictedBranchTarget = ''BadlyPredictedBranchTarget''"
| "show_reason Interrupt = ''Interrupt''"
| "show_reason SuspendThread = ''SuspendThread''"
| "show_reason HaltFetch = ''HaltFetch''"

fun isStreamChange :: "reason \<Rightarrow> bool" where
  "isStreamChange NoBranch = False"
| "isStreamChange CorrectlyPredictedBranch = False"
| "isStreamChange UnpredictedBranch = True"
| "isStreamChange BranchPrediction = True"
| "isStreamChange BadlyPredictedBranchTarget = True"
| "isStreamChange BadlyPredictedBranch = True"
| "isStreamChange SuspendThread = True"
| "isStreamChange Interrupt = True"
| "isStreamChange HaltFetch = True"

fun isBranch :: "reason \<Rightarrow> bool" where
  "isBranch NoBranch = False"
| "isBranch CorrectlyPredictedBranch = False"
| "isBranch SuspendThread = False"
| "isBranch Interrupt = False"
| "isBranch HaltFetch = False"
| "isBranch UnpredictedBranch = True"
| "isBranch BranchPrediction = True"
| "isBranch BadlyPredictedBranchTarget = True"
| "isBranch BadlyPredictedBranch = True"

record lvpt_in =
  inPredict :: bool
  inConstant :: bool
  inValue :: u64
  inPC :: u64
  inIndex :: u64
  inAddr :: u64

definition lvpt_in_zero :: lvpt_in where
  "lvpt_in_zero = \<lparr>inPredict = False, inConstant = False, inValue = 0, inPC = 0, inIndex = 0, inAddr = 0\<rparr>"

record branch_data =
  bd_reason :: reason
  bd_threadId :: int
  newStreamSeqNum :: u64
  newPredictionSeqNum :: u64
  bd_target :: "pcstate option"
  bd_inst :: dyn_inst
  bd_lvptIn :: lvpt_in

definition bd_new :: "lvpt_in \<Rightarrow> branch_data" where
  "bd_new junk = \<lparr>bd_reason = NoBranch, bd_threadId = InvalidThreadID, newStreamSeqNum = 0,
     newPredictionSeqNum = 0, bd_target = None, bd_inst = di_bubble, bd_lvptIn = junk\<rparr>"

definition bd_make :: "lvpt_in \<Rightarrow> reason \<Rightarrow> int \<Rightarrow> u64 \<Rightarrow> u64 \<Rightarrow> pcstate \<Rightarrow> dyn_inst \<Rightarrow> branch_data" where
  "bd_make junk r tid stream pred target inst =
     \<lparr>bd_reason = r, bd_threadId = tid, newStreamSeqNum = stream, newPredictionSeqNum = pred,
      bd_target = pc_set_ref None target, bd_inst = inst, bd_lvptIn = junk\<rparr>"

definition bd_assign :: "branch_data \<Rightarrow> branch_data \<Rightarrow> branch_data" where
  "bd_assign dest other =
     dest\<lparr>bd_reason := bd_reason other, bd_threadId := bd_threadId other,
          newStreamSeqNum := newStreamSeqNum other, newPredictionSeqNum := newPredictionSeqNum other,
          bd_target := pc_set_ptr (bd_target dest) (bd_target other), bd_inst := bd_inst other,
          bd_lvptIn := bd_lvptIn other\<rparr>"

definition bd_isBubble :: "branch_data \<Rightarrow> bool" where
  "bd_isBubble b \<longleftrightarrow> bd_reason b = NoBranch"

definition bd_isStreamChange :: "branch_data \<Rightarrow> bool" where
  "bd_isStreamChange b = isStreamChange (bd_reason b)"

definition bd_isBranch :: "branch_data \<Rightarrow> bool" where
  "bd_isBranch b = isBranch (bd_reason b)"

text \<open>Hexadecimal output, as \<^verbatim>\<open>std::hex\<close> prints an address.\<close>

definition hex_digit :: "nat \<Rightarrow> char" where
  "hex_digit d = (if d < 10 then char_of (48 + d) else char_of (87 + d))"

fun show_hex :: "nat \<Rightarrow> string" where
  "show_hex n = (if n < 16 then [hex_digit n] else show_hex (n div 16) @ [hex_digit (n mod 16)])"

declare show_hex.simps [simp del]

definition bd_reportData :: "branch_data \<Rightarrow> string result" where
  "bd_reportData b =
     (if bd_isBubble b then Inr ''-''
      else case bd_target b of None \<Rightarrow> Inl NullDeref
      | Some t \<Rightarrow> Inr (show_reason (bd_reason b) @ '';'' @ show_nat (unat (newStreamSeqNum b)) @ ''.'' @
          show_nat (unat (newPredictionSeqNum b)) @ '';0x'' @ show_hex (unat (instAddr t)) @ '';'' @
          di_reportData (bd_inst b)))"

section \<open>Lines\<close>

text \<open>What a line takes from a memory packet: the request's size and the data pointer.\<close>

record line_packet =
  lp_size :: u32
  lp_data :: "u8 list"

record line_data =
  bubbleFlag :: bool
  lineBaseAddr :: u64
  ld_pc :: "pcstate option"
  fetchAddr :: u64
  lineWidth :: u32
  ld_lvptOut :: lvpt_out
  ld_fault :: fault
  ld_id :: inst_id
  ld_line :: "u8 list option"
  ld_packet :: "line_packet option"

definition ld_new :: "u64 \<Rightarrow> lvpt_out \<Rightarrow> line_data" where
  "ld_new junkAddr junk = \<lparr>bubbleFlag = True, lineBaseAddr = 0, ld_pc = None, fetchAddr = junkAddr,
     lineWidth = 0, ld_lvptOut = junk, ld_fault = NoFault, ld_id = inst_id_zero, ld_line = None,
     ld_packet = None\<rparr>"

text \<open>The copy constructor clones \<^verbatim>\<open>other.pc\<close> without testing it; assignment tests it.\<close>

definition ld_copy :: "line_data \<Rightarrow> line_data result" where
  "ld_copy other = (case ld_pc other of None \<Rightarrow> Inl NullDeref | Some p \<Rightarrow> Inr (other\<lparr>ld_pc := Some p\<rparr>))"

definition ld_assign :: "line_data \<Rightarrow> line_data \<Rightarrow> line_data" where
  "ld_assign dest other =
     dest\<lparr>bubbleFlag := bubbleFlag other, lineBaseAddr := lineBaseAddr other,
          ld_pc := pc_set_ptr (ld_pc dest) (ld_pc other), fetchAddr := fetchAddr other,
          lineWidth := lineWidth other, ld_lvptOut := ld_lvptOut other, ld_fault := ld_fault other,
          ld_id := ld_id other, ld_line := ld_line other, ld_packet := ld_packet other\<rparr>"

definition ld_isFault :: "line_data \<Rightarrow> bool" where
  "ld_isFault l \<longleftrightarrow> ld_fault l \<noteq> NoFault"

definition ld_isBubble :: "line_data \<Rightarrow> bool" where
  "ld_isBubble l = bubbleFlag l"

definition ld_setFault :: "line_data \<Rightarrow> fault \<Rightarrow> line_data" where
  "ld_setFault l f = (let l = l\<lparr>ld_fault := f\<rparr> in if ld_isFault l then l\<lparr>bubbleFlag := False\<rparr> else l)"

definition ld_allocateLine :: "u8 list \<Rightarrow> line_data \<Rightarrow> u32 \<Rightarrow> line_data result" where
  "ld_allocateLine fresh l width =
     (let l = l\<lparr>lineWidth := width, bubbleFlag := False\<rparr> in
      rbind (rassert (\<not> ld_isFault l)) (\<lambda>_.
      rbind (rassert (ld_line l = None)) (\<lambda>_.
      Inr (l\<lparr>ld_line := Some (take (unat width) fresh)\<rparr>))))"

definition ld_adoptPacketData :: "line_data \<Rightarrow> line_packet \<Rightarrow> line_data result" where
  "ld_adoptPacketData l p =
     (let l = l\<lparr>ld_packet := Some p, lineWidth := lp_size p, bubbleFlag := False\<rparr> in
      rbind (rassert (\<not> ld_isFault l)) (\<lambda>_.
      rbind (rassert (ld_line l = None)) (\<lambda>_.
      Inr (l\<lparr>ld_line := Some (lp_data p)\<rparr>))))"

text \<open>Which object the call deletes is the second component.\<close>

datatype freed = FreedNothing | FreedPacket | FreedLine

definition ld_freeLine :: "line_data \<Rightarrow> (line_data \<times> freed) result" where
  "ld_freeLine l =
     (if \<not> ld_isFault l \<and> \<not> ld_isBubble l then
        rbind (rassert (ld_line l \<noteq> None)) (\<lambda>_.
        Inr (l\<lparr>ld_line := None, bubbleFlag := True\<rparr>,
             if ld_packet l \<noteq> None then FreedPacket else FreedLine))
      else Inr (l, FreedNothing))"

definition ld_reportData :: "line_data \<Rightarrow> string" where
  "ld_reportData l = (if ld_isBubble l then ''-''
     else if ld_fault l \<noteq> NoFault then ''F;'' @ show_id (ld_id l) else show_id (ld_id l))"

section \<open>Instruction packets\<close>

definition MAX_FORWARD_INSTS :: nat where "MAX_FORWARD_INSTS = 16"

record inst_data =
  fi_insts :: "dyn_inst option list"
  numInsts :: u32
  fi_threadId :: int
  fi_lvptOut :: lvpt_out

definition fi_bubbleFill :: "inst_data \<Rightarrow> inst_data result" where
  "fi_bubbleFill d =
     rfold (\<lambda>d i. rbind (vec_set (fi_insts d) i (Some di_bubble)) (\<lambda>xs. Inr (d\<lparr>fi_insts := xs\<rparr>)))
       d [0..<unat (numInsts d)]"

definition fi_new :: "u32 \<Rightarrow> int \<Rightarrow> inst_data result" where
  "fi_new width tid =
     fi_bubbleFill \<lparr>fi_insts = replicate MAX_FORWARD_INSTS None, numInsts = width, fi_threadId = tid,
                    fi_lvptOut = lvpt_out_zero\<rparr>"

definition fi_assign :: "inst_data \<Rightarrow> inst_data \<Rightarrow> inst_data result" where
  "fi_assign dest src =
     rfold (\<lambda>d i. rbind (vec_at (fi_insts src) i) (\<lambda>x.
                  rbind (vec_set (fi_insts d) i x) (\<lambda>xs. Inr (d\<lparr>fi_insts := xs\<rparr>))))
       (dest\<lparr>numInsts := numInsts src\<rparr>) [0..<unat (numInsts src)]"

text \<open>The copy constructor default-constructs the members and assigns; \<^verbatim>\<open>threadId\<close> has no
  initialiser, so it keeps what the storage held.\<close>

definition fi_copy :: "int \<Rightarrow> inst_data \<Rightarrow> inst_data result" where
  "fi_copy junk src =
     fi_assign \<lparr>fi_insts = replicate MAX_FORWARD_INSTS None, numInsts = 0, fi_threadId = junk,
                fi_lvptOut = lvpt_out_zero\<rparr> src"

definition fi_inst :: "inst_data \<Rightarrow> nat \<Rightarrow> dyn_inst result" where
  "fi_inst d i = rbind (vec_at (fi_insts d) i) (\<lambda>x. case x of None \<Rightarrow> Inl NullDeref | Some y \<Rightarrow> Inr y)"

definition fi_isBubble :: "inst_data \<Rightarrow> bool result" where
  "fi_isBubble d =
     (if numInsts d = 0 then Inr True else rbind (fi_inst d 0) (\<lambda>i. Inr (di_isBubble i)))"

definition fi_resize :: "inst_data \<Rightarrow> u32 \<Rightarrow> inst_data result" where
  "fi_resize d width =
     rbind (rassert (unat width < MAX_FORWARD_INSTS)) (\<lambda>_. fi_bubbleFill (d\<lparr>numInsts := width\<rparr>))"

definition fi_reportData :: "inst_data \<Rightarrow> string result" where
  "fi_reportData d =
     rbind (fi_isBubble d) (\<lambda>b.
     if b then Inr ''-''
     else rbind (rfold (\<lambda>os i. rbind (fi_inst d i) (\<lambda>x.
                   Inr (os @ di_reportData x @ (if Suc i \<noteq> unat (numInsts d) then '','' else ''''))))
                 ''('' [0..<unat (numInsts d)]) (\<lambda>os. Inr (os @ '')'')))"

section \<open>Bubbles\<close>

definition fi_isB :: "inst_data \<Rightarrow> bool" where
  "fi_isB d \<longleftrightarrow> fi_isBubble d = Inr True"

definition fi_bubble :: "int \<Rightarrow> inst_data" where
  "fi_bubble tid = \<lparr>fi_insts = replicate MAX_FORWARD_INSTS None, numInsts = 0, fi_threadId = tid,
                    fi_lvptOut = lvpt_out_zero\<rparr>"

lemma fi_new_bubble: "fi_new 0 tid = Inr (fi_bubble tid)"
  by (simp add: fi_new_def fi_bubbleFill_def fi_bubble_def)

interpretation bdb: bubble_traits bd_isBubble "bd_new junk" for junk
  by unfold_locales (simp add: bd_isBubble_def bd_new_def)

interpretation ldb: bubble_traits ld_isBubble "ld_new junkAddr junk" for junkAddr junk
  by unfold_locales (simp add: ld_isBubble_def ld_new_def)

interpretation fib: bubble_traits fi_isB "fi_bubble tid" for tid
  by unfold_locales (simp add: fi_isB_def fi_isBubble_def fi_bubble_def)

section \<open>Properties\<close>

lemma isBranch_isStreamChange: "isBranch r \<Longrightarrow> isStreamChange r"
  by (cases r) auto

lemma bd_assign_copies: "bd_assign dest other = other"
  by (cases dest, cases other) (simp add: bd_assign_def)

lemma ld_assign_copies: "ld_assign dest other = other"
  by (cases dest, cases other) (simp add: ld_assign_def)

text \<open>
  A fetched line is released exactly once. A line that adopts a packet carries the packet's
  bytes and width and is no bubble; freeing it deletes the packet and turns it into a bubble
  without data; freeing it again deletes nothing. A line that carries a fault owns no data and is
  never freed.
\<close>

lemma line_released_once:
  assumes "\<not> ld_isFault l" "ld_line l = None"
  shows "\<exists>l1 l2. ld_adoptPacketData l p = Inr l1 \<and> \<not> ld_isBubble l1 \<and> ld_line l1 = Some (lp_data p) \<and>
    lineWidth l1 = lp_size p \<and> ld_freeLine l1 = Inr (l2, FreedPacket) \<and> ld_isBubble l2 \<and>
    ld_line l2 = None \<and> ld_freeLine l2 = Inr (l2, FreedNothing) \<and>
    ld_freeLine (ld_setFault l (Some f)) = Inr (ld_setFault l (Some f), FreedNothing)"
  using assms
  by (simp add: ld_adoptPacketData_def ld_freeLine_def ld_isFault_def ld_isBubble_def ld_setFault_def
      Let_def)

lemma line_released_once_witness:
  "\<exists>l1 l2. ld_adoptPacketData (ld_new 0 lvpt_out_zero) \<lparr>lp_size = 2, lp_data = [1, 2]\<rparr> = Inr l1 \<and>
     ld_freeLine l1 = Inr (l2, FreedPacket) \<and> ld_freeLine l2 = Inr (l2, FreedNothing)"
  using line_released_once [of "ld_new 0 lvpt_out_zero" "\<lparr>lp_size = 2, lp_data = [1, 2]\<rparr>" "''f''"]
  by (auto simp: ld_isFault_def ld_new_def)

lemma fi_bubbleFill_eq:
  assumes "unat (numInsts d) \<le> length (fi_insts d)"
  shows "fi_bubbleFill d = Inr (d\<lparr>fi_insts := replicate (unat (numInsts d)) (Some di_bubble) @
      drop (unat (numInsts d)) (fi_insts d)\<rparr>)"
proof -
  have "rfold (\<lambda>d i. rbind (vec_set (fi_insts d) i (Some di_bubble)) (\<lambda>xs. Inr (d\<lparr>fi_insts := xs\<rparr>)))
      d [0..<n] = Inr (d\<lparr>fi_insts := replicate n (Some di_bubble) @ drop n (fi_insts d)\<rparr>)"
    if "n \<le> length (fi_insts d)" for n
    using that
  proof (induction n)
    case (Suc n)
    then have "(replicate n (Some di_bubble) @ drop n (fi_insts d))[n := Some di_bubble] =
        replicate (Suc n) (Some di_bubble) @ drop (Suc n) (fi_insts d)"
      by (simp add: list_update_append Cons_nth_drop_Suc [symmetric] replicate_append_same
          replicate_app_Cons_same)
    with Suc show ?case by (simp add: rfold_append)
  qed simp
  with assms show ?thesis by (simp add: fi_bubbleFill_def)
qed

lemma fi_assign_eq:
  assumes "unat (numInsts src) \<le> length (fi_insts src)" "unat (numInsts src) \<le> length (fi_insts dest)"
  shows "fi_assign dest src = Inr (dest\<lparr>numInsts := numInsts src,
      fi_insts := take (unat (numInsts src)) (fi_insts src) @ drop (unat (numInsts src)) (fi_insts dest)\<rparr>)"
proof -
  let ?d = "dest\<lparr>numInsts := numInsts src\<rparr>"
  have "rfold (\<lambda>d i. rbind (vec_at (fi_insts src) i) (\<lambda>x.
                  rbind (vec_set (fi_insts d) i x) (\<lambda>xs. Inr (d\<lparr>fi_insts := xs\<rparr>)))) ?d [0..<n] =
      Inr (?d\<lparr>fi_insts := take n (fi_insts src) @ drop n (fi_insts dest)\<rparr>)"
    if "n \<le> length (fi_insts src)" "n \<le> length (fi_insts dest)" for n
    using that
  proof (induction n)
    case (Suc n)
    then have "(take n (fi_insts src) @ drop n (fi_insts dest))[n := fi_insts src ! n] =
        take (Suc n) (fi_insts src) @ drop (Suc n) (fi_insts dest)"
      by (simp add: list_update_append take_Suc_conv_app_nth Cons_nth_drop_Suc [symmetric])
    with Suc show ?case by (simp add: rfold_append)
  qed simp
  with assms show ?thesis by (simp add: fi_assign_def)
qed

text \<open>
  Copying an instruction packet. The copy has the same width, the same instructions in its
  valid slots and the same bubble status; the thread and the value-prediction fields are not
  copied: the thread keeps whatever the new object's storage held.
\<close>

lemma inst_packet_copy:
  assumes "length (fi_insts src) = MAX_FORWARD_INSTS" "unat (numInsts src) \<le> MAX_FORWARD_INSTS"
  shows "\<exists>d. fi_copy junk src = Inr d \<and> numInsts d = numInsts src \<and>
    (\<forall>i < unat (numInsts src). fi_inst d i = fi_inst src i) \<and> fi_isBubble d = fi_isBubble src \<and>
    fi_threadId d = junk \<and> fi_lvptOut d = lvpt_out_zero"
proof -
  let ?n = "unat (numInsts src)"
  let ?d = "\<lparr>fi_insts = take ?n (fi_insts src) @ drop ?n (replicate MAX_FORWARD_INSTS None),
    numInsts = numInsts src, fi_threadId = junk, fi_lvptOut = lvpt_out_zero\<rparr>"
  have d: "fi_copy junk src = Inr ?d"
    using assms fi_assign_eq [of src] by (simp add: fi_copy_def)
  have i: "fi_inst ?d i = fi_inst src i" if "i < ?n" for i
    using that assms by (simp add: fi_inst_def nth_append vec_at_def)
  have "fi_isBubble ?d = fi_isBubble src"
    using i [of 0] by (simp add: fi_isBubble_def unat_gt_0)
  with d i show ?thesis by simp
qed

lemma inst_packet_copy_witness:
  "\<exists>d. fi_copy 7 (fi_bubble 3) = Inr d \<and> fi_isBubble d = Inr True \<and> fi_threadId d = 7"
  using inst_packet_copy [of "fi_bubble 3" 7] by (auto simp: fi_bubble_def fi_isBubble_def)

text \<open>
  \<^verbatim>\<open>resize\<close> accepts every width below \<^verbatim>\<open>MAX_FORWARD_INSTS\<close> and fills the
  packet with bubbles; it rejects \<^verbatim>\<open>MAX_FORWARD_INSTS\<close> itself, which the constructor
  accepts and the comment on the constant calls the maximum number of instructions carried.
\<close>

lemma inst_packet_resize:
  assumes "length (fi_insts d) = MAX_FORWARD_INSTS"
  shows "(if unat w < MAX_FORWARD_INSTS
          then \<exists>d'. fi_resize d w = Inr d' \<and> numInsts d' = w \<and> fi_isBubble d' = Inr True \<and>
                 (\<forall>i < unat w. fi_inst d' i = Inr di_bubble)
          else fi_resize d w = Inl AssertFailed) \<and>
    (\<exists>d'. fi_new 16 tid = Inr d' \<and> numInsts d' = 16)"
proof
  show "\<exists>d'. fi_new 16 tid = Inr d' \<and> numInsts d' = 16"
    by (subst fi_new_def, subst fi_bubbleFill_eq) (simp_all add: MAX_FORWARD_INSTS_def)
  show "if unat w < MAX_FORWARD_INSTS
          then \<exists>d'. fi_resize d w = Inr d' \<and> numInsts d' = w \<and> fi_isBubble d' = Inr True \<and>
                 (\<forall>i < unat w. fi_inst d' i = Inr di_bubble)
          else fi_resize d w = Inl AssertFailed"
  proof (cases "unat w < MAX_FORWARD_INSTS")
    case True
    let ?d' = "d\<lparr>numInsts := w, fi_insts := replicate (unat w) (Some di_bubble) @ drop (unat w) (fi_insts d)\<rparr>"
    have r: "fi_resize d w = Inr ?d'" using True assms by (simp add: fi_resize_def fi_bubbleFill_eq)
    have i: "fi_inst ?d' i = Inr di_bubble" if "i < unat w" for i
      using that True assms by (simp add: fi_inst_def nth_append vec_at_def)
    have "fi_isBubble ?d' = Inr True"
      using i [of 0] by (cases "w = 0") (simp_all add: fi_isBubble_def unat_gt_0)
    with True r i show ?thesis by auto
  qed (simp add: fi_resize_def rassert_def)
qed

lemma inst_packet_resize_witness:
  "fi_resize (fi_bubble 0) 16 = Inl AssertFailed"
  using inst_packet_resize [of "fi_bubble 0" 16 0]
  by (simp add: fi_bubble_def MAX_FORWARD_INSTS_def)

end
