(* ===== verification/FuncUnit.thy ===== *)
theory FuncUnit
  imports PipeData
begin

unbundle bit_operations_syntax

text \<open>
  Functional units: \<^verbatim>\<open>cpu/func_unit.cc\<close> (\<open>func_unit\<close>, the capabilities of a unit) and
  \<^verbatim>\<open>cpu/myminor/func_unit.hh\<close> and \<^verbatim>\<open>func_unit.cc\<close> (\<open>opclass_set\<close>,
  \<open>fu_timing\<close>, \<open>fu_desc\<close> for the configuration objects, \<open>fu_pipe\<close> for
  \<^verbatim>\<open>FUPipeline\<close>). The number of operation classes, a generated enumeration, is the argument
  \<open>numOpClasses\<close>; \<^verbatim>\<open>timeSource.curCycle()\<close> is the argument \<open>cur\<close>; the machine
  instruction \<^verbatim>\<open>getEMI\<close> returns is the argument \<open>emi\<close>.
\<close>

section \<open>Capabilities\<close>

record func_unit =
  opLatencies :: "u32 list"
  fu_pipelined :: "bool list"
  capabilityList :: "bool list"

definition func_unit_new :: "nat \<Rightarrow> func_unit" where
  "func_unit_new numOpClasses =
     \<lparr>opLatencies = replicate numOpClasses 0, fu_pipelined = replicate numOpClasses False,
      capabilityList = replicate numOpClasses False\<rparr>"

definition func_unit_addCapability :: "func_unit \<Rightarrow> nat \<Rightarrow> u32 \<Rightarrow> bool \<Rightarrow> func_unit result" where
  "func_unit_addCapability fu cap oplat pipeline =
     (if oplat = 0 then Inl Panic
      else rbind (vec_set (capabilityList fu) cap True) (\<lambda>cl.
        rbind (vec_set (opLatencies fu) cap oplat) (\<lambda>ls.
        rbind (vec_set (fu_pipelined fu) cap pipeline) (\<lambda>ps.
        Inr (fu\<lparr>capabilityList := cl, opLatencies := ls, fu_pipelined := ps\<rparr>)))))"

definition func_unit_provides :: "func_unit \<Rightarrow> nat \<Rightarrow> bool result" where
  "func_unit_provides fu cap = vec_at (capabilityList fu) cap"

definition func_unit_opLatency :: "func_unit \<Rightarrow> nat \<Rightarrow> u32 result" where
  "func_unit_opLatency fu cap = vec_at (opLatencies fu) cap"

definition func_unit_isPipelined :: "func_unit \<Rightarrow> nat \<Rightarrow> bool result" where
  "func_unit_isPipelined fu cap = vec_at (fu_pipelined fu) cap"

section \<open>Configuration\<close>

record opclass_set =
  ocs_opClasses :: "nat list"
  ocs_capabilityList :: "bool list"

definition opclass_set_new :: "nat \<Rightarrow> nat list \<Rightarrow> opclass_set result" where
  "opclass_set_new numOpClasses opClasses =
     rbind (rfold (\<lambda>cl c. vec_set cl c True) (replicate numOpClasses (opClasses = [])) opClasses) (\<lambda>cl.
     Inr \<lparr>ocs_opClasses = opClasses, ocs_capabilityList = cl\<rparr>)"

definition opclass_set_provides :: "opclass_set \<Rightarrow> nat \<Rightarrow> bool result" where
  "opclass_set_provides s op_class = vec_at (ocs_capabilityList s) op_class"

record fu_timing =
  ft_mask :: u64
  ft_match :: u64
  ft_suppress :: bool
  ft_extraCommitLat :: u64
  ft_extraCommitLatExpr :: "nat option"
  ft_extraAssumedLat :: u64
  ft_srcRegsRelativeLats :: "u64 list"
  ft_opClasses :: opclass_set

definition fu_timing_provides :: "fu_timing \<Rightarrow> nat \<Rightarrow> bool result" where
  "fu_timing_provides t op_class = opclass_set_provides (ft_opClasses t) op_class"

record fu_desc =
  fd_opClasses :: opclass_set
  fd_opLat :: u64
  fd_issueLat :: u64
  fd_cantForwardFromFUIndices :: "nat list"
  fd_timings :: "fu_timing list"

section \<open>Pipelines\<close>

record queued_inst =
  qi_inst :: dyn_inst

definition qi_isBubble :: "queued_inst \<Rightarrow> bool" where
  "qi_isBubble q = di_isBubble (qi_inst q)"

definition qi_bubble :: queued_inst where
  "qi_bubble = \<lparr>qi_inst = di_bubble\<rparr>"

definition qi_reportData :: "queued_inst \<Rightarrow> string" where
  "qi_reportData q = di_reportData (qi_inst q)"

record fu_pipe =
  fp_pipe :: "queued_inst ssp"
  fp_unit :: func_unit
  fp_desc :: fu_desc
  fp_cantForward :: "bool list"
  nextInsertCycle :: u64

definition vec_resize :: "'a list \<Rightarrow> nat \<Rightarrow> 'a \<Rightarrow> 'a list" where
  "vec_resize xs n d = take n xs @ replicate (n - length xs) d"

definition fu_cantForward :: "nat list \<Rightarrow> bool list result" where
  "fu_cantForward cant_forward =
     rfold (\<lambda>bits i. vec_set (vec_resize bits (i + 1) False) i True) [] cant_forward"

definition fu_pipe_new :: "nat \<Rightarrow> fu_desc \<Rightarrow> fu_pipe result" where
  "fu_pipe_new numOpClasses desc =
     rbind (ssp_new qi_bubble qi_bubble (unat (fd_opLat desc))) (\<lambda>p.
     rbind (func_unit_addCapability (func_unit_new numOpClasses) No_OpClass (ucast (fd_opLat desc)) True) (\<lambda>fu.
     rbind (rfold (\<lambda>fu c. func_unit_addCapability fu c (ucast (fd_opLat desc)) True) fu
              (ocs_opClasses (fd_opClasses desc))) (\<lambda>fu.
     rbind (fu_cantForward (fd_cantForwardFromFUIndices desc)) (\<lambda>bits.
     Inr \<lparr>fp_pipe = p, fp_unit = fu, fp_desc = desc, fp_cantForward = bits, nextInsertCycle = 0\<rparr>))))"

definition fu_cyclesBeforeInsert :: "u64 \<Rightarrow> fu_pipe \<Rightarrow> u64" where
  "fu_cyclesBeforeInsert cur p =
     (if nextInsertCycle p = 0 \<or> cur > nextInsertCycle p then 0 else nextInsertCycle p - cur)"

definition fu_canInsert :: "u64 \<Rightarrow> fu_pipe \<Rightarrow> bool" where
  "fu_canInsert cur p \<longleftrightarrow> nextInsertCycle p = 0 \<or> cur \<ge> nextInsertCycle p"

definition fu_advance :: "u64 \<Rightarrow> fu_pipe \<Rightarrow> fu_pipe result" where
  "fu_advance cur p =
     (let was_stalled = ssp_stalled (fp_pipe p) in
      rbind (ssp_alreadyPushed qi_isBubble (fp_pipe p)) (\<lambda>pushed.
      let next = (if pushed then
                    if nextInsertCycle p \<le> cur then cur + fd_issueLat (fp_desc p) else nextInsertCycle p
                  else if was_stalled \<and> nextInsertCycle p \<noteq> 0 then nextInsertCycle p + 1
                  else nextInsertCycle p) in
      rbind (ssp_advance qi_isBubble qi_bubble qi_bubble (fp_pipe p)) (\<lambda>q.
      Inr (p\<lparr>nextInsertCycle := next, fp_pipe := q\<rparr>))))"

fun fu_findTiming_loop :: "nat \<Rightarrow> u64 \<Rightarrow> fu_timing list \<Rightarrow> (fu_timing option) result" where
  "fu_findTiming_loop opClass mach_inst [] = Inr None"
| "fu_findTiming_loop opClass mach_inst (t # ts) =
     rbind (fu_timing_provides t opClass) (\<lambda>prov.
     if prov \<and> (mach_inst AND ft_mask t) = ft_match t then Inr (Some t)
     else fu_findTiming_loop opClass mach_inst ts)"

definition fu_findTiming :: "u64 \<Rightarrow> fu_pipe \<Rightarrow> static_inst \<Rightarrow> (fu_timing option) result" where
  "fu_findTiming emi p inst = fu_findTiming_loop (si_opClass inst) emi (fd_timings (fp_desc p))"

interpretation qib: bubble_traits qi_isBubble qi_bubble
  by unfold_locales (simp add: qi_isBubble_def qi_bubble_def)

section \<open>Forwarding restrictions\<close>

lemma vec_resize_length [simp]: "length (vec_resize xs n d) = n"
  by (simp add: vec_resize_def)

lemma vec_resize_nth: "j < n \<Longrightarrow> vec_resize xs n d ! j = (if j < length xs then xs ! j else d)"
  by (auto simp: vec_resize_def nth_append)



section \<open>Insertion\<close>

text \<open>
  \<^verbatim>\<open>canInsert\<close> and \<^verbatim>\<open>cyclesBeforeInsert\<close> agree: an instruction can be inserted
  exactly when the number of cycles to wait is zero; and when it is not zero, insertion becomes
  possible exactly that many cycles later and not a cycle earlier.
\<close>

lemma fu_insert_wait:
  "(fu_canInsert cur p \<longleftrightarrow> fu_cyclesBeforeInsert cur p = 0) \<and>
   (\<forall>d. unat cur + d < 2 ^ 64 \<longrightarrow>
     (fu_canInsert (cur + of_nat d) p \<longleftrightarrow> fu_canInsert cur p \<or> unat (fu_cyclesBeforeInsert cur p) \<le> d))"
proof (cases "nextInsertCycle p = 0 \<or> cur > nextInsertCycle p")
  case True
  have "fu_canInsert (cur + of_nat d) p" if "unat cur + d < 2 ^ 64" for d
    using True that unat_add_of_nat [of cur d]
    by (auto simp: fu_canInsert_def word_le_nat_alt word_less_nat_alt)
  with True show ?thesis
    by (auto simp: fu_canInsert_def fu_cyclesBeforeInsert_def word_le_nat_alt word_less_nat_alt)
next
  case False
  then have le: "cur \<le> nextInsertCycle p" by auto
  then have u: "unat (nextInsertCycle p - cur) = unat (nextInsertCycle p) - unat cur"
    by (rule unat_sub)
  have "fu_canInsert (cur + of_nat d) p \<longleftrightarrow> unat (nextInsertCycle p) - unat cur \<le> d"
    if "unat cur + d < 2 ^ 64" for d
    using False that unat_add_of_nat [of cur d] le
    by (auto simp: fu_canInsert_def word_le_nat_alt)
  with False le u show ?thesis
    by (auto simp: fu_canInsert_def fu_cyclesBeforeInsert_def)
qed

lemma fu_insert_wait_witness:
  "\<exists>p. fu_cyclesBeforeInsert 5 p = 3 \<and> \<not> fu_canInsert (5 + of_nat 2) p \<and> fu_canInsert (5 + of_nat 3) p"
proof -
  obtain p0 where p0: "fu_pipe_new 1 \<lparr>fd_opClasses = \<lparr>ocs_opClasses = [], ocs_capabilityList = []\<rparr>,
      fd_opLat = 1, fd_issueLat = 1, fd_cantForwardFromFUIndices = [], fd_timings = []\<rparr> = Inr p0"
    using ssp_new_ok [of 1 qi_isBubble qi_bubble qi_bubble] qib.bubble_law
    by (auto simp: fu_pipe_new_def func_unit_addCapability_def func_unit_new_def No_OpClass_def fu_cantForward_def)
  let ?p = "p0\<lparr>nextInsertCycle := 8\<rparr>"
  have c: "fu_cyclesBeforeInsert 5 ?p = 3" by (simp add: fu_cyclesBeforeInsert_def)
  from fu_insert_wait [of 5 ?p] have "\<not> fu_canInsert 5 ?p" using c by simp
  with c fu_insert_wait [of 5 ?p] have "\<not> fu_canInsert (5 + of_nat 2) ?p" "fu_canInsert (5 + of_nat 3) ?p"
    by (auto dest: spec [of _ 2] spec [of _ 3])
  with c show ?thesis by blast
qed

text \<open>
  Issue spacing. Advance a unit in the cycle an instruction was pushed and no earlier issue is
  still being waited for: the advance succeeds, and the next instruction can be inserted from
  \<open>issueLat\<close> cycles later on, not before. A stall that keeps an element at the end of the
  pipeline postpones a pending insertion by one cycle per advance.
\<close>

lemma fu_issue_spacing:
  assumes "ssp_wf qi_isBubble (fp_pipe p)" "cur > 0"
    and "unat cur + unat (fd_issueLat (fp_desc p)) < 2 ^ 64"
  shows "(\<not> qi_isBubble (last (ssp_slots (fp_pipe p))) \<and> nextInsertCycle p \<le> cur \<longrightarrow>
      (\<exists>p'. fu_advance cur p = Inr p' \<and> ssp_wf qi_isBubble (fp_pipe p') \<and>
        (\<forall>t. fu_canInsert t p' \<longleftrightarrow> unat cur + unat (fd_issueLat (fp_desc p)) \<le> unat t))) \<and>
    (qi_isBubble (last (ssp_slots (fp_pipe p))) \<and> ssp_stalled (fp_pipe p) \<and> nextInsertCycle p \<noteq> 0 \<longrightarrow>
      (\<exists>p'. fu_advance cur p = Inr p' \<and> fp_pipe p' = fp_pipe p \<and>
        nextInsertCycle p' = nextInsertCycle p + 1))"
proof -
  from ssp_advance_ok [OF assms(1) qib.bubble_law, of qi_bubble] obtain q where
    q: "ssp_advance qi_isBubble qi_bubble qi_bubble (fp_pipe p) = Inr q" "ssp_wf qi_isBubble q"
    "ssp_stalled (fp_pipe p) \<Longrightarrow> q = fp_pipe p" by (auto split: if_splits)
  let ?next = "cur + fd_issueLat (fp_desc p)"
  have n: "unat ?next = unat cur + unat (fd_issueLat (fp_desc p))"
    using unat_add_of_nat [of cur "unat (fd_issueLat (fp_desc p))"] assms(3) by simp
  have nz: "?next \<noteq> 0"
  proof
    assume "?next = 0"
    then have "unat ?next = 0" by simp
    with n assms(2) show False by (simp add: word_less_nat_alt)
  qed
  show ?thesis
    using q ssp_wires(1) [OF assms(1)] n nz
    by (auto simp: fu_advance_def ssp_alreadyPushed_def Let_def fu_canInsert_def word_le_nat_alt)
qed

definition fu_ex_desc :: fu_desc where
  "fu_ex_desc = \<lparr>fd_opClasses = \<lparr>ocs_opClasses = [], ocs_capabilityList = [True, True]\<rparr>,
     fd_opLat = 3, fd_issueLat = 2, fd_cantForwardFromFUIndices = [], fd_timings = []\<rparr>"

lemma fu_ex_pipe: "\<exists>p. fu_pipe_new 2 fu_ex_desc = Inr p \<and> ssp_wf qi_isBubble (fp_pipe p) \<and>
  fp_desc p = fu_ex_desc \<and> nextInsertCycle p = 0 \<and> ssp_slots (fp_pipe p) = replicate 4 qi_bubble"
proof -
  obtain q where q: "ssp_new qi_bubble qi_bubble 3 = Inr q" "ssp_wf qi_isBubble q"
    "ssp_slots q = replicate (Suc 3) qi_bubble"
    using ssp_new_ok [of 3 qi_isBubble qi_bubble qi_bubble] qib.bubble_law by auto
  moreover have "Suc 3 = (4::nat)" by simp
  ultimately show ?thesis
    by (simp add: fu_pipe_new_def fu_ex_desc_def func_unit_addCapability_def func_unit_new_def
        No_OpClass_def fu_cantForward_def del: replicate_Suc)
qed

lemma fu_issue_spacing_witness:
  "\<exists>p p'. fp_desc p = fu_ex_desc \<and> fu_advance 5 p = Inr p' \<and> \<not> fu_canInsert 6 p' \<and> fu_canInsert 7 p'"
proof -
  let ?q = "\<lparr>qi_inst = di_bubble\<lparr>di_id := inst_id_zero\<lparr>fetchSeqNum := 1\<rparr>\<rparr>\<rparr>"
  obtain p :: fu_pipe where p: "ssp_wf qi_isBubble (fp_pipe p)" "fp_desc p = fu_ex_desc" "nextInsertCycle p = 0"
    "ssp_slots (fp_pipe p) = replicate 4 qi_bubble" using fu_ex_pipe by blast
  have "qi_isBubble (last (ssp_slots (fp_pipe p)))" using p(4) qib.bubble_law by simp
  from ssp_push_ok [OF p(1) this, of ?q] obtain r where
    r: "ssp_wf qi_isBubble r" "ssp_slots r = butlast (ssp_slots (fp_pipe p)) @ [?q]" by blast
  have "\<not> qi_isBubble (last (ssp_slots r))" using r(2) by (simp add: qi_isBubble_def di_isBubble_def)
  with fu_issue_spacing [of "p\<lparr>fp_pipe := r\<rparr>" 5] r(1) p(2,3) obtain p' where
    "fu_advance 5 (p\<lparr>fp_pipe := r\<rparr>) = Inr p'" "\<forall>t. fu_canInsert t p' \<longleftrightarrow> 7 \<le> unat t"
    by (auto simp: fu_ex_desc_def)
  then show ?thesis using p(2) by (intro exI [of _ "p\<lparr>fp_pipe := r\<rparr>"] exI [of _ p']) simp
qed

section \<open>Capabilities of a unit\<close>

lemma func_unit_caps_loop:
  assumes "length (capabilityList fu) = n" "length (opLatencies fu) = n" "length (fu_pipelined fu) = n"
    and "lat \<noteq> 0" "\<forall>c \<in> set cs. c < n"
  shows "\<exists>fu'. rfold (\<lambda>fu c. func_unit_addCapability fu c lat True) fu cs = Inr fu' \<and>
    length (capabilityList fu') = n \<and>
    (\<forall>c < n. capabilityList fu' ! c \<longleftrightarrow> capabilityList fu ! c \<or> c \<in> set cs)"
  using assms
proof (induction cs arbitrary: fu)
  case (Cons x cs)
  let ?fu = "fu\<lparr>capabilityList := (capabilityList fu)[x := True], opLatencies := (opLatencies fu)[x := lat],
    fu_pipelined := (fu_pipelined fu)[x := True]\<rparr>"
  have s: "func_unit_addCapability fu x lat True = Inr ?fu"
    using Cons.prems by (simp add: func_unit_addCapability_def)
  from Cons.IH [of ?fu] Cons.prems obtain fu' where
    "rfold (\<lambda>fu c. func_unit_addCapability fu c lat True) ?fu cs = Inr fu'" "length (capabilityList fu') = n"
    "\<forall>c < n. capabilityList fu' ! c \<longleftrightarrow> capabilityList ?fu ! c \<or> c \<in> set cs" by auto
  with s Cons.prems(1) show ?case by (auto simp: nth_update_if split: if_splits)
qed simp

text \<open>
  What a functional unit provides. A unit's pipeline provides exactly the no-op class and the
  classes listed in its set. In particular a set configured with an empty list, which on its own
  reports every class as provided, makes a pipeline that provides nothing but no-ops.
\<close>

lemma fu_pipe_provides:
  assumes "fu_pipe_new n desc = Inr p" "c < n" "\<forall>k \<in> set (ocs_opClasses (fd_opClasses desc)). k < n"
  shows "func_unit_provides (fp_unit p) c =
      Inr (c = No_OpClass \<or> c \<in> set (ocs_opClasses (fd_opClasses desc))) \<and>
    (\<exists>s. opclass_set_new n [] = Inr s \<and> opclass_set_provides s c = Inr True)"
proof -
  let ?lat = "ucast (fd_opLat desc) :: u32" and ?cs = "ocs_opClasses (fd_opClasses desc)"
  from assms(1) obtain fu fu' where
    fu: "func_unit_addCapability (func_unit_new n) No_OpClass ?lat True = Inr fu"
    "rfold (\<lambda>fu c. func_unit_addCapability fu c ?lat True) fu ?cs = Inr fu'" "fp_unit p = fu'"
    by (auto simp: fu_pipe_new_def rbind_Inr_iff)
  from fu(1) have nz: "?lat \<noteq> 0" and len: "length (capabilityList fu) = n" "length (opLatencies fu) = n"
    "length (fu_pipelined fu) = n" and cap: "\<forall>c < n. capabilityList fu ! c \<longleftrightarrow> c = No_OpClass"
    by (auto simp: func_unit_addCapability_def func_unit_new_def rbind_Inr_iff vec_set_Inr_iff
        nth_list_update split: if_splits)
  from func_unit_caps_loop [OF len nz assms(3)] fu(2,3) cap assms(2)
  show ?thesis by (auto simp: func_unit_provides_def opclass_set_new_def opclass_set_provides_def)
qed

lemma fu_pipe_provides_witness:
  "\<exists>p. fu_pipe_new 2 fu_ex_desc = Inr p \<and> func_unit_provides (fp_unit p) 1 = Inr False"
proof -
  obtain p where p: "fu_pipe_new 2 fu_ex_desc = Inr p" using fu_ex_pipe by blast
  with fu_pipe_provides [OF p, of 1] show ?thesis by (simp add: fu_ex_desc_def No_OpClass_def)
qed

end
