(* ===== verification/IntMath.thy ===== *)
theory IntMath
  imports Prelude
begin

unbundle bit_operations_syntax

text \<open>
  The integer helpers of \<^verbatim>\<open>base/intmath.hh\<close> at the widths the simulator uses them with:
  \<open>floorLog2\<close> and \<open>ceilLog2\<close> for an unsigned type of \<open>ts\<close> bytes widened to 64 bits, the
  power-of-two test, rounding to an alignment, and the 64 by 64 bit multiplication that yields
  a 128 bit product in two halves without a wider type.
\<close>

definition floorLog2_step :: "bool \<Rightarrow> u64 \<Rightarrow> nat \<Rightarrow> nat \<times> u64 \<Rightarrow> nat \<times> u64" where
  "floorLog2_step en m k s = (case s of (y, ux) \<Rightarrow> if en \<and> ux AND m \<noteq> 0 then (y + k, drop_bit k ux) else (y, ux))"

definition floorLog2 :: "nat \<Rightarrow> u64 \<Rightarrow> nat result" where
  "floorLog2 ts x =
     rbind (rassert (x > 0)) (\<lambda>_.
       let s = floorLog2_step (ts \<ge> 8) 0xffffffff00000000 32 (0, x);
           s = floorLog2_step (ts \<ge> 4) 0x00000000ffff0000 16 s;
           s = floorLog2_step (ts \<ge> 2) 0x000000000000ff00 8 s;
           s = floorLog2_step True 0xf0 4 s;
           s = floorLog2_step True 0x0c 2 s
       in Inr (if snd s AND 2 \<noteq> 0 then fst s + 1 else fst s))"

definition ceilLog2 :: "nat \<Rightarrow> u64 \<Rightarrow> nat result" where
  "ceilLog2 ts n =
     rbind (rassert (n > 0)) (\<lambda>_.
       if n = 1 then Inr 0 else rbind (floorLog2 ts (n - 1)) (\<lambda>y. Inr (y + 1)))"

definition isPowerOf2 :: "'a::len word \<Rightarrow> bool" where
  "isPowerOf2 n \<longleftrightarrow> n \<noteq> 0 \<and> n AND (n - 1) = 0"

definition divCeil :: "'a::len word \<Rightarrow> 'a word \<Rightarrow> 'a word result" where
  "divCeil a b = (if b = 0 then Inl Undefined else Inr ((a + b - 1) div b))"

definition roundUp :: "u64 \<Rightarrow> u64 \<Rightarrow> u64 result" where
  "roundUp val align =
     rbind (rassert (isPowerOf2 align)) (\<lambda>_. let m = align - 1 in Inr ((val + m) AND NOT m))"

definition roundDown :: "u64 \<Rightarrow> u64 \<Rightarrow> u64 result" where
  "roundDown val align =
     rbind (rassert (isPowerOf2 align)) (\<lambda>_. let m = align - 1 in Inr (val AND NOT m))"

text \<open>The products, as the pair of the high and the low half.\<close>

definition mulUnsigned32 :: "u32 \<Rightarrow> u32 \<Rightarrow> u32 \<times> u32" where
  "mulUnsigned32 val_a val_b =
     (let product = (ucast val_a :: u64) * ucast val_b in (ucast (drop_bit 32 product), ucast product))"

definition mulUnsignedManual :: "u64 \<Rightarrow> u64 \<Rightarrow> u64 \<times> u64" where
  "mulUnsignedManual val_a val_b =
     (let low = val_a * val_b;
          A = ucast (ucast (drop_bit 32 val_a) :: u32) :: u64;
          a = ucast (ucast val_a :: u32) :: u64;
          B = ucast (ucast (drop_bit 32 val_b) :: u32) :: u64;
          b = ucast (ucast val_b :: u32) :: u64;
          ab = a * b; Ab = A * b; aB = a * B; AB = A * B;
          c1 = ucast (ucast (drop_bit 32 ab) :: u32) :: u64;
          c2 = drop_bit 1 c1 + drop_bit 1 Ab + drop_bit 1 aB;
          c2 = c2 + drop_bit 1 ((c1 AND 1) + (Ab AND 1) + (aB AND 1));
          c2 = drop_bit 31 c2
      in (AB + c2, low))"

text \<open>Signed operands and results as their bit patterns.\<close>

definition mulSignedManual :: "u64 \<Rightarrow> u64 \<Rightarrow> u64 \<times> u64" where
  "mulSignedManual val_a val_b =
     (let (u_high, u_low) = mulUnsignedManual val_a val_b;
          u_high = (if sint val_a < 0 then u_high - val_b else u_high);
          u_high = (if sint val_b < 0 then u_high - val_a else u_high)
      in (u_high, u_low))"

section \<open>Logarithms\<close>

lemma flog2_div: "2 ^ k \<le> n \<Longrightarrow> flog2 n = k + flog2 (n div 2 ^ k)"
proof (induction k arbitrary: n)
  case (Suc k)
  then have "2 ^ k \<le> n div 2" by (simp add: less_eq_div_iff_mult_less_eq mult.commute)
  moreover have "\<not> n \<le> 1"
  proof -
    have "1 \<le> (2::nat) ^ k" by simp
    with Suc.prems show ?thesis unfolding power_Suc by linarith
  qed
  moreover have "n div 2 div 2 ^ k = n div 2 ^ Suc k" by (simp add: div_mult2_eq)
  ultimately show ?case using Suc.IH [of "n div 2"] by (simp add: flog2.simps [of n])
qed simp

lemma and_high_half_zero:
  assumes "unat (x :: u64) < 2 ^ (2 * k)" "2 * k \<le> 64"
  shows "x AND push_bit k (mask k) = 0 \<longleftrightarrow> unat x < 2 ^ k"
proof -
  have d: "unat (drop_bit k x) < 2 ^ k"
    using assms(1) by (simp add: unat_drop_bit_div less_mult_imp_div_less power_add mult_2)
  have "x AND push_bit k (mask k) = push_bit k (drop_bit k x AND mask k)"
    by (rule bit_word_eqI) (auto simp: bit_simps)
  also have "drop_bit k x AND mask k = drop_bit k x"
    using d by (simp add: unat_and_mask word_unat_eq_iff)
  finally have eq: "x AND push_bit k (mask k) = push_bit k (drop_bit k x)" .
  have "push_bit k (drop_bit k x) = 0 \<longleftrightarrow> drop_bit k x = 0"
  proof
    assume "push_bit k (drop_bit k x) = 0"
    then have "drop_bit k (push_bit k (drop_bit k x)) = 0" by simp
    moreover have "drop_bit k (push_bit k (drop_bit k x)) = drop_bit k x"
      using assms(2) by (intro bit_word_eqI) (auto simp: bit_simps dest: bit_imp_le_length)
    ultimately show "drop_bit k x = 0" by simp
  qed simp
  also have "\<dots> \<longleftrightarrow> unat x < 2 ^ k"
    by (simp add: word_unat_eq_iff unat_drop_bit_div div_eq_0_iff)
  finally show ?thesis unfolding eq .
qed

lemma floorLog2_step_inv:
  assumes "x \<noteq> 0" "unat x < 2 ^ (2 * k)" "\<not> en \<Longrightarrow> unat x < 2 ^ k" "2 * k \<le> 64"
    and "m = push_bit k (mask k)"
  obtains y' x' where "floorLog2_step en m k (y, x) = (y', x')" "x' \<noteq> 0" "unat x' < 2 ^ k" "unat x' \<le> unat x"
    "y' + flog2 (unat x') = y + flog2 (unat x)"
proof (cases "unat x < 2 ^ k")
  case True
  then show ?thesis using that and_high_half_zero [OF assms(2,4)] assms by (simp add: floorLog2_step_def)
next
  case False
  then have le: "2 ^ k \<le> unat x" by simp
  have "drop_bit k x \<noteq> 0" using le by (simp add: word_unat_eq_iff unat_drop_bit_div div_eq_0_iff)
  moreover have "unat (drop_bit k x) < 2 ^ k"
    using assms(2) by (simp add: unat_drop_bit_div less_mult_imp_div_less power_add mult_2)
  moreover have "unat (drop_bit k x) \<le> unat x" by (simp add: unat_drop_bit_div)
  moreover have "floorLog2_step en m k (y, x) = (y + k, drop_bit k x)"
    using and_high_half_zero [OF assms(2,4)] False assms by (auto simp: floorLog2_step_def)
  moreover have "y + k + flog2 (unat (drop_bit k x)) = y + flog2 (unat x)"
    using flog2_div [OF le] by (simp add: unat_drop_bit_div)
  ultimately show ?thesis using that by blast
qed

lemma floorLog2_flog2:
  assumes "0 < x" "ts \<in> {1, 2, 4, 8}" "unat x < 2 ^ (8 * ts)"
  shows "floorLog2 ts x = Inr (flog2 (unat x))"
proof -
  have x: "x \<noteq> 0" "unat x < 2 ^ (2 * 32)" using assms(1) unsigned_less [of x] by auto
  have small: "unat x < 2 ^ 32" if "\<not> 8 \<le> ts" using assms(2,3) that by auto
  have small2: "unat x < 2 ^ 16" if "\<not> 4 \<le> ts" using assms(2,3) that by auto
  have small3: "unat x < 2 ^ 8" if "\<not> 2 \<le> ts" using assms(2,3) that by auto
  note push = push_bit_eq_mult mask_eq_exp_minus_1
  obtain y1 x1 where 1: "floorLog2_step (8 \<le> ts) 0xffffffff00000000 32 (0, x) = (y1, x1)"
      "x1 \<noteq> 0" "unat x1 < 2 ^ 32" "unat x1 \<le> unat x" "y1 + flog2 (unat x1) = flog2 (unat x)"
    by (rule floorLog2_step_inv [of x 32 "8 \<le> ts" "0xffffffff00000000" 0]) (use x small in \<open>auto simp: push\<close>)
  obtain y2 x2 where 2: "floorLog2_step (4 \<le> ts) 0xffff0000 16 (y1, x1) = (y2, x2)"
      "x2 \<noteq> 0" "unat x2 < 2 ^ 16" "unat x2 \<le> unat x1" "y2 + flog2 (unat x2) = y1 + flog2 (unat x1)"
    by (rule floorLog2_step_inv [of x1 16 "4 \<le> ts" "0xffff0000" y1]) (use 1 small2 in \<open>auto simp: push\<close>)
  obtain y3 x3 where 3: "floorLog2_step (2 \<le> ts) 0xff00 8 (y2, x2) = (y3, x3)"
      "x3 \<noteq> 0" "unat x3 < 2 ^ 8" "unat x3 \<le> unat x2" "y3 + flog2 (unat x3) = y2 + flog2 (unat x2)"
    by (rule floorLog2_step_inv [of x2 8 "2 \<le> ts" "0xff00" y2]) (use 1 2 small3 in \<open>auto simp: push\<close>)
  obtain y4 x4 where 4: "floorLog2_step True 0xf0 4 (y3, x3) = (y4, x4)"
      "x4 \<noteq> 0" "unat x4 < 2 ^ 4" "y4 + flog2 (unat x4) = y3 + flog2 (unat x3)"
    by (rule floorLog2_step_inv [of x3 4 True "0xf0" y3]) (use 3 in \<open>auto simp: push\<close>)
  obtain y5 x5 where 5: "floorLog2_step True 0xc 2 (y4, x4) = (y5, x5)"
      "x5 \<noteq> 0" "unat x5 < 2 ^ 2" "y5 + flog2 (unat x5) = y4 + flog2 (unat x4)"
    by (rule floorLog2_step_inv [of x4 2 True "0xc" y4]) (use 4 in \<open>auto simp: push\<close>)
  obtain y6 x6 where 6: "floorLog2_step True 2 1 (y5, x5) = (y6, x6)"
      "x6 \<noteq> 0" "unat x6 < 2 ^ 1" "y6 + flog2 (unat x6) = y5 + flog2 (unat x5)"
    by (rule floorLog2_step_inv [of x5 1 True 2 y5]) (use 5 in \<open>auto simp: push\<close>)
  then have "unat x6 \<le> 1" by simp
  then have "flog2 (unat x6) = 0" by (simp add: flog2.simps [of "unat x6"])
  moreover have "y6 = (if x5 AND 2 \<noteq> 0 then y5 + 1 else y5)"
    using 6(1) by (auto simp: floorLog2_step_def split: if_splits)
  ultimately show ?thesis
    using 1 2 3 4 5 6 assms(1) by (simp add: floorLog2_def Let_def split: if_splits)
qed

section \<open>Alignment\<close>

lemma isPowerOf2_flog2:
  assumes "isPowerOf2 (n :: 'a::len word)"
  shows "unat n = 2 ^ flog2 (unat n)"
proof (rule ccontr)
  let ?k = "flog2 (unat n)"
  assume ne: "unat n \<noteq> 2 ^ ?k"
  have n0: "n \<noteq> 0" and az: "n AND (n - 1) = 0" using assms by (auto simp: isPowerOf2_def)
  then have pos: "0 < unat n" by (simp add: unat_gt_0)
  note b = flog2_bounds [OF pos]
  have u1: "unat (n - 1) = unat n - 1" using n0 by (rule unat_minus_one)
  have "unat n div 2 ^ ?k = 1" by (rule div_nat_eqI) (use b in auto)
  moreover have "unat (n - 1) div 2 ^ ?k = 1" unfolding u1 by (rule div_nat_eqI) (use b ne in auto)
  ultimately have "bit (unat n) ?k" "bit (unat (n - 1)) ?k" by (simp_all add: bit_iff_odd)
  then have "bit (n AND (n - 1)) ?k" by (simp add: bit_unsigned_iff bit_and_iff)
  with az show False by simp
qed


lemma and_not_mask_div: "unat (x AND NOT (mask k) :: u64) = unat x div 2 ^ k * 2 ^ k"
proof -
  have "x AND NOT (mask k) = push_bit k (drop_bit k x)"
    by (rule bit_word_eqI) (auto simp: bit_simps)
  moreover have "unat (push_bit k (drop_bit k x)) = take_bit 64 (push_bit k (unat (drop_bit k x)))"
    by (simp add: unsigned_push_bit_eq)
  moreover have "push_bit k (unat (drop_bit k x)) = unat x div 2 ^ k * 2 ^ k"
    by (simp add: push_bit_eq_mult unat_drop_bit_div)
  moreover have "unat x div 2 ^ k * 2 ^ k < 2 ^ 64"
    using unat64_less [of x] div_times_less_eq_dividend [of "unat x" "2 ^ k"] by (rule le_less_trans [rotated])
  ultimately show ?thesis by (simp add: take_bit_nat_eq_self)
qed

lemma isPowerOf2_mask:
  assumes "isPowerOf2 (n :: 'a::len word)"
  shows "n - 1 = mask (flog2 (unat n))"
proof -
  have "n = of_nat (unat n)" by simp
  also have "\<dots> = 2 ^ flog2 (unat n)" by (subst isPowerOf2_flog2 [OF assms]) simp
  finally show ?thesis by (simp add: mask_eq_exp_minus_1)
qed

lemma round_exact:
  assumes "isPowerOf2 align" "unat val + unat align \<le> 2 ^ 64"
  shows "\<exists>u d. roundUp val align = Inr u \<and> roundDown val align = Inr d \<and>
     unat d = unat val div unat align * unat align \<and>
     unat u = (unat val + unat align - 1) div unat align * unat align"
proof -
  let ?k = "flog2 (unat align)"
  have pos: "0 < unat align" using assms(1) by (simp add: isPowerOf2_def unat_gt_0)
  have al: "unat align = 2 ^ ?k" by (rule isPowerOf2_flog2 [OF assms(1)])
  have u1: "unat (align - 1) = unat align - 1"
    using assms(1) by (intro unat_minus_one) (auto simp: isPowerOf2_def)
  have "unat (val + (align - 1)) = unat val + unat align - 1"
    using assms(2) pos u1 by (subst unat_add_lem [THEN iffD1]) auto
  then show ?thesis
    using assms(1) and_not_mask_div [of val ?k] and_not_mask_div [of "val + (align - 1)" ?k]
    by (simp add: roundUp_def roundDown_def Let_def isPowerOf2_mask flip: al)
qed

text \<open>A masked index of a table whose mask is one below its size is in range.\<close>

lemma masked_index_less:
  assumes "0 < n" "m = n - 1"
  shows "(ucast (x AND ucast (m :: u32) :: u64) :: u32) < n"
proof -
  have "x AND ucast m \<le> ucast m" by (rule word_and_le1)
  then have "unat (x AND ucast m) \<le> unat m" by (simp add: word_le_nat_alt unat_ucast_32_64)
  moreover have "unat (ucast (x AND ucast m) :: u32) \<le> unat (x AND ucast m)"
    by (simp add: unsigned_ucast_eq take_bit_nat_less_eq_self)
  moreover have "unat m < unat n" using assms by (simp add: unat_minus_one word_gt_0 unat_gt_0)
  ultimately show ?thesis by (simp add: word_less_nat_alt)
qed

section \<open>Wide products\<close>

lemma half_sum3: "x div 2 + y div 2 + z div 2 + (x mod 2 + y mod 2 + z mod 2) div 2 = (x + y + z) div (2::nat)"
proof -
  have "x + y + z = (x mod 2 + y mod 2 + z mod 2) + (x div 2 + y div 2 + z div 2) * 2"
    by (simp add: distrib_right)
  then have "(x + y + z) div 2 = ((x mod 2 + y mod 2 + z mod 2) + (x div 2 + y div 2 + z div 2) * 2) div 2"
    by (rule arg_cong)
  also have "\<dots> = (x div 2 + y div 2 + z div 2) + (x mod 2 + y mod 2 + z mod 2) div 2"
    by (rule div_mult_self1) simp
  finally show ?thesis by (rule sym)
qed

lemma unat_half64: "unat (ucast (ucast x :: u32) :: u64) = unat (x :: u64) mod 2 ^ 32"
proof -
  have "unat (ucast (ucast x :: u32) :: u64) = take_bit 32 (unat x)"
    by (simp only: unsigned_ucast_eq unsigned_take_bit_eq) simp
  then show ?thesis by (simp only: take_bit_eq_mod)
qed

lemma mult32_bound: "x < 2 ^ 32 \<Longrightarrow> y < 2 ^ 32 \<Longrightarrow> x * y \<le> (2 ^ 32 - 1) * (2 ^ 32 - 1 :: nat)"
  by (rule mult_le_mono) auto

lemma unat_mult_half:
  assumes "unat (x :: u64) < 2 ^ 32" "unat y < 2 ^ 32"
  shows "unat (x * y) = unat x * unat y"
  using mult32_bound [OF assms] by (subst unat_mult_lem [symmetric]) simp

text \<open>The carry out of the lower 64 bits, computed without a sum that exceeds 64 bits.\<close>

lemma carry_exact:
  assumes "unat (c :: u64) < 2 ^ 32" "unat p \<le> (2 ^ 32 - 1) * (2 ^ 32 - 1)" "unat q \<le> (2 ^ 32 - 1) * (2 ^ 32 - 1)"
  shows "unat (drop_bit 31 (drop_bit 1 c + drop_bit 1 p + drop_bit 1 q + drop_bit 1 ((c AND 1) + (p AND 1) + (q AND 1)) :: u64))
    = (unat c + unat p + unat q) div 2 ^ 32"
proof -
  let ?e = "(c AND 1) + (p AND 1) + (q AND 1)"
  have m: "unat (x AND 1) = unat x mod 2" for x :: u64
    using unat_and_mask [of x 1] by (simp add: mask_eq_exp_minus_1)
  have e: "unat ?e = unat c mod 2 + unat p mod 2 + unat q mod 2"
    by (simp add: unat_word_ariths m mod_mod_cancel)
  have b: "unat c div 2 < 2 ^ 32" "unat p div 2 \<le> 2 ^ 63 - 2 ^ 32" "unat q div 2 \<le> 2 ^ 63 - 2 ^ 32"
    "(unat c mod 2 + unat p mod 2 + unat q mod 2) div 2 < 2"
    using assms by simp_all
  have "unat (drop_bit 1 c + drop_bit 1 p) = unat c div 2 + unat p div 2"
    using b by (subst unat_add_small) (simp_all add: unat_drop_bit_div)
  then have "unat (drop_bit 1 c + drop_bit 1 p + drop_bit 1 q) = unat c div 2 + unat p div 2 + unat q div 2"
    using b by (subst unat_add_small) (simp_all add: unat_drop_bit_div)
  then have "unat (drop_bit 1 c + drop_bit 1 p + drop_bit 1 q + drop_bit 1 ?e) =
    unat c div 2 + unat p div 2 + unat q div 2 + (unat c mod 2 + unat p mod 2 + unat q mod 2) div 2"
    using b by (subst unat_add_small) (simp_all add: unat_drop_bit_div e)
  also have "\<dots> = (unat c + unat p + unat q) div 2" by (rule half_sum3)
  finally show ?thesis by (simp add: unat_drop_bit_div flip: div_mult2_eq)
qed

lemma split_product:
  assumes "0 < (M::nat)"
  shows "(A * M + a) * (B * M + b) div (M * M) = A * B + (a * b div M + A * b + a * B) div M"
proof -
  have "(A * M + a) * (B * M + b) = a * b + (A * B * M + (A * b + a * B)) * M"
    by (simp add: algebra_simps)
  then have "(A * M + a) * (B * M + b) div M = a * b div M + (A * b + a * B) + A * B * M"
    using assms by simp
  then have "(A * M + a) * (B * M + b) div M div M = A * B + (a * b div M + (A * b + a * B)) div M"
    using assms by simp
  then show ?thesis by (simp add: div_mult2_eq add.assoc)
qed

lemma mulUnsignedManual_product:
  "case mulUnsignedManual x y of (high, low) \<Rightarrow> unat high * 2 ^ 64 + unat low = unat x * unat y"
proof -
  define M :: nat where "M = 2 ^ 32"
  define A :: u64 where "A = ucast (ucast (drop_bit 32 x) :: u32)"
  define a :: u64 where "a = ucast (ucast x :: u32)"
  define B :: u64 where "B = ucast (ucast (drop_bit 32 y) :: u32)"
  define b :: u64 where "b = ucast (ucast y :: u32)"
  define c1 :: u64 where "c1 = ucast (ucast (drop_bit 32 (a * b)) :: u32)"
  define c2 where "c2 = drop_bit 31 (drop_bit 1 c1 + drop_bit 1 (A * b) + drop_bit 1 (a * B) +
    drop_bit 1 ((c1 AND 1) + (A * b AND 1) + (a * B AND 1)))"
  have div_less: "n < 2 ^ 64 \<Longrightarrow> n div M < M" for n
    unfolding M_def by (rule less_mult_imp_div_less) simp
  have u: "unat A = unat x div M" "unat a = unat x mod M" "unat B = unat y div M" "unat b = unat y mod M"
    using div_less [OF unat64_less [of x]] div_less [OF unat64_less [of y]]
    by (simp_all add: A_def a_def B_def b_def unat_half64 unat_drop_bit_div M_def)
  then have l: "unat A < M" "unat a < M" "unat B < M" "unat b < M"
    using div_less [OF unat64_less [of x]] div_less [OF unat64_less [of y]] by (simp_all add: M_def)
  note lM = l [unfolded M_def]
  have p: "unat (a * b) = unat a * unat b" "unat (A * b) = unat A * unat b" "unat (a * B) = unat a * unat B"
    "unat (A * B) = unat A * unat B" using lM by (simp_all add: unat_mult_half)
  have c1: "unat c1 = unat a * unat b div M"
    using div_less [OF unat64_less [of "a * b"]]
    by (simp add: c1_def unat_half64 unat_drop_bit_div p(1) M_def)
  have c1l: "unat c1 < 2 ^ 32" using div_less [OF unat64_less [of "a * b"]] unfolding c1 p(1) by (simp add: M_def)
  have c2: "unat c2 = (unat c1 + unat A * unat b + unat a * unat B) div M"
    using carry_exact [OF c1l, of "A * b" "a * B"] p mult32_bound lM by (simp add: c2_def M_def)
  have xy: "unat x * unat y div (M * M) = unat (A * B) + unat c2"
    using split_product [of M "unat A" "unat a" "unat B" "unat b"] unfolding c2 c1 p u by (simp add: M_def)
  have "unat x * unat y \<le> (2 ^ 64 - 1) * (2 ^ 64 - 1)"
    using unat64_less [of x] unat64_less [of y] by (intro mult_le_mono) auto
  then have "unat x * unat y div (M * M) < 2 ^ 64" by (intro less_mult_imp_div_less) (simp add: M_def)
  then have high: "unat (A * B + c2) = unat x * unat y div 2 ^ 64"
    using xy by (subst unat_add_small) (simp_all add: M_def)
  have low: "unat (x * y) = unat x * unat y mod 2 ^ 64" by (simp add: unat_word_ariths)
  have "mulUnsignedManual x y = (A * B + c2, x * y)"
    by (simp only: mulUnsignedManual_def Let_def A_def a_def B_def b_def c1_def c2_def)
  then show ?thesis by (simp only: prod.case high low div_mult_mod_eq)
qed


lemma sint64_range: "- (2 ^ 63) \<le> sint (x :: u64) \<and> sint x < 2 ^ 63"
  using sint_range_size [of x] by (simp add: word_size)

lemma uint64_sint: "uint (x :: u64) = sint x + (if sint x < 0 then 2 ^ 64 else 0)"
proof -
  have "uint x = sint x mod 2 ^ 64"
    using uint_word_of_int [of "sint x", where 'a = 64] by simp
  moreover have "sint x mod 2 ^ 64 = sint x + 2 ^ 64" if "sint x < 0"
  proof -
    have "(sint x + 2 ^ 64) mod 2 ^ 64 = sint x + 2 ^ 64"
      using that sint64_range [of x] by (intro mod_pos_pos_trivial) auto
    then show ?thesis by simp
  qed
  moreover have "sint x mod 2 ^ 64 = sint x" if "\<not> sint x < 0"
    using that sint64_range [of x] by (intro mod_pos_pos_trivial) auto
  ultimately show ?thesis by simp
qed

lemma sint64_of_int: "- (2 ^ 63) \<le> k \<Longrightarrow> k < 2 ^ 63 \<Longrightarrow> sint (word_of_int k :: u64) = k"
  by (simp add: sint_sbintrunc' signed_take_bit_int_eq_self)

lemma sint64_mult_bound: "\<bar>sint (x :: u64) * sint (y :: u64)\<bar> \<le> 2 ^ 126"
proof -
  have "\<bar>sint x\<bar> \<le> 2 ^ 63" "\<bar>sint y\<bar> \<le> 2 ^ 63" using sint64_range [of x] sint64_range [of y] by linarith+
  then have "\<bar>sint x\<bar> * \<bar>sint y\<bar> \<le> 2 ^ 63 * 2 ^ 63" by (intro mult_mono) auto
  then show ?thesis by (simp add: abs_mult)
qed

lemma high_half_bound:
  "0 \<le> l \<Longrightarrow> l < 2 ^ 64 \<Longrightarrow> - (2 ^ 126) \<le> k * 2 ^ 64 + l \<Longrightarrow> k * 2 ^ 64 + l \<le> 2 ^ 126 \<Longrightarrow>
    - (2 ^ 63) \<le> k \<and> k < (2 ^ 63 :: int)"
  by simp

lemma mulSignedManual_product:
  "case mulSignedManual x y of (high, low) \<Rightarrow> sint high * 2 ^ 64 + uint low = sint x * sint y"
proof -
  obtain h l where hl: "mulUnsignedManual x y = (h, l)" by force
  have "int (unat h * 2 ^ 64 + unat l) = int (unat x * unat y)"
    using mulUnsignedManual_product [of x y] unfolding hl prod.case by (rule arg_cong)
  then have u: "uint h * 2 ^ 64 + uint l = uint x * uint y"
    by (simp only: of_nat_add of_nat_mult of_nat_power of_nat_numeral uint_nat)
  define K where "K = uint h - (if sint x < 0 then uint y else 0) - (if sint y < 0 then uint x else 0)
    + (if sint x < 0 \<and> sint y < 0 then 2 ^ 64 else 0)"
  have eq: "K * 2 ^ 64 + uint l = sint x * sint y"
    using u unfolding K_def uint64_sint [of x] uint64_sint [of y]
    by (cases "sint x < 0"; cases "sint y < 0") (simp_all add: algebra_simps)
  have "0 \<le> uint l" "uint l < 2 ^ 64" using uint_lt2p [of l] by auto
  moreover have "- (2 ^ 126) \<le> K * 2 ^ 64 + uint l" "K * 2 ^ 64 + uint l \<le> 2 ^ 126"
    using sint64_mult_bound [of x y] unfolding eq abs_le_iff by linarith+
  ultimately have "- (2 ^ 63) \<le> K \<and> K < 2 ^ 63" by (rule high_half_bound)
  then have "sint (word_of_int K :: u64) = K" by (simp add: sint64_of_int)
  moreover have "mulSignedManual x y = (word_of_int K, l)"
    by (simp add: mulSignedManual_def hl K_def)
  ultimately show ?thesis using eq by simp
qed


section \<open>Properties\<close>

text \<open>C39: the 64 by 64 bit multiplications written without a wider type are exact: the halves
  returned by the unsigned one are the 128 bit product, and those of the signed one the two's
  complement product.\<close>

theorem mulManual_exact:
  "(case mulUnsignedManual x y of (high, low) \<Rightarrow> unat high * 2 ^ 64 + unat low = unat x * unat y) \<and>
   (case mulSignedManual x y of (high, low) \<Rightarrow> sint high * 2 ^ 64 + uint low = sint x * sint y)"
  by (rule conjI [OF mulUnsignedManual_product mulSignedManual_product])

text \<open>the five halving steps of \<^verbatim>\<open>floorLog2\<close> find the exponent of the largest power of two
  not above a nonzero argument of the type's width, and \<^verbatim>\<open>ceilLog2\<close> the one of the smallest
  power of two not below it.\<close>

lemma log2_exact:
  assumes "0 < x" "ts \<in> {1, 2, 4, 8}" "unat x < 2 ^ (8 * ts)"
  shows "\<exists>f c. floorLog2 ts x = Inr f \<and> ceilLog2 ts x = Inr c \<and>
     2 ^ f \<le> unat x \<and> unat x < 2 ^ (f + 1) \<and> unat x \<le> 2 ^ c \<and> (1 < x \<longrightarrow> 2 ^ (c - 1) < unat x)"
proof -
  have pos: "0 < unat x" using assms(1) by (simp add: word_less_nat_alt)
  note f = floorLog2_flog2 [OF assms] flog2_bounds [OF pos]
  show ?thesis
  proof (cases "x = 1")
    case True
    then show ?thesis using f by (simp add: ceilLog2_def)
  next
    case False
    then have "unat x \<noteq> 1" by (metis unsigned_1 word_unat_eq_iff)
    then have m: "unat (x - 1) = unat x - 1" "0 < unat x - 1"
      using assms(1) pos unat_minus_one [of x] by auto
    then have "floorLog2 ts (x - 1) = Inr (flog2 (unat x - 1))"
      using floorLog2_flog2 [of "x - 1" ts] assms(2,3) by (auto simp: word_less_nat_alt)
    with False f assms(1) show ?thesis using flog2_bounds [OF m(2)] pos by (simp add: ceilLog2_def) linarith
  qed
qed

lemma log2_exact_witness:
  "\<exists>f c. floorLog2 4 5 = Inr f \<and> ceilLog2 4 5 = Inr c \<and>
     2 ^ f \<le> unat (5::u64) \<and> unat (5::u64) < 2 ^ (f + 1) \<and> unat (5::u64) \<le> 2 ^ c \<and>
     ((1::u64) < 5 \<longrightarrow> 2 ^ (c - 1) < unat (5::u64))"
  by (rule log2_exact) simp_all

end
