(* ===== verification/BTB.thy ===== *)
theory BTB
  imports PCState IntMath
begin

unbundle bit_operations_syntax

text \<open>
  The branch target buffer, \<^verbatim>\<open>cpu/pred/btb.hh\<close> and \<^verbatim>\<open>btb.cc\<close>, used through
  \<^verbatim>\<open>lookup\<close>, \<^verbatim>\<open>valid\<close> and \<^verbatim>\<open>update\<close>. Shifts whose amount or result the language leaves undefined are
  \<open>Undefined\<close>. The thread id of an entry that was never written is the argument \<open>junk\<close>.
\<close>

record btb_entry =
  btbe_tag :: u64
  btbe_target :: "pcstate option"
  btbe_tid :: int
  btbe_valid :: bool

record btb =
  btb_btb :: "btb_entry list"
  btb_numEntries :: u32
  btb_idxMask :: u32
  btb_tagBits :: nat
  btb_tagMask :: u32
  btb_instShiftAmt :: nat
  btb_tagShiftAmt :: nat
  btb_log2NumThreads :: nat

definition btb_new :: "int \<Rightarrow> u32 \<Rightarrow> nat \<Rightarrow> nat \<Rightarrow> u32 \<Rightarrow> btb result" where
  "btb_new junk numEntries tagBits instShiftAmt num_threads =
     rbind (floorLog2 4 (ucast num_threads)) (\<lambda>lt.
     if \<not> isPowerOf2 numEntries then Inl Fatal
     else if tagBits \<ge> 31 then Inl Undefined
     else rbind (floorLog2 4 (ucast numEntries)) (\<lambda>ln.
       Inr \<lparr>btb_btb = replicate (unat numEntries)
              \<lparr>btbe_tag = 0, btbe_target = None, btbe_tid = junk, btbe_valid = False\<rparr>,
            btb_numEntries = numEntries, btb_idxMask = numEntries - 1, btb_tagBits = tagBits,
            btb_tagMask = push_bit tagBits 1 - 1, btb_instShiftAmt = instShiftAmt,
            btb_tagShiftAmt = instShiftAmt + ln, btb_log2NumThreads = lt\<rparr>))"

definition btb_reset :: "btb \<Rightarrow> btb result" where
  "btb_reset b =
     rfold (\<lambda>b i. rbind (vec_at (btb_btb b) i) (\<lambda>e.
                  rbind (vec_set (btb_btb b) i (e\<lparr>btbe_valid := False\<rparr>)) (\<lambda>es. Inr (b\<lparr>btb_btb := es\<rparr>))))
       b [0..<unat (btb_numEntries b)]"

text \<open>
  The shift amount \<^verbatim>\<open>tagShiftAmt - instShiftAmt - log2NumThreads\<close> is unsigned: with more threads
  than entries it wraps, and the shift is undefined.
\<close>

definition btb_getIndex :: "btb \<Rightarrow> u64 \<Rightarrow> int \<Rightarrow> u32 result" where
  "btb_getIndex b instPC tid =
     (if btb_instShiftAmt b \<ge> 64 \<or> btb_tagShiftAmt b < btb_instShiftAmt b + btb_log2NumThreads b \<or> tid < 0
      then Inl Undefined
      else let s = btb_tagShiftAmt b - btb_instShiftAmt b - btb_log2NumThreads b in
        if tid * 2 ^ s \<ge> 2 ^ 32 then Inl Undefined
        else Inr (ucast ((drop_bit (btb_instShiftAmt b) instPC XOR scast (word_of_int (tid * 2 ^ s) :: u32)) AND
                         ucast (btb_idxMask b))))"

definition btb_getTag :: "btb \<Rightarrow> u64 \<Rightarrow> u64 result" where
  "btb_getTag b instPC =
     (if btb_tagShiftAmt b \<ge> 64 then Inl Undefined
      else Inr (drop_bit (btb_tagShiftAmt b) instPC AND ucast (btb_tagMask b)))"

text \<open>The hit test \<^verbatim>\<open>valid\<close> and \<^verbatim>\<open>lookup\<close> share: the entry, if it hits.\<close>

definition btb_hit :: "btb \<Rightarrow> u64 \<Rightarrow> int \<Rightarrow> (btb_entry option) result" where
  "btb_hit b inst_pc tid =
     rbind (btb_getIndex b inst_pc tid) (\<lambda>btb_idx.
     rbind (btb_getTag b inst_pc) (\<lambda>inst_tag.
     rbind (rassert (btb_idx < btb_numEntries b)) (\<lambda>_.
     rbind (vec_at (btb_btb b) (unat btb_idx)) (\<lambda>e.
     Inr (if btbe_valid e \<and> inst_tag = btbe_tag e \<and> btbe_tid e = tid then Some e else None)))))"

definition btb_valid :: "btb \<Rightarrow> u64 \<Rightarrow> int \<Rightarrow> bool result" where
  "btb_valid b inst_pc tid = rbind (btb_hit b inst_pc tid) (\<lambda>h. Inr (h \<noteq> None))"

definition btb_lookup :: "btb \<Rightarrow> u64 \<Rightarrow> int \<Rightarrow> (pcstate option) result" where
  "btb_lookup b inst_pc tid =
     rbind (btb_hit b inst_pc tid) (\<lambda>h. Inr (case h of Some e \<Rightarrow> btbe_target e | None \<Rightarrow> None))"

definition btb_update :: "btb \<Rightarrow> u64 \<Rightarrow> pcstate \<Rightarrow> int \<Rightarrow> btb result" where
  "btb_update b inst_pc target tid =
     rbind (btb_getIndex b inst_pc tid) (\<lambda>btb_idx.
     rbind (rassert (btb_idx < btb_numEntries b)) (\<lambda>_.
     rbind (vec_at (btb_btb b) (unat btb_idx)) (\<lambda>e.
     rbind (btb_getTag b inst_pc) (\<lambda>tag.
     rbind (vec_set (btb_btb b) (unat btb_idx)
              (e\<lparr>btbe_tid := tid, btbe_valid := True, btbe_target := pc_set_ref (btbe_target e) target,
                 btbe_tag := tag\<rparr>)) (\<lambda>es.
     Inr (b\<lparr>btb_btb := es\<rparr>))))))"

section \<open>Lookups and updates stay in range\<close>

definition btb_wf :: "btb \<Rightarrow> bool" where
  "btb_wf b \<longleftrightarrow> btb_numEntries b \<noteq> 0 \<and> btb_idxMask b = btb_numEntries b - 1 \<and>
     length (btb_btb b) = unat (btb_numEntries b) \<and> btb_tagShiftAmt b < 64 \<and>
     btb_instShiftAmt b + btb_log2NumThreads b \<le> btb_tagShiftAmt b"

definition btb_tid_ok :: "btb \<Rightarrow> int \<Rightarrow> bool" where
  "btb_tid_ok b tid \<longleftrightarrow> 0 \<le> tid \<and> tid * 2 ^ (btb_tagShiftAmt b - btb_instShiftAmt b - btb_log2NumThreads b) < 2 ^ 32"

lemma floorLog2_u32: "floorLog2 4 (ucast (x :: u32)) = (if x = 0 then Inl AssertFailed else Inr (flog2 (unat x)))"
  using floorLog2_flog2 [of "ucast x" 4] unat32_less [of x]
  by (auto simp: word_less_nat_alt unat_gt_0 floorLog2_def unat_ucast_32_64)

lemma btb_new_wf:
  assumes "btb_new junk n tb sh nt = Inr b" "sh + flog2 (unat n) < 64" "nt \<le> n"
  shows "btb_wf b"
proof -
  note fl = floorLog2_u32
  have "flog2 (unat nt) \<le> flog2 (unat n)"
  proof -
    have "0 < unat nt" using assms(1) by (auto simp: btb_new_def fl rbind_Inr_iff unat_gt_0 split: if_splits)
    then have "2 ^ flog2 (unat nt) \<le> unat nt" using flog2_bounds by blast
    also have "\<dots> \<le> unat n" using assms(3) by (simp add: word_le_nat_alt)
    finally show ?thesis by (rule flog2_ge)
  qed
  with assms show ?thesis
    by (auto simp: btb_new_def fl btb_wf_def isPowerOf2_def rbind_Inr_iff split: if_splits)
qed

lemma btb_getIndex_ok:
  assumes "btb_wf b" "btb_tid_ok b tid"
  shows "\<exists>i. btb_getIndex b pc tid = Inr i \<and> i < btb_numEntries b"
proof -
  let ?x = "(drop_bit (btb_instShiftAmt b) pc XOR
    scast (word_of_int (tid * 2 ^ (btb_tagShiftAmt b - btb_instShiftAmt b - btb_log2NumThreads b)) :: u32)) :: u64"
  let ?i = "ucast (?x AND ucast (btb_idxMask b)) :: u32"
  have "?i < btb_numEntries b"
    using assms(1) by (intro masked_index_less) (simp_all add: btb_wf_def word_gt_0)
  moreover have "btb_getIndex b pc tid = Inr ?i"
    using assms by (auto simp: btb_getIndex_def btb_wf_def btb_tid_ok_def Let_def)
  ultimately show ?thesis by blast
qed


lemma btb_getTag_ok: "btb_wf b \<Longrightarrow> \<exists>t. btb_getTag b pc = Inr t"
  by (simp add: btb_getTag_def btb_wf_def)

lemma btb_geom_btb [simp]:
  "btb_getIndex (b\<lparr>btb_btb := es\<rparr>) pc tid = btb_getIndex b pc tid"
  "btb_getTag (b\<lparr>btb_btb := es\<rparr>) pc = btb_getTag b pc"
  "btb_tid_ok (b\<lparr>btb_btb := es\<rparr>) tid = btb_tid_ok b tid"
  by (simp_all add: btb_getIndex_def btb_getTag_def btb_tid_ok_def Let_def)

lemma btb_update_eq:
  assumes "btb_wf b" "btb_tid_ok b tid" "btb_getIndex b pc tid = Inr i" "btb_getTag b pc = Inr t"
  shows "btb_update b pc target tid = Inr (b\<lparr>btb_btb := (btb_btb b)[unat i :=
      \<lparr>btbe_tag = t, btbe_target = Some target, btbe_tid = tid, btbe_valid = True\<rparr>]\<rparr>)"
    and "unat i < length (btb_btb b)"
proof -
  have i: "i < btb_numEntries b" using btb_getIndex_ok [OF assms(1,2), of pc] assms(3) by auto
  then show l: "unat i < length (btb_btb b)" using assms(1) by (simp add: btb_wf_def word_less_nat_alt)
  show "btb_update b pc target tid = Inr (b\<lparr>btb_btb := (btb_btb b)[unat i :=
      \<lparr>btbe_tag = t, btbe_target = Some target, btbe_tid = tid, btbe_valid = True\<rparr>]\<rparr>)"
    using assms i l by (cases "btb_btb b ! unat i") (simp add: btb_update_def pc_set_ref_eq)
qed

lemma btb_lookup_eq:
  assumes "btb_wf b" "btb_tid_ok b tid" "btb_getIndex b pc tid = Inr i" "btb_getTag b pc = Inr t"
  shows "btb_lookup b pc tid = Inr (let e = btb_btb b ! unat i in
      if btbe_valid e \<and> t = btbe_tag e \<and> btbe_tid e = tid then btbe_target e else None)"
proof -
  have i: "i < btb_numEntries b" using btb_getIndex_ok [OF assms(1,2), of pc] assms(3) by auto
  then have "unat i < length (btb_btb b)" using assms(1) by (simp add: btb_wf_def word_less_nat_alt)
  then show ?thesis using assms i by (simp add: btb_lookup_def btb_hit_def Let_def)
qed

text \<open>A reset buffer and a new one predict nothing.\<close>

lemma btb_reset_misses:
  assumes "btb_wf b" "btb_tid_ok b tid"
  shows "\<exists>b'. btb_reset b = Inr b' \<and> btb_wf b' \<and> btb_lookup b' pc tid = Inr None"
proof -
  let ?n = "unat (btb_numEntries b)"
  let ?P = "\<lambda>k b'. \<exists>es. b' = b\<lparr>btb_btb := es\<rparr> \<and> length es = ?n \<and> (\<forall>i < k. \<not> btbe_valid (es ! i))"
  have "\<exists>b'. btb_reset b = Inr b' \<and> ?P (length [0..<?n]) b'"
    unfolding btb_reset_def
  proof (rule rfold_invariant)
    show "?P 0 b" using assms(1) by (intro exI [of _ "btb_btb b"]) (simp add: btb_wf_def)
  next
    fix i b1 assume i: "i < length [0..<?n]" and "?P i b1"
    then obtain es where es: "b1 = b\<lparr>btb_btb := es\<rparr>" "length es = ?n" "\<forall>j < i. \<not> btbe_valid (es ! j)" by blast
    then show "\<exists>b2. rbind (vec_at (btb_btb b1) ([0..<?n] ! i)) (\<lambda>e. rbind (vec_set (btb_btb b1) ([0..<?n] ! i)
        (e\<lparr>btbe_valid := False\<rparr>)) (\<lambda>es. Inr (b1\<lparr>btb_btb := es\<rparr>))) = Inr b2 \<and> ?P (Suc i) b2"
      using i by (auto simp: nth_list_update less_Suc_eq split: if_splits intro!: exI [of _ "es[i := (es ! i)\<lparr>btbe_valid := False\<rparr>]"])
  qed
  then obtain es where b': "btb_reset b = Inr (b\<lparr>btb_btb := es\<rparr>)" "length es = ?n" "\<forall>i < ?n. \<not> btbe_valid (es ! i)"
    by auto
  moreover have wf: "btb_wf (b\<lparr>btb_btb := es\<rparr>)" using assms(1) b'(2) by (simp add: btb_wf_def)
  moreover obtain i t where "btb_getIndex b pc tid = Inr i" "i < btb_numEntries b" "btb_getTag b pc = Inr t"
    using btb_getIndex_ok [OF assms] btb_getTag_ok [OF assms(1)] by blast
  ultimately show ?thesis
    using btb_lookup_eq [OF wf, of tid pc i t] assms(2) by (simp add: Let_def word_less_nat_alt)
qed

lemma btb_update_spec:
  assumes "btb_wf b" "btb_tid_ok b tid" "btb_tid_ok b tid'"
  shows "\<exists>b'. btb_update b pc target tid = Inr b' \<and> btb_wf b' \<and>
    btb_lookup b' pc' tid' =
      (if btb_getIndex b pc' tid' = btb_getIndex b pc tid
       then Inr (if btb_getTag b pc' = btb_getTag b pc \<and> tid' = tid then Some target else None)
       else btb_lookup b pc' tid')"
proof -
  obtain i j where i: "btb_getIndex b pc tid = Inr i" "btb_getIndex b pc' tid' = Inr j"
    using assms btb_getIndex_ok by blast
  obtain s t where t: "btb_getTag b pc = Inr s" "btb_getTag b pc' = Inr t"
    using assms(1) btb_getTag_ok by blast
  define b' where "b' = b\<lparr>btb_btb := (btb_btb b)[unat i :=
      \<lparr>btbe_tag = s, btbe_target = Some target, btbe_tid = tid, btbe_valid = True\<rparr>]\<rparr>"
  have wf: "btb_wf b'" using assms(1) by (simp add: btb_wf_def b'_def)
  have geom: "btb_tid_ok b' tid'" "btb_getIndex b' pc' tid' = Inr j" "btb_getTag b' pc' = Inr t"
    using assms(3) i t by (simp_all add: b'_def)
  have "btb_update b pc target tid = Inr b'"
    using btb_update_eq(1) [OF assms(1,2) i(1) t(1)] by (simp add: b'_def)
  moreover have "btb_btb b' ! unat j = (if j = i then
      \<lparr>btbe_tag = s, btbe_target = Some target, btbe_tid = tid, btbe_valid = True\<rparr> else btb_btb b ! unat j)"
    using btb_update_eq(2) [OF assms(1,2) i(1) t(1)]
    by (simp add: b'_def nth_list_update word_unat_eq_iff)
  ultimately show ?thesis
    using wf i t btb_lookup_eq [OF wf geom] btb_lookup_eq [OF assms(1,3) i(2) t(2)] by auto
qed

section \<open>Properties\<close>

text \<open>C35: recording a branch never fails in a well-formed buffer, keeps it well formed, and
  changes lookups as a tagged direct-mapped table does: the branch itself is found with the
  recorded target, a lookup that maps to the same slot with another tag or thread misses, and
  every other lookup returns what it did before.\<close>

theorem btb_update_lookup:
  assumes "btb_wf b" "btb_tid_ok b tid" "btb_tid_ok b tid'"
  shows "\<exists>b'. btb_update b pc target tid = Inr b' \<and> btb_wf b' \<and>
    btb_lookup b' pc' tid' =
      (if btb_getIndex b pc' tid' = btb_getIndex b pc tid
       then Inr (if btb_getTag b pc' = btb_getTag b pc \<and> tid' = tid then Some target else None)
       else btb_lookup b pc' tid')"
  by (rule btb_update_spec [OF assms])


definition btb_example :: btb where
  "btb_example = \<lparr>btb_btb = replicate 4
      \<lparr>btbe_tag = 0, btbe_target = None, btbe_tid = 0, btbe_valid = False\<rparr>,
     btb_numEntries = 4, btb_idxMask = 3, btb_tagBits = 8, btb_tagMask = 255,
     btb_instShiftAmt = 2, btb_tagShiftAmt = 4, btb_log2NumThreads = 0\<rparr>"

theorem btb_update_lookup_witness:
  "btb_new 0 4 8 2 1 = Inr btb_example \<and>
   (\<exists>b'. btb_update btb_example 0x44 pc_new 0 = Inr b' \<and> btb_wf b' \<and>
     btb_lookup b' 0x44 0 = Inr (Some pc_new) \<and> btb_lookup btb_example 0x44 0 = Inr None)"
proof -
  have n: "btb_new 0 4 8 2 1 = Inr btb_example"
    by (simp add: btb_new_def floorLog2_def floorLog2_step_def isPowerOf2_def btb_example_def push_bit_eq_mult)
  moreover have "btb_wf btb_example" "btb_tid_ok btb_example 0"
    by (simp_all add: btb_wf_def btb_tid_ok_def btb_example_def)
  moreover have "btb_lookup btb_example 0x44 0 = Inr None"
    by code_simp
  ultimately show ?thesis
    using btb_update_lookup [of btb_example 0 0 "0x44" pc_new "0x44"] by auto
qed

end
