(* ===== verification/RAS.thy ===== *)
theory RAS
  imports PCState
begin

text \<open>
  The return address stack, \<^verbatim>\<open>cpu/pred/ras.hh\<close> and \<^verbatim>\<open>ras.cc\<close>: a circular buffer of
  possibly null PC states. \<open>ras_view\<close> lists its entries from the top down; a push shifts this
  list by one, dropping the oldest entry, and a pop rotates it. Speculative calls and returns
  are undone youngest first, a call by a pop and a return by restoring the saved top.
\<close>

record ras =
  ras_addrStack :: "pcstate option list"
  ras_numEntries :: u32
  ras_usedEntries :: u32
  ras_tos :: u32

definition ras_reset :: "ras \<Rightarrow> ras" where
  "ras_reset r = r\<lparr>ras_usedEntries := 0, ras_tos := 0\<rparr>"

text \<open>\<^verbatim>\<open>init\<close> on the stack the constructor left: its vector is empty, its counters are set by
  \<^verbatim>\<open>reset\<close>.\<close>

definition ras_init :: "u32 \<Rightarrow> ras" where
  "ras_init n = ras_reset \<lparr>ras_addrStack = replicate (unat n) None, ras_numEntries = n,
     ras_usedEntries = 0, ras_tos = 0\<rparr>"

definition ras_top :: "ras \<Rightarrow> (pcstate option) result" where
  "ras_top r = vec_at (ras_addrStack r) (unat (ras_tos r))"

definition ras_topIdx :: "ras \<Rightarrow> u32" where
  "ras_topIdx r = ras_tos r"

definition ras_incrTos :: "ras \<Rightarrow> ras" where
  "ras_incrTos r = (let t = ras_tos r + 1 in r\<lparr>ras_tos := if t = ras_numEntries r then 0 else t\<rparr>)"

definition ras_decrTos :: "ras \<Rightarrow> ras" where
  "ras_decrTos r = r\<lparr>ras_tos := if ras_tos r = 0 then ras_numEntries r - 1 else ras_tos r - 1\<rparr>"

definition ras_count :: "ras \<Rightarrow> ras" where
  "ras_count r = (if ras_usedEntries r \<noteq> ras_numEntries r then r\<lparr>ras_usedEntries := ras_usedEntries r + 1\<rparr> else r)"

definition ras_push :: "ras \<Rightarrow> pcstate \<Rightarrow> ras result" where
  "ras_push r return_addr =
     (let r = ras_incrTos r in
      rbind (vec_at (ras_addrStack r) (unat (ras_tos r))) (\<lambda>e.
      rbind (vec_set (ras_addrStack r) (unat (ras_tos r)) (pc_set_ref e return_addr)) (\<lambda>st.
      Inr (ras_count (r\<lparr>ras_addrStack := st\<rparr>)))))"

definition ras_pop :: "ras \<Rightarrow> ras" where
  "ras_pop r =
     ras_decrTos (if ras_usedEntries r > 0 then r\<lparr>ras_usedEntries := ras_usedEntries r - 1\<rparr> else r)"

definition ras_restore :: "ras \<Rightarrow> u32 \<Rightarrow> pcstate option \<Rightarrow> ras result" where
  "ras_restore r top_entry_idx restored =
     (let r = r\<lparr>ras_tos := top_entry_idx\<rparr> in
      rbind (vec_at (ras_addrStack r) (unat (ras_tos r))) (\<lambda>e.
      rbind (vec_set (ras_addrStack r) (unat (ras_tos r)) (pc_set_ptr e restored)) (\<lambda>st.
      Inr (ras_count (r\<lparr>ras_addrStack := st\<rparr>)))))"

definition ras_empty :: "ras \<Rightarrow> bool" where
  "ras_empty r \<longleftrightarrow> ras_usedEntries r = 0"

definition ras_full :: "ras \<Rightarrow> bool" where
  "ras_full r \<longleftrightarrow> ras_usedEntries r = ras_numEntries r"

section \<open>The stack as a list, top first\<close>

definition ras_wf :: "ras \<Rightarrow> bool" where
  "ras_wf r \<longleftrightarrow> length (ras_addrStack r) = unat (ras_numEntries r) \<and> ras_tos r < ras_numEntries r \<and>
     ras_usedEntries r \<le> ras_numEntries r"

definition ras_size :: "ras \<Rightarrow> nat" where
  "ras_size r = unat (ras_numEntries r)"

definition ras_pos :: "ras \<Rightarrow> nat" where
  "ras_pos r = unat (ras_tos r)"

definition circ :: "nat \<Rightarrow> nat \<Rightarrow> nat \<Rightarrow> nat" where
  "circ p n k = (if k \<le> p then p - k else p + n - k)"

definition ras_nth :: "ras \<Rightarrow> nat \<Rightarrow> pcstate option" where
  "ras_nth r k = ras_addrStack r ! circ (ras_pos r) (ras_size r) k"

definition ras_view :: "ras \<Rightarrow> pcstate option list" where
  "ras_view r = map (ras_nth r) [0..<ras_size r]"

lemma ras_init_wf: "0 < n \<Longrightarrow> ras_wf (ras_init n)"
  by (simp add: ras_wf_def ras_init_def ras_reset_def)

lemma ras_count_simps [simp]:
  "ras_addrStack (ras_count r) = ras_addrStack r" "ras_numEntries (ras_count r) = ras_numEntries r"
  "ras_tos (ras_count r) = ras_tos r"
  by (simp_all add: ras_count_def)

lemma ras_count_used: "ras_usedEntries r \<le> ras_numEntries r \<Longrightarrow> ras_usedEntries (ras_count r) \<le> ras_numEntries r"
  by (auto simp: ras_count_def inc_le)

lemma ras_pos_less: "ras_wf r \<Longrightarrow> ras_pos r < ras_size r"
  by (simp add: ras_wf_def ras_pos_def ras_size_def word_less_nat_alt)

lemma ras_incr_pos:
  assumes "ras_wf r"
  shows "ras_pos (ras_incrTos r) = (if Suc (ras_pos r) = ras_size r then 0 else Suc (ras_pos r))"
proof -
  have "ras_tos r < ras_numEntries r" using assms by (simp add: ras_wf_def)
  then have "unat (ras_tos r + 1) = Suc (unat (ras_tos r))" by (rule unat_inc)
  then show ?thesis by (auto simp: ras_incrTos_def Let_def ras_pos_def ras_size_def word_unat_eq_iff)
qed

lemma ras_decr_pos:
  assumes "ras_wf r"
  shows "ras_pos (ras_decrTos r) = (if ras_pos r = 0 then ras_size r - 1 else ras_pos r - 1)"
proof -
  have "ras_numEntries r \<noteq> 0" using assms by (auto simp: ras_wf_def)
  then show ?thesis 
    by (simp add: ras_decrTos_def ras_pos_def ras_size_def unat_minus_one unsigned_eq_0_iff)
qed

lemma ras_pop_simps [simp]:
  "ras_addrStack (ras_pop r) = ras_addrStack r" "ras_numEntries (ras_pop r) = ras_numEntries r"
  "ras_tos (ras_pop r) = ras_tos (ras_decrTos r)"
  by (simp_all add: ras_pop_def ras_decrTos_def)

lemma circ_less: "p < n \<Longrightarrow> k < n \<Longrightarrow> circ p n k < n"
  by (auto simp: circ_def)

lemma circ_inj: "p < n \<Longrightarrow> k < n \<Longrightarrow> j < n \<Longrightarrow> circ p n k = circ p n j \<longleftrightarrow> k = j"
  by (auto simp: circ_def split: if_splits)

lemma circ_0 [simp]: "circ p n 0 = p"
  by (simp add: circ_def)

lemma circ_next: "p < n \<Longrightarrow> Suc k < n \<Longrightarrow> circ (if Suc p = n then 0 else Suc p) n (Suc k) = circ p n k"
  by (auto simp: circ_def)

lemma circ_prev: "p < n \<Longrightarrow> Suc k < n \<Longrightarrow> circ (if p = 0 then n - 1 else p - 1) n k = circ p n (Suc k)"
  by (auto simp: circ_def)

lemma circ_prev_last: "p < n \<Longrightarrow> circ (if p = 0 then n - 1 else p - 1) n (n - 1) = p"
  by (auto simp: circ_def)

text \<open>What each operation does to the entries counted from the top.\<close>

lemma ras_push_nth:
  assumes "ras_wf r"
  obtains r' where "ras_push r a = Inr r'" "ras_wf r'" "ras_size r' = ras_size r"
    "ras_tos r' = ras_tos (ras_incrTos r)" "ras_nth r' 0 = Some a"
    "\<And>k. Suc k < ras_size r \<Longrightarrow> ras_nth r' (Suc k) = ras_nth r k"
proof -
  let ?i = "ras_pos (ras_incrTos r)"
  let ?r = "ras_count (ras_incrTos r\<lparr>ras_addrStack := (ras_addrStack r)[?i := Some a]\<rparr>)"
  have l: "length (ras_addrStack r) = ras_size r" using assms by (simp add: ras_wf_def ras_size_def)
  have i: "?i < ras_size r" using ras_incr_pos [OF assms] ras_pos_less [OF assms] by simp
  have f: "ras_addrStack (ras_incrTos r) = ras_addrStack r" "ras_numEntries (ras_incrTos r) = ras_numEntries r"
    "ras_usedEntries (ras_incrTos r) = ras_usedEntries r" by (simp_all add: ras_incrTos_def Let_def)
  have 1: "ras_push r a = Inr ?r" using i l f by (simp add: ras_push_def ras_pos_def pc_set_ref_eq Let_def)
  have sz: "ras_size ?r = ras_size r" "ras_pos ?r = ?i" by (simp_all add: ras_size_def ras_pos_def f)
  have 2: "ras_wf ?r"
    using assms i l f ras_count_used [of "ras_incrTos r\<lparr>ras_addrStack := (ras_addrStack r)[?i := Some a]\<rparr>"]
    by (simp add: ras_wf_def ras_size_def ras_pos_def word_less_nat_alt)
  have 3: "ras_nth ?r 0 = Some a" using i l by (simp add: ras_nth_def sz)
  have 4: "ras_nth ?r (Suc k) = ras_nth r k" if k: "Suc k < ras_size r" for k
  proof -
    have "circ ?i (ras_size r) (Suc k) \<noteq> circ ?i (ras_size r) 0" using circ_inj [OF i k, of 0] i by simp
    moreover have "circ ?i (ras_size r) (Suc k) = circ (ras_pos r) (ras_size r) k"
      unfolding ras_incr_pos [OF assms] by (rule circ_next [OF ras_pos_less [OF assms] k])
    ultimately show ?thesis by (simp add: ras_nth_def sz)
  qed
  show ?thesis by (rule that [OF 1 2 sz(1) _ 3 4]) simp_all
qed

lemma ras_pop_nth:
  assumes "ras_wf r"
  shows "ras_wf (ras_pop r)" "ras_size (ras_pop r) = ras_size r"
    "Suc k < ras_size r \<Longrightarrow> ras_nth (ras_pop r) k = ras_nth r (Suc k)"
    "ras_nth (ras_pop r) (ras_size r - 1) = ras_nth r 0"
proof -
  have p: "ras_pos (ras_pop r) = (if ras_pos r = 0 then ras_size r - 1 else ras_pos r - 1)"
    using ras_decr_pos [OF assms] by (simp add: ras_pos_def)
  show s: "ras_size (ras_pop r) = ras_size r" by (simp add: ras_size_def)
  have "ras_pos (ras_pop r) < ras_size r" using p ras_pos_less [OF assms] by auto
  moreover have "ras_usedEntries (ras_pop r) \<le> ras_numEntries r"
    using assms by (auto simp: ras_pop_def ras_decrTos_def ras_wf_def intro: word_dec_le)
  ultimately show "ras_wf (ras_pop r)"
    using assms by (simp add: ras_wf_def ras_size_def ras_pos_def word_less_nat_alt)
  show "Suc k < ras_size r \<Longrightarrow> ras_nth (ras_pop r) k = ras_nth r (Suc k)"
    using circ_prev [OF ras_pos_less [OF assms]] by (simp add: ras_nth_def p s del: circ_0)
  show "ras_nth (ras_pop r) (ras_size r - 1) = ras_nth r 0"
    using circ_prev_last [OF ras_pos_less [OF assms]] by (simp add: ras_nth_def p s)
qed


lemma ras_restore_nth:
  assumes "ras_wf r" "i < ras_numEntries r"
  obtains r' where "ras_restore r i e = Inr r'" "ras_wf r'" "ras_size r' = ras_size r" "ras_tos r' = i"
    "ras_nth r' 0 = e" "\<And>k. 0 < k \<Longrightarrow> k < ras_size r \<Longrightarrow> ras_nth r' k = ras_nth (r\<lparr>ras_tos := i\<rparr>) k"
proof -
  let ?r = "ras_count (r\<lparr>ras_tos := i, ras_addrStack := (ras_addrStack r)[unat i := e]\<rparr>)"
  have l: "length (ras_addrStack r) = ras_size r" and i: "unat i < ras_size r"
    using assms by (simp_all add: ras_wf_def ras_size_def word_less_nat_alt)
  have 1: "ras_restore r i e = Inr ?r" using i l by (simp add: ras_restore_def pc_set_ptr_eq Let_def)
  have sz: "ras_size ?r = ras_size r" "ras_pos ?r = unat i" by (simp_all add: ras_size_def ras_pos_def)
  have 2: "ras_wf ?r"
    using assms l ras_count_used [of "r\<lparr>ras_tos := i, ras_addrStack := (ras_addrStack r)[unat i := e]\<rparr>"]
    by (simp add: ras_wf_def)
  have 3: "ras_nth ?r 0 = e" using i l by (simp add: ras_nth_def sz)
  have 4: "ras_nth ?r k = ras_nth (r\<lparr>ras_tos := i\<rparr>) k" if "0 < k" "k < ras_size r" for k
    using circ_inj [OF i that(2), of 0] i that by (simp add: ras_nth_def sz ras_pos_def ras_size_def)
  show ?thesis by (rule that [OF 1 2 sz(1) _ 3 4]) simp_all
qed

section \<open>Speculation\<close>

text \<open>A speculative path through calls and returns: what each step does to the stack, what it
  saves for the undo, and the undo.\<close>

datatype ras_op = Call pcstate | Return

datatype ras_saved = PushedRAS | UsedRAS u32 "pcstate option"

fun ras_spec :: "ras \<Rightarrow> ras_op \<Rightarrow> (ras \<times> ras_saved) result" where
  "ras_spec r (Call a) = rbind (ras_push r a) (\<lambda>r'. Inr (r', PushedRAS))"
| "ras_spec r Return = rbind (ras_top r) (\<lambda>t. Inr (ras_pop r, UsedRAS (ras_topIdx r) t))"

fun ras_undo :: "ras \<Rightarrow> ras_saved \<Rightarrow> ras result" where
  "ras_undo r PushedRAS = Inr (ras_pop r)"
| "ras_undo r (UsedRAS i t) = ras_restore r i t"

fun ras_spec_undo :: "ras \<Rightarrow> ras_op list \<Rightarrow> ras result" where
  "ras_spec_undo r [] = Inr r"
| "ras_spec_undo r (x # xs) =
     rbind (ras_spec r x) (\<lambda>(r1, s). rbind (ras_spec_undo r1 xs) (\<lambda>r2. ras_undo r2 s))"

text \<open>The largest number of calls the path has open at a time: so many of the oldest entries it
  may have overwritten.\<close>

fun ras_overflow :: "ras_op list \<Rightarrow> nat" where
  "ras_overflow [] = 0"
| "ras_overflow (Call a # xs) = Suc (ras_overflow xs)"
| "ras_overflow (Return # xs) = ras_overflow xs - 1"

lemma ras_top_nth: "ras_wf r \<Longrightarrow> ras_top r = Inr (ras_nth r 0)"
  using ras_pos_less [of r] by (simp add: ras_top_def ras_nth_def ras_wf_def ras_size_def ras_pos_def)

lemma ras_tos_eq: "ras_pos r = ras_pos s \<Longrightarrow> ras_tos r = ras_tos s"
  by (simp add: ras_pos_def word_unat_eq_iff)

lemma ras_push_pop_tos:
  assumes "ras_wf r" "ras_wf r'" "ras_size r' = ras_size r" "ras_tos r' = ras_tos (ras_incrTos r)"
  shows "ras_tos (ras_pop r') = ras_tos r"
proof -
  have "ras_pos r' = ras_pos (ras_incrTos r)" using assms(4) by (simp add: ras_pos_def)
  then have "ras_pos (ras_pop r') = ras_pos r"
    using ras_incr_pos [OF assms(1)] ras_decr_pos [OF assms(2)] assms(3) ras_pos_less [OF assms(1)]
    by (auto simp: ras_pos_def)
  then show ?thesis by (rule ras_tos_eq)
qed


lemma ras_pop_restore_nth:
  assumes "ras_wf r" "ras_wf r2" "ras_size r2 = ras_size r" "ras_tos r2 = ras_tos (ras_pop r)"
    and "0 < k" "k < ras_size r"
  shows "ras_nth (r2\<lparr>ras_tos := ras_tos r\<rparr>) k = ras_nth r2 (k - 1)"
proof -
  have "ras_pos r2 = ras_pos (ras_decrTos r)" using assms(4) by (simp add: ras_pos_def)
  then have "circ (ras_pos r2) (ras_size r) (k - 1) = circ (ras_pos r) (ras_size r) k"
    using circ_prev [OF ras_pos_less [OF assms(1)], of "k - 1"] ras_decr_pos [OF assms(1)] assms(5,6) by simp
  then show ?thesis using assms(3) by (simp add: ras_nth_def ras_size_def ras_pos_def)
qed

text \<open>Two stacks that agree on all but the \<open>m\<close> oldest entries.\<close>

definition ras_agree :: "nat \<Rightarrow> ras \<Rightarrow> ras \<Rightarrow> bool" where
  "ras_agree m r r' \<longleftrightarrow> ras_wf r' \<and> ras_size r' = ras_size r \<and> ras_tos r' = ras_tos r \<and>
     (\<forall>k. k + m < ras_size r \<longrightarrow> ras_nth r' k = ras_nth r k)"

lemma ras_agree_refl: "ras_wf r \<Longrightarrow> ras_agree m r r"
  by (simp add: ras_agree_def)

lemma ras_agree_trans: "ras_agree m r s \<Longrightarrow> ras_agree n s t \<Longrightarrow> ras_agree (max m n) r t"
  by (simp add: ras_agree_def)

lemma ras_agree_mono: "ras_agree m r s \<Longrightarrow> m \<le> n \<Longrightarrow> ras_agree n r s"
  by (simp add: ras_agree_def)

lemma ras_push_step:
  assumes "ras_wf r"
  obtains r1 where "ras_push r a = Inr r1" "ras_wf r1" "\<forall>m r2. ras_agree m r1 r2 \<longrightarrow> ras_agree (Suc m) r (ras_pop r2)"
proof -
  obtain r1 where r1: "ras_push r a = Inr r1" "ras_wf r1" "ras_size r1 = ras_size r"
    "ras_tos r1 = ras_tos (ras_incrTos r)" "\<And>k. Suc k < ras_size r \<Longrightarrow> ras_nth r1 (Suc k) = ras_nth r k"
    using ras_push_nth [OF assms] by metis
  show ?thesis
  proof (rule that [OF r1(1,2)], intro allI impI)
    fix m r2 assume "ras_agree m r1 r2"
    then have r2: "ras_wf r2" "ras_size r2 = ras_size r" "ras_tos r2 = ras_tos r1"
      "\<And>k. k + m < ras_size r \<Longrightarrow> ras_nth r2 k = ras_nth r1 k"
      using r1(3) by (simp_all add: ras_agree_def)
    have "ras_tos (ras_pop r2) = ras_tos r"
      by (rule ras_push_pop_tos [OF assms r2(1,2)]) (use r1 r2 in simp)
    moreover have "ras_nth (ras_pop r2) k = ras_nth r k" if "k + Suc m < ras_size r" for k
      using that ras_pop_nth(3) [OF r2(1), of k] r1(5) [of k] r2(4) [of "Suc k"] r2(2) by simp
    ultimately show "ras_agree (Suc m) r (ras_pop r2)"
      using ras_pop_nth(1,2) [OF r2(1)] r2(2) by (simp add: ras_agree_def)
  qed
qed

lemma ras_return_step:
  assumes "ras_wf r" "ras_agree m (ras_pop r) r2"
  obtains r3 where "ras_restore r2 (ras_tos r) (ras_nth r 0) = Inr r3" "ras_agree (m - 1) r r3"
proof -
  note pop = ras_pop_nth [OF assms(1)]
  have r2: "ras_wf r2" "ras_size r2 = ras_size r" "ras_tos r2 = ras_tos (ras_pop r)"
    "\<And>k. k + m < ras_size r \<Longrightarrow> ras_nth r2 k = ras_nth (ras_pop r) k"
    using assms(2) pop(2) by (simp_all add: ras_agree_def)
  have "ras_tos r < ras_numEntries r2"
    using ras_pos_less [OF assms(1)] r2(2) by (simp add: ras_pos_def ras_size_def word_less_nat_alt)
  then obtain r3 where r3: "ras_restore r2 (ras_tos r) (ras_nth r 0) = Inr r3" "ras_wf r3" "ras_size r3 = ras_size r"
    "ras_tos r3 = ras_tos r" "ras_nth r3 0 = ras_nth r 0"
    "\<And>k. 0 < k \<Longrightarrow> k < ras_size r \<Longrightarrow> ras_nth r3 k = ras_nth (r2\<lparr>ras_tos := ras_tos r\<rparr>) k"
    using ras_restore_nth [OF r2(1)] r2(2) by metis
  have "ras_nth r3 k = ras_nth r k" if k: "k + (m - 1) < ras_size r" for k
  proof (cases k)
    case (Suc j)
    then have "ras_nth r3 k = ras_nth r2 j"
      using r3(6) [of k] ras_pop_restore_nth [OF assms(1) r2(1,2,3), of k] k by simp
    then show ?thesis using r2(4) [of j] pop(3) [of j] Suc k by simp
  qed (use r3 in simp)
  then show ?thesis using that r3 by (simp add: ras_agree_def)
qed

lemma ras_spec_undo_agree:
  "ras_wf r \<Longrightarrow> \<exists>r'. ras_spec_undo r ops = Inr r' \<and> ras_agree (ras_overflow ops) r r'"
proof (induction ops arbitrary: r)
  case Nil
  then show ?case by (simp add: ras_agree_refl)
next
  case (Cons x ops)
  show ?case
  proof (cases x)
    case (Call a)
    obtain r1 where r1: "ras_push r a = Inr r1" "ras_wf r1" "\<forall>m r2. ras_agree m r1 r2 \<longrightarrow> ras_agree (Suc m) r (ras_pop r2)"
      by (rule ras_push_step [OF Cons.prems, of a])
    then show ?thesis using Cons.IH [OF r1(2)] Call by auto
  next
    case Return
    obtain r2 where r2: "ras_spec_undo (ras_pop r) ops = Inr r2" "ras_agree (ras_overflow ops) (ras_pop r) r2"
      using Cons.IH [OF ras_pop_nth(1) [OF Cons.prems]] by blast
    obtain r3 where "ras_restore r2 (ras_tos r) (ras_nth r 0) = Inr r3" "ras_agree (ras_overflow ops - 1) r r3"
      by (rule ras_return_step [OF Cons.prems r2(2)])
    then show ?thesis using r2(1) ras_top_nth [OF Cons.prems] Return by (simp add: ras_topIdx_def)
  qed
qed

lemma ras_pops_nth:
  assumes "ras_wf r" "k + j < ras_size r"
  shows "ras_nth ((ras_pop ^^ k) r) j = ras_nth r (k + j) \<and> ras_wf ((ras_pop ^^ k) r) \<and>
    ras_size ((ras_pop ^^ k) r) = ras_size r"
  using assms
proof (induction k arbitrary: j)
  case (Suc k)
  then have ih: "ras_nth ((ras_pop ^^ k) r) (Suc j) = ras_nth r (k + Suc j)" "ras_wf ((ras_pop ^^ k) r)"
    "ras_size ((ras_pop ^^ k) r) = ras_size r" using Suc.IH [of "Suc j"] by auto
  then show ?case using ras_pop_nth(1,2) [OF ih(2)] ras_pop_nth(3) [OF ih(2), of j] Suc.prems by simp
qed simp

lemma ras_pushes_nth:
  assumes "ras_wf r"
  shows "\<exists>r'. rfold ras_push r xs = Inr r' \<and> ras_wf r' \<and> ras_size r' = ras_size r \<and>
    (\<forall>k < ras_size r. ras_nth r' k = (if k < length xs then Some (rev xs ! k) else ras_nth r (k - length xs)))"
  using assms
proof (induction xs rule: rev_induct)
  case (snoc x xs)
  then obtain r1 where r1: "rfold ras_push r xs = Inr r1" "ras_wf r1" "ras_size r1 = ras_size r"
    "\<forall>k < ras_size r. ras_nth r1 k = (if k < length xs then Some (rev xs ! k) else ras_nth r (k - length xs))"
    by auto
  obtain r2 where r2: "ras_push r1 x = Inr r2" "ras_wf r2" "ras_size r2 = ras_size r"
    "ras_nth r2 0 = Some x" "\<And>k. Suc k < ras_size r \<Longrightarrow> ras_nth r2 (Suc k) = ras_nth r1 k"
    using ras_push_nth [OF r1(2)] r1(3) by metis
  have "ras_nth r2 k = (if k < length (xs @ [x]) then Some (rev (xs @ [x]) ! k) else ras_nth r (k - length (xs @ [x])))"
    if "k < ras_size r" for k
    using that r1(4) r2(4,5) by (cases k) auto
  then show ?case using r1 r2 by (simp add: rfold_append)
qed simp


section \<open>Properties\<close>

text \<open>a return address stack of any size is last-in first-out up to its capacity: after
  the pushes \<open>xs\<close>, none of which fails, the entry on top after \<open>k\<close> pops is the
  \<open>k\<close>-th latest pushed one, for every \<open>k\<close> below both the number of pushes and the capacity.\<close>

lemma ras_lifo:
  assumes "ras_wf r" "k < ras_size r" "k < length xs"
  shows "\<exists>r'. rfold ras_push r xs = Inr r' \<and> ras_top ((ras_pop ^^ k) r') = Inr (Some (rev xs ! k))"
proof -
  obtain r' where r': "rfold ras_push r xs = Inr r'" "ras_wf r'" "ras_size r' = ras_size r"
    "ras_nth r' k = Some (rev xs ! k)"
    using ras_pushes_nth [OF assms(1), of xs] assms(2,3) by auto
  then show ?thesis using ras_pops_nth [OF r'(2), of k 0] ras_top_nth assms(2) by auto
qed

lemma ras_lifo_witness:
  "\<exists>r'. rfold ras_push (ras_init 2) [pc_new, simple_set 4 pc_new 8, simple_set 4 pc_new 16] = Inr r' \<and>
     ras_top ((ras_pop ^^ 1) r') = Inr (Some (rev [pc_new, simple_set 4 pc_new 8, simple_set 4 pc_new 16] ! 1))"
  by (rule ras_lifo) (simp_all add: ras_init_wf, simp add: ras_init_def ras_reset_def ras_size_def)

text \<open>C9: mis-speculation is undone. Whatever calls and returns a wrong path makes, undoing them
  youngest first, a call by a pop and a return by restoring the saved index and entry,
  never fails and brings back the top of the stack and all entries except the oldest ones, as
  many as the path had calls open at a time.\<close>

theorem ras_squash_restores:
  assumes "ras_wf r"
  shows "\<exists>r'. ras_spec_undo r ops = Inr r' \<and> ras_wf r' \<and> ras_topIdx r' = ras_topIdx r \<and>
    take (ras_size r - ras_overflow ops) (ras_view r') = take (ras_size r - ras_overflow ops) (ras_view r)"
proof -
  obtain r' where r': "ras_spec_undo r ops = Inr r'" "ras_wf r'" "ras_size r' = ras_size r" "ras_tos r' = ras_tos r"
    "\<forall>k. k + ras_overflow ops < ras_size r \<longrightarrow> ras_nth r' k = ras_nth r k"
    using ras_spec_undo_agree [OF assms] unfolding ras_agree_def by blast
  then have "take (ras_size r - ras_overflow ops) (ras_view r') = take (ras_size r - ras_overflow ops) (ras_view r)"
    by (simp add: ras_view_def list_eq_iff_nth_eq)
  with r' show ?thesis by (auto simp: ras_topIdx_def)
qed

theorem ras_squash_restores_witness:
  "\<exists>r'. ras_spec_undo (ras_init 2) [Return, Call pc_new] = Inr r' \<and> ras_wf r' \<and>
     ras_topIdx r' = ras_topIdx (ras_init 2) \<and> take 2 (ras_view r') = take 2 (ras_view (ras_init 2))"
  using ras_squash_restores [OF ras_init_wf, of 2 "[Return, Call pc_new]"]
  by (simp add: ras_size_def ras_init_def ras_reset_def)

end
