(* ===== verification/DirPred.thy ===== *)
theory DirPred
  imports DynInst
begin

text \<open>
  The two predictor interfaces of the branch prediction unit as tables of operations: the pure
  virtual methods of \<^verbatim>\<open>cpu/pred/bpred_unit.hh\<close> (the direction predictor) and of
  \<^verbatim>\<open>cpu/pred/indirect.hh\<close> (the indirect target predictor). \<open>'d\<close> and \<open>'i\<close> are the
  predictors' states; a history object behind a \<^verbatim>\<open>void *\<close> is a value of type \<open>'h\<close>,
  the null pointer \<open>None\<close>. No direction predictor of the tree writes the history object in
  \<^verbatim>\<open>btbUpdate\<close>. The locales state what the unit needs of them to undo speculation.
\<close>

record ('d, 'h) dir_ops =
  dp_lookup :: "'d \<Rightarrow> int \<Rightarrow> u64 \<Rightarrow> (bool \<times> 'h option \<times> 'd) result"
  dp_uncondBranch :: "'d \<Rightarrow> int \<Rightarrow> u64 \<Rightarrow> ('h option \<times> 'd) result"
  dp_btbUpdate :: "'d \<Rightarrow> int \<Rightarrow> u64 \<Rightarrow> 'h option \<Rightarrow> 'd result"
  dp_update :: "'d \<Rightarrow> int \<Rightarrow> u64 \<Rightarrow> bool \<Rightarrow> 'h option \<Rightarrow> bool \<Rightarrow> static_inst \<Rightarrow> u64 \<Rightarrow> 'd result"
  dp_squash :: "'d \<Rightarrow> int \<Rightarrow> 'h option \<Rightarrow> 'd result"

record ('i, 'j) ind_ops =
  ip_lookup :: "'i \<Rightarrow> u64 \<Rightarrow> int \<Rightarrow> (pcstate option) result"
  ip_recordIndirect :: "'i \<Rightarrow> u64 \<Rightarrow> u64 \<Rightarrow> u64 \<Rightarrow> int \<Rightarrow> 'i result"
  ip_commit :: "'i \<Rightarrow> u64 \<Rightarrow> int \<Rightarrow> 'j option \<Rightarrow> 'i result"
  ip_squash :: "'i \<Rightarrow> u64 \<Rightarrow> int \<Rightarrow> 'i result"
  ip_recordTarget :: "'i \<Rightarrow> u64 \<Rightarrow> 'j option \<Rightarrow> pcstate \<Rightarrow> int \<Rightarrow> 'i result"
  ip_genIndirectInfo :: "'i \<Rightarrow> int \<Rightarrow> ('j option) result"
  ip_updateDirectionInfo :: "'i \<Rightarrow> int \<Rightarrow> bool \<Rightarrow> 'i result"
  ip_deleteIndirectInfo :: "'i \<Rightarrow> int \<Rightarrow> 'j option \<Rightarrow> 'i result"
  ip_changeDirectionPrediction :: "'i \<Rightarrow> int \<Rightarrow> 'j option \<Rightarrow> bool \<Rightarrow> 'i result"

text \<open>
  A direction predictor never fails on a well-formed state, and squashing with the history a
  lookup returned gives back the state before the lookup, also after the correction for a
  missing branch target; a history that can be squashed can also be used to repair.
\<close>

locale direction_predictor =
  fixes D :: "('d, 'h) dir_ops" and dinv :: "int \<Rightarrow> 'd \<Rightarrow> bool"
  assumes lookup_law: "dinv tid d \<Longrightarrow> \<exists>t h d'. dp_lookup D d tid pc = Inr (t, h, d') \<and> dinv tid d' \<and>
      dp_squash D d' tid h = Inr d"
    and uncond_law: "dinv tid d \<Longrightarrow> \<exists>h d'. dp_uncondBranch D d tid pc = Inr (h, d') \<and> dinv tid d' \<and>
      dp_squash D d' tid h = Inr d"
    and btb_law: "dinv tid d \<Longrightarrow> dp_squash D d tid h = Inr d0 \<Longrightarrow>
      \<exists>d'. dp_btbUpdate D d tid pc h = Inr d' \<and> dinv tid d' \<and> dp_squash D d' tid h = Inr d0"
    and repair_law: "dinv tid d \<Longrightarrow> dp_squash D d tid h = Inr d0 \<Longrightarrow>
      \<exists>d'. dp_update D d tid pc t h True si tgt = Inr d' \<and> dinv tid d'"

text \<open>
  An indirect predictor never fails on a well-formed state, and whatever a prediction with
  sequence number \<open>sn\<close> does to it is undone by a squash of an older number followed by
  \<^verbatim>\<open>deleteIndirectInfo\<close> of the prediction's history.
\<close>

definition ind_undone :: "('i, 'j) ind_ops \<Rightarrow> int \<Rightarrow> u64 \<Rightarrow> 'i \<Rightarrow> 'j option \<Rightarrow> 'i \<Rightarrow> bool" where
  "ind_undone I tid s i h i' \<longleftrightarrow>
     rbind (ip_squash I i' s tid) (\<lambda>q. ip_deleteIndirectInfo I q tid h) = ip_squash I i s tid"

locale indirect_predictor =
  fixes I :: "('i, 'j) ind_ops" and iinv :: "int \<Rightarrow> 'i \<Rightarrow> bool"
  assumes gen_law: "iinv tid i \<Longrightarrow> \<exists>h. ip_genIndirectInfo I i tid = Inr h \<and> ind_undone I tid s i h i"
    and lookup_total: "iinv tid i \<Longrightarrow> \<exists>t. ip_lookup I i pc tid = Inr t"
    and squash_total: "iinv tid i \<Longrightarrow> \<exists>j. ip_squash I i s tid = Inr j \<and> iinv tid j"
    and change_law: "iinv tid i \<Longrightarrow> ip_deleteIndirectInfo I j tid h = Inr k \<Longrightarrow>
      \<exists>i'. ip_changeDirectionPrediction I i tid h b = Inr i' \<and> iinv tid i'"
    and record_law: "iinv tid i \<Longrightarrow> iinv tid i' \<Longrightarrow> s < sn \<Longrightarrow> ind_undone I tid s i h i' \<Longrightarrow>
      \<exists>i''. ip_recordIndirect I i' br tgt sn tid = Inr i'' \<and> iinv tid i'' \<and> ind_undone I tid s i h i''"
    and direction_law: "iinv tid i \<Longrightarrow> iinv tid i' \<Longrightarrow> ind_undone I tid s i h i' \<Longrightarrow>
      \<exists>i''. ip_updateDirectionInfo I i' tid b = Inr i'' \<and> iinv tid i'' \<and> ind_undone I tid s i h i''"

end
