(* ===== verification/SatCounter.thy ===== *)
theory SatCounter
  imports Prelude
begin

unbundle bit_operations_syntax

text \<open>
  \<^verbatim>\<open>base/sat_counter.hh\<close> at \<^verbatim>\<open>T = uint8_t\<close> (\<^verbatim>\<open>SatCounter8\<close>, the counter of the
  branch predictors). Operands narrower than \<^verbatim>\<open>int\<close> are promoted, so differences and shifts are
  computed there and truncated when stored; a shift whose result does not fit, by the rules of
  C++17, is \<open>Undefined\<close>.
\<close>

record sat_counter =
  sc_initialVal :: u8
  sc_maxVal :: u8
  sc_counter :: u8

definition sat_new :: "nat \<Rightarrow> u8 \<Rightarrow> sat_counter result" where
  "sat_new bits initial_val =
     (if bits \<ge> 64 then Inl Undefined
      else let maxVal = ucast (push_bit bits 1 - 1 :: u64) :: u8 in
        if bits > 8 then Inl Fatal
        else if initial_val > maxVal then Inl Fatal
        else Inr \<lparr>sc_initialVal = initial_val, sc_maxVal = maxVal, sc_counter = initial_val\<rparr>)"

definition sat_inc :: "sat_counter \<Rightarrow> sat_counter" where
  "sat_inc c = (if sc_counter c < sc_maxVal c then c\<lparr>sc_counter := sc_counter c + 1\<rparr> else c)"

definition sat_dec :: "sat_counter \<Rightarrow> sat_counter" where
  "sat_dec c = (if sc_counter c > 0 then c\<lparr>sc_counter := sc_counter c - 1\<rparr> else c)"

definition sat_shr :: "sat_counter \<Rightarrow> int \<Rightarrow> sat_counter result" where
  "sat_shr c shift =
     rbind (rassert (shift \<ge> 0)) (\<lambda>_.
     if shift \<ge> 32 then Inl Undefined
     else Inr (c\<lparr>sc_counter := drop_bit (nat shift) (sc_counter c)\<rparr>))"

definition sat_shl :: "sat_counter \<Rightarrow> int \<Rightarrow> sat_counter result" where
  "sat_shl c shift =
     rbind (rassert (shift \<ge> 0)) (\<lambda>_.
     if shift \<ge> 32 \<or> unat (sc_counter c) * 2 ^ nat shift \<ge> 2 ^ 32 then Inl Undefined
     else let v = push_bit (nat shift) (sc_counter c) in
       Inr (c\<lparr>sc_counter := (if v > sc_maxVal c then sc_maxVal c else v)\<rparr>))"

text \<open>The two branches for a non-negative \<^verbatim>\<open>long long\<close>.\<close>

definition sat_add_nonneg :: "sat_counter \<Rightarrow> int \<Rightarrow> sat_counter" where
  "sat_add_nonneg c v =
     (if uint (sc_maxVal c) - uint (sc_counter c) \<ge> v
      then c\<lparr>sc_counter := word_of_int (uint (sc_counter c) + v)\<rparr> else c\<lparr>sc_counter := sc_maxVal c\<rparr>)"

definition sat_sub_nonneg :: "sat_counter \<Rightarrow> int \<Rightarrow> sat_counter" where
  "sat_sub_nonneg c v =
     (if uint (sc_counter c) > v
      then c\<lparr>sc_counter := word_of_int (uint (sc_counter c) - v)\<rparr> else c\<lparr>sc_counter := 0\<rparr>)"

definition sat_add :: "sat_counter \<Rightarrow> int \<Rightarrow> sat_counter result" where
  "sat_add c v =
     (if v \<ge> 0 then Inr (sat_add_nonneg c v)
      else if v = - (2 ^ 63) then Inl Undefined
      else Inr (sat_sub_nonneg c (- v)))"

definition sat_sub :: "sat_counter \<Rightarrow> int \<Rightarrow> sat_counter result" where
  "sat_sub c v =
     (if v \<ge> 0 then Inr (sat_sub_nonneg c v)
      else if v = - (2 ^ 63) then Inl Undefined
      else Inr (sat_add_nonneg c (- v)))"

definition sat_reset :: "sat_counter \<Rightarrow> sat_counter" where
  "sat_reset c = c\<lparr>sc_counter := sc_initialVal c\<rparr>"

definition sat_isSaturated :: "sat_counter \<Rightarrow> bool" where
  "sat_isSaturated c \<longleftrightarrow> sc_counter c = sc_maxVal c"

definition sat_saturate :: "sat_counter \<Rightarrow> sat_counter \<times> u8" where
  "sat_saturate c = (c\<lparr>sc_counter := sc_maxVal c\<rparr>, sc_maxVal c - sc_counter c)"

section \<open>Saturation\<close>

definition sat_wf :: "sat_counter \<Rightarrow> bool" where
  "sat_wf c \<longleftrightarrow> sc_initialVal c \<le> sc_maxVal c \<and> sc_counter c \<le> sc_maxVal c"

lemma sat_new_eq:
  assumes "bits \<le> 8" "unat v < 2 ^ bits"
  shows "\<exists>c. sat_new bits v = Inr c \<and> sat_wf c \<and> unat (sc_maxVal c) = 2 ^ bits - 1 \<and> sc_counter c = v"
proof -
  have "(push_bit bits 1 - 1 :: u64) = mask bits" by (simp add: mask_eq_exp_minus_1)
  moreover have "unat (ucast (mask bits :: u64) :: u8) = 2 ^ bits - 1"
  proof -
    have "uint (mask bits :: u64) = mask bits" using assms(1) by (simp add: uint_mask_eq min_def)
    then have "unat (mask bits :: u64) = nat (2 ^ bits - 1)"
      by (simp only: unat_eq_nat_uint mask_eq_exp_minus_1 [of bits, where ?'a = int])
    then have "unat (mask bits :: u64) = 2 ^ bits - 1" by (simp add: nat_diff_distrib nat_power_eq)
    moreover have "(2::nat) ^ bits \<le> 2 ^ 8" using assms(1) by (intro power_increasing) simp_all
    then have "(2::nat) ^ bits - 1 < 256" by simp
    ultimately show ?thesis by (simp add: unsigned_ucast_eq take_bit_nat_eq_self)
  qed
  ultimately show ?thesis
    using assms by (auto simp: sat_new_def Let_def sat_wf_def word_le_nat_alt word_less_nat_alt)
qed

lemma sat_inc_props:
  "sc_maxVal (sat_inc c) = sc_maxVal c" "sc_initialVal (sat_inc c) = sc_initialVal c"
  "sat_wf c \<Longrightarrow> sat_wf (sat_inc c)"
  "unat (sc_counter (sat_inc c)) = (if sc_counter c < sc_maxVal c then Suc (unat (sc_counter c)) else unat (sc_counter c))"
  by (auto simp: sat_inc_def sat_wf_def inc_le unat_inc)

lemma sat_dec_props:
  "sc_maxVal (sat_dec c) = sc_maxVal c" "sc_initialVal (sat_dec c) = sc_initialVal c"
  "sat_wf c \<Longrightarrow> sat_wf (sat_dec c)"
  "unat (sc_counter (sat_dec c)) = unat (sc_counter c) - 1"
  by (auto simp: sat_dec_def sat_wf_def word_gt_0 unat_minus_one intro: word_dec_le)

lemma sat_wf_uint: "sat_wf c \<Longrightarrow> uint (sc_counter c) \<le> uint (sc_maxVal c) \<and> uint (sc_maxVal c) < 256 \<and> 0 \<le> uint (sc_counter c)"
proof -
  have "uint (sc_maxVal c) < 2 ^ LENGTH(8)" by (rule unsigned_less)
  then show "sat_wf c \<Longrightarrow> ?thesis" by (simp add: sat_wf_def word_le_def)
qed

lemma sat_sub_zero: "sat_sub_nonneg c 0 = c"
proof (cases "sc_counter c = 0")
  case True
  then show ?thesis by (cases c) (simp add: sat_sub_nonneg_def)
next
  case False
  then have "0 < uint (sc_counter c)" by (metis uint_ge_0 unsigned_eq_0_iff order_le_less)
  then show ?thesis by (cases c) (simp add: sat_sub_nonneg_def)
qed

lemma uint8_of_int: "0 \<le> k \<Longrightarrow> k < 256 \<Longrightarrow> uint (word_of_int k :: u8) = k"
  by (simp add: uint_word_of_int)

text \<open>
  Addition saturates at both ends. For every \<^verbatim>\<open>long long\<close> but the most negative one, adding
  it to a well-formed counter succeeds and gives the exact sum clamped to the range from 0 to the
  maximum; subtraction is addition of the opposite.
\<close>

lemma sat_add_clamps:
  assumes "sat_wf c" "- (2 ^ 63) < v" "v < 2 ^ 63"
  shows "\<exists>c'. sat_add c v = Inr c' \<and> sat_wf c' \<and>
    uint (sc_counter c') = max 0 (min (uint (sc_maxVal c)) (uint (sc_counter c) + v)) \<and>
    sat_sub c (- v) = Inr c'"
proof -
  note b = sat_wf_uint [OF assms(1)]
  note u = uint8_of_int [of "uint (sc_counter c) + v"]
  consider "v > 0" | "v = 0" | "v < 0" by linarith
  then show ?thesis
  proof cases
    case 1
    then show ?thesis
      using b assms u by (auto simp: sat_add_def sat_sub_def sat_add_nonneg_def sat_wf_def word_le_def)
  next
    case 2
    then show ?thesis
      using b assms by (simp add: sat_add_def sat_sub_def sat_sub_zero sat_add_nonneg_def)
  next
    case 3
    then show ?thesis
      using b assms u by (auto simp: sat_add_def sat_sub_def sat_sub_nonneg_def sat_wf_def word_le_def)
  qed
qed

lemma sat_add_clamps_witness:
  "\<exists>c c'. sat_new 2 1 = Inr c \<and> sat_add c 9 = Inr c' \<and> uint (sc_counter c') = 3"
proof -
  obtain c where c: "sat_new 2 1 = Inr c" "sat_wf c" "unat (sc_maxVal c) = 3" "sc_counter c = 1"
    using sat_new_eq [of 2 1] by auto
  have "uint (sc_maxVal c) = 3" using c(3) by (simp only: uint_nat of_nat_numeral)
  with sat_add_clamps [OF c(2), of 9] c show ?thesis by auto
qed

text \<open>
  Shifting left saturates only while the shifted value fits the container. Within eight bits the
  result is the exact product clamped to the maximum; beyond them the product is truncated first, so a
  large counter can drop to a small value instead of saturating.
\<close>

lemma sat_shl_truncates:
  assumes "sat_wf c" "0 \<le> k" "k < 24"
  shows "\<exists>c'. sat_shl c k = Inr c' \<and> sat_wf c' \<and>
    unat (sc_counter c') = min (unat (sc_maxVal c)) ((unat (sc_counter c) * 2 ^ nat k) mod 256)"
proof -
  let ?n = "unat (sc_counter c)"
  have "?n < 256" using unsigned_less [of "sc_counter c"] by simp
  moreover have "(2::nat) ^ nat k \<le> 2 ^ 23" using assms by (intro power_increasing) auto
  ultimately have "?n * 2 ^ nat k \<le> 255 * 2 ^ 23" by (intro mult_mono) simp_all
  then have ok: "?n * 2 ^ nat k < 2 ^ 32" by simp
  have "unat (push_bit (nat k) (sc_counter c)) = take_bit LENGTH(8) (push_bit (nat k) ?n)"
    by (rule unsigned_push_bit_eq)
  then have v: "unat (push_bit (nat k) (sc_counter c)) = (?n * 2 ^ nat k) mod 256"
    unfolding push_bit_eq_mult [of "nat k" ?n] take_bit_eq_mod by simp
  show ?thesis
    using assms ok v
    by (auto simp: sat_shl_def Let_def sat_wf_def word_le_nat_alt word_less_nat_alt min_def)
qed

lemma sat_shl_truncates_witness:
  "\<exists>c c'. sat_new 8 128 = Inr c \<and> sat_shl c 1 = Inr c' \<and> sc_counter c' = 0"
proof -
  obtain c where c: "sat_new 8 128 = Inr c" "sat_wf c" "unat (sc_maxVal c) = 255" "sc_counter c = 128"
    using sat_new_eq [of 8 128] by auto
  with sat_shl_truncates [OF c(2), of 1] show ?thesis by (auto simp: unat_eq_zero)
qed

end
