(* ===== verification/LocalBP.thy ===== *)
theory LocalBP
  imports DirPred IntMath SatCounter
begin

unbundle bit_operations_syntax

text \<open>
  The local direction predictor, \<^verbatim>\<open>cpu/pred/2bit_local.hh\<close> and \<^verbatim>\<open>2bit_local.cc\<close>: a table
  of saturating counters indexed by the branch address. It keeps no history object, so every
  history pointer it sees is null.
\<close>

record local_bp =
  lbp_localPredictorSize :: u32
  lbp_localCtrBits :: u32
  lbp_localPredictorSets :: u32
  lbp_localCtrs :: "sat_counter list"
  lbp_indexMask :: u32
  lbp_instShiftAmt :: nat

definition lbp_new :: "u32 \<Rightarrow> u32 \<Rightarrow> nat \<Rightarrow> local_bp result" where
  "lbp_new localPredictorSize localCtrBits instShiftAmt =
     (if localCtrBits = 0 then Inl Undefined
      else let sets = localPredictorSize div localCtrBits in
        rbind (sat_new (unat localCtrBits) 0) (\<lambda>c.
        if \<not> isPowerOf2 localPredictorSize then Inl Fatal
        else if \<not> isPowerOf2 sets then Inl Fatal
        else Inr \<lparr>lbp_localPredictorSize = localPredictorSize, lbp_localCtrBits = localCtrBits,
               lbp_localPredictorSets = sets, lbp_localCtrs = replicate (unat sets) c,
               lbp_indexMask = sets - 1, lbp_instShiftAmt = instShiftAmt\<rparr>))"

definition lbp_getPrediction :: "local_bp \<Rightarrow> u8 \<Rightarrow> bool result" where
  "lbp_getPrediction l count =
     (let s = lbp_localCtrBits l - 1 in
      if s \<ge> 32 then Inl Undefined else Inr (drop_bit (unat s) count \<noteq> 0))"

definition lbp_getLocalIndex :: "local_bp \<Rightarrow> u64 \<Rightarrow> u32 result" where
  "lbp_getLocalIndex l branch_addr =
     (if lbp_instShiftAmt l \<ge> 64 then Inl Undefined
      else Inr (ucast (drop_bit (lbp_instShiftAmt l) branch_addr AND ucast (lbp_indexMask l))))"

definition lbp_btbUpdate :: "local_bp \<Rightarrow> int \<Rightarrow> u64 \<Rightarrow> unit option \<Rightarrow> local_bp result" where
  "lbp_btbUpdate l tid branch_addr bp_history = Inr l"

definition lbp_lookup :: "local_bp \<Rightarrow> int \<Rightarrow> u64 \<Rightarrow> (bool \<times> unit option \<times> local_bp) result" where
  "lbp_lookup l tid branch_addr =
     rbind (lbp_getLocalIndex l branch_addr) (\<lambda>idx.
     rbind (vec_at (lbp_localCtrs l) (unat idx)) (\<lambda>c.
     rbind (lbp_getPrediction l (sc_counter c)) (\<lambda>taken. Inr (taken, None, l))))"

definition lbp_update ::
  "local_bp \<Rightarrow> int \<Rightarrow> u64 \<Rightarrow> bool \<Rightarrow> unit option \<Rightarrow> bool \<Rightarrow> static_inst \<Rightarrow> u64 \<Rightarrow> local_bp result" where
  "lbp_update l tid branch_addr taken bp_history squashed inst corrTarget =
     rbind (rassert (bp_history = None)) (\<lambda>_.
     if squashed then Inr l
     else rbind (lbp_getLocalIndex l branch_addr) (\<lambda>idx.
       rbind (vec_at (lbp_localCtrs l) (unat idx)) (\<lambda>c.
       rbind (vec_set (lbp_localCtrs l) (unat idx) (if taken then sat_inc c else sat_dec c)) (\<lambda>cs.
       Inr (l\<lparr>lbp_localCtrs := cs\<rparr>)))))"

definition lbp_squash :: "local_bp \<Rightarrow> int \<Rightarrow> unit option \<Rightarrow> local_bp result" where
  "lbp_squash l tid bp_history = rbind (rassert (bp_history = None)) (\<lambda>_. Inr l)"

definition lbp_uncondBranch :: "local_bp \<Rightarrow> int \<Rightarrow> u64 \<Rightarrow> (unit option \<times> local_bp) result" where
  "lbp_uncondBranch l tid pc = Inr (None, l)"

definition lbp_ops :: "(local_bp, unit) dir_ops" where
  "lbp_ops = \<lparr>dp_lookup = lbp_lookup, dp_uncondBranch = lbp_uncondBranch, dp_btbUpdate = lbp_btbUpdate,
     dp_update = lbp_update, dp_squash = lbp_squash\<rparr>"

section \<open>Well-formed predictors\<close>

definition lbp_wf :: "local_bp \<Rightarrow> bool" where
  "lbp_wf l \<longleftrightarrow> 0 < lbp_localCtrBits l \<and> lbp_localCtrBits l \<le> 8 \<and> 0 < lbp_localPredictorSets l \<and>
     lbp_instShiftAmt l < 64 \<and> lbp_indexMask l = lbp_localPredictorSets l - 1 \<and>
     length (lbp_localCtrs l) = unat (lbp_localPredictorSets l) \<and>
     list_all (\<lambda>c. sat_wf c \<and> unat (sc_maxVal c) = 2 ^ unat (lbp_localCtrBits l) - 1) (lbp_localCtrs l)"

lemma lbp_new_wf:
  assumes "lbp_new sz bits sh = Inr l" "sh < 64" "bits \<le> 8"
  shows "lbp_wf l"
proof -
  have b: "bits \<noteq> 0" using assms(1) by (auto simp: lbp_new_def)
  have "unat bits \<le> 8" using assms(3) by (simp add: word_le_nat_alt)
  then obtain c where c: "sat_new (unat bits) 0 = Inr c" "sat_wf c" "unat (sc_maxVal c) = 2 ^ unat bits - 1"
    using sat_new_eq [of "unat bits" 0] by auto
  show ?thesis using assms b c
    by (auto simp: lbp_new_def lbp_wf_def Let_def isPowerOf2_def word_gt_0 list_all_iff split: if_splits)
qed

lemma lbp_index_ok:
  assumes "lbp_wf l"
  obtains i where "lbp_getLocalIndex l pc = Inr i" "unat i < length (lbp_localCtrs l)"
  using assms masked_index_less [of "lbp_localPredictorSets l" "lbp_indexMask l"]
  by (auto simp: lbp_getLocalIndex_def lbp_wf_def word_less_nat_alt)

lemma lbp_index_less:
  assumes "lbp_wf l" "lbp_getLocalIndex l pc = Inr i"
  shows "unat i < length (lbp_localCtrs l)"
  by (rule lbp_index_ok [OF assms(1), of pc]) (use assms(2) in simp)

lemma lbp_prediction_eq:
  assumes "lbp_wf l"
  shows "lbp_getPrediction l c = Inr (2 ^ (unat (lbp_localCtrBits l) - 1) \<le> unat c)"
proof -
  have b: "0 < lbp_localCtrBits l" "lbp_localCtrBits l \<le> 8" using assms by (simp_all add: lbp_wf_def)
  then have u: "unat (lbp_localCtrBits l - 1) = unat (lbp_localCtrBits l) - 1" by (intro unat_minus_one) auto
  then have "lbp_localCtrBits l - 1 < 32" using b by (simp add: word_less_nat_alt word_le_nat_alt)
  moreover have "drop_bit k c \<noteq> 0 \<longleftrightarrow> 2 ^ k \<le> unat c" for k
    by (simp add: word_unat_eq_iff unat_drop_bit_div div_eq_0_iff not_less)
  ultimately show ?thesis using u by (simp add: lbp_getPrediction_def Let_def not_le)
qed

lemma lbp_lookup_eq:
  assumes "lbp_wf l" "lbp_getLocalIndex l pc = Inr i"
  shows "lbp_lookup l tid pc =
    Inr (2 ^ (unat (lbp_localCtrBits l) - 1) \<le> unat (sc_counter (lbp_localCtrs l ! unat i)), None, l)"
  using lbp_index_less [OF assms] assms(2) lbp_prediction_eq [OF assms(1)]
  by (simp add: lbp_lookup_def)

lemma lbp_update_eq:
  assumes "lbp_wf l" "lbp_getLocalIndex l pc = Inr i"
  shows "lbp_update l tid pc taken None False si tgt = Inr (l\<lparr>lbp_localCtrs := (lbp_localCtrs l)[unat i :=
      (if taken then sat_inc else sat_dec) (lbp_localCtrs l ! unat i)]\<rparr>)"
    and "lbp_wf (l\<lparr>lbp_localCtrs := (lbp_localCtrs l)[unat i :=
      (if taken then sat_inc else sat_dec) (lbp_localCtrs l ! unat i)]\<rparr>)"
proof -
  show "lbp_update l tid pc taken None False si tgt = Inr (l\<lparr>lbp_localCtrs := (lbp_localCtrs l)[unat i :=
      (if taken then sat_inc else sat_dec) (lbp_localCtrs l ! unat i)]\<rparr>)"
    using lbp_index_less [OF assms] assms(2) by (simp add: lbp_update_def)
  show "lbp_wf (l\<lparr>lbp_localCtrs := (lbp_localCtrs l)[unat i :=
      (if taken then sat_inc else sat_dec) (lbp_localCtrs l ! unat i)]\<rparr>)"
    using assms(1) lbp_index_less [OF assms]
    by (auto simp: lbp_wf_def list_all_length nth_list_update sat_inc_props sat_dec_props)
qed

interpretation lbpd: direction_predictor lbp_ops "\<lambda>tid. lbp_wf"
proof (unfold_locales, goal_cases)
  case (1 tid d pc)
  then obtain i where "lbp_getLocalIndex d pc = Inr i" using lbp_index_ok by metis
  then show ?case using lbp_lookup_eq [OF 1] 1 by (simp add: lbp_ops_def lbp_squash_def)
qed (auto simp: lbp_ops_def lbp_uncondBranch_def lbp_btbUpdate_def lbp_squash_def lbp_update_def rbind_Inr_iff)


section \<open>Training\<close>

lemma sat_inc_iter: "sat_wf c \<Longrightarrow> sat_wf ((sat_inc ^^ n) c) \<and> sc_maxVal ((sat_inc ^^ n) c) = sc_maxVal c \<and>
    unat (sc_counter ((sat_inc ^^ n) c)) = min (unat (sc_maxVal c)) (unat (sc_counter c) + n)"
  by (induction n) (auto simp: sat_inc_props word_less_nat_alt sat_wf_def word_le_nat_alt min_def)

lemma sat_dec_iter: "sat_wf c \<Longrightarrow> sat_wf ((sat_dec ^^ n) c) \<and> sc_maxVal ((sat_dec ^^ n) c) = sc_maxVal c \<and>
    unat (sc_counter ((sat_dec ^^ n) c)) = unat (sc_counter c) - n"
  by (induction n) (auto simp: sat_dec_props)

lemma lbp_index_ctrs [simp]: "lbp_getLocalIndex (l\<lparr>lbp_localCtrs := cs\<rparr>) pc = lbp_getLocalIndex l pc"
  by (simp add: lbp_getLocalIndex_def)

fun lbp_train :: "local_bp \<Rightarrow> int \<Rightarrow> u64 \<Rightarrow> bool \<Rightarrow> static_inst \<Rightarrow> u64 \<Rightarrow> nat \<Rightarrow> local_bp result" where
  "lbp_train l tid pc taken si tgt 0 = Inr l"
| "lbp_train l tid pc taken si tgt (Suc n) =
     rbind (lbp_train l tid pc taken si tgt n) (\<lambda>l. lbp_update l tid pc taken None False si tgt)"

lemma lbp_train_eq:
  assumes "lbp_wf l" "lbp_getLocalIndex l pc = Inr i"
  shows "lbp_train l tid pc taken si tgt n = Inr (l\<lparr>lbp_localCtrs := (lbp_localCtrs l)[unat i :=
      ((if taken then sat_inc else sat_dec) ^^ n) (lbp_localCtrs l ! unat i)]\<rparr>) \<and>
    lbp_wf (l\<lparr>lbp_localCtrs := (lbp_localCtrs l)[unat i :=
      ((if taken then sat_inc else sat_dec) ^^ n) (lbp_localCtrs l ! unat i)]\<rparr>)"
proof (induction n)
  case 0
  then show ?case using assms(1) by simp
next
  case (Suc n)
  note upd = lbp_update_eq [OF conjunct2 [OF Suc.IH], of pc i]
  show ?case using Suc.IH upd assms(2) lbp_index_less [OF assms] by simp
qed

section \<open>Properties\<close>

text \<open>C37: Training. After half the counter range of commits in one direction, whatever the state
  before, the local predictor predicts that direction for the branch; the prediction of every
  branch with another index is what it was.\<close>

theorem lbp_learns_direction:
  assumes "lbp_wf l" "2 ^ (unat (lbp_localCtrBits l) - 1) \<le> n"
  shows "\<exists>l'. lbp_train l tid pc taken si tgt n = Inr l' \<and> lbp_wf l' \<and>
    lbp_lookup l' tid pc = Inr (taken, None, l') \<and>
    (\<forall>pc'. lbp_getLocalIndex l pc' \<noteq> lbp_getLocalIndex l pc \<longrightarrow>
      (\<exists>t. lbp_lookup l tid pc' = Inr (t, None, l) \<and> lbp_lookup l' tid pc' = Inr (t, None, l')))"
proof -
  obtain i where i: "lbp_getLocalIndex l pc = Inr i" "unat i < length (lbp_localCtrs l)"
    using lbp_index_ok [OF assms(1)] by metis
  let ?k = "2 ^ (unat (lbp_localCtrBits l) - 1) :: nat"
  let ?c = "lbp_localCtrs l ! unat i"
  define l' where "l' = l\<lparr>lbp_localCtrs := (lbp_localCtrs l)[unat i :=
      ((if taken then sat_inc else sat_dec) ^^ n) ?c]\<rparr>"
  note tr = lbp_train_eq [OF assms(1) i(1), of tid taken si tgt n, folded l'_def]
  have idx: "lbp_getLocalIndex l' pc' = lbp_getLocalIndex l pc'" for pc' by (simp add: l'_def)
  have b: "0 < unat (lbp_localCtrBits l)" using assms(1) by (simp add: lbp_wf_def unat_gt_0 word_gt_0)
  have c: "sat_wf ?c" "unat (sc_maxVal ?c) = 2 ^ unat (lbp_localCtrBits l) - 1"
    using assms(1) i(2) by (auto simp: lbp_wf_def list_all_length)
  have dbl: "(2::nat) ^ unat (lbp_localCtrBits l) = 2 * ?k"
    using b by (cases "unat (lbp_localCtrBits l)") simp_all
  have m: "?k \<le> unat (sc_maxVal ?c)" "unat (sc_maxVal ?c) < 2 * ?k" unfolding c(2) dbl
    by (simp_all add: Suc_leI)
  have "unat (sc_counter ?c) \<le> unat (sc_maxVal ?c)" using c(1) by (simp add: sat_wf_def word_le_nat_alt)
  with m assms(2) have "?k \<le> unat (sc_counter (lbp_localCtrs l' ! unat i)) \<longleftrightarrow> taken"
    using sat_inc_iter [OF c(1), of n] sat_dec_iter [OF c(1), of n] i(2) by (auto simp: l'_def)
  then have self: "lbp_lookup l' tid pc = Inr (taken, None, l')"
    using lbp_lookup_eq [OF conjunct2 [OF tr], of pc i tid] idx i(1) by (simp add: l'_def)
  have other: "\<exists>t. lbp_lookup l tid pc' = Inr (t, None, l) \<and> lbp_lookup l' tid pc' = Inr (t, None, l')"
    if "lbp_getLocalIndex l pc' \<noteq> lbp_getLocalIndex l pc" for pc'
  proof -
    obtain j where j: "lbp_getLocalIndex l pc' = Inr j" using lbp_index_ok [OF assms(1)] by metis
    then have "unat j \<noteq> unat i" using that i(1) by (simp add: word_unat_eq_iff)
    then show ?thesis
      using lbp_lookup_eq [OF assms(1) j] lbp_lookup_eq [OF conjunct2 [OF tr], of pc' j] j idx by (simp add: l'_def)
  qed
  show ?thesis using tr self other by blast
qed

theorem lbp_learns_direction_witness:
  "\<exists>l l'. lbp_new 8 2 2 = Inr l \<and> lbp_train l 0 0x40 True (StaticInst [IsControl] 0 [] [] []) 0x80 2 = Inr l' \<and>
     lbp_lookup l 0 0x40 = Inr (False, None, l) \<and> lbp_lookup l' 0 0x40 = Inr (True, None, l')"
proof -
  obtain l where l: "lbp_new 8 2 2 = Inr l" "lbp_lookup l 0 0x40 = Inr (False, None, l)" "lbp_localCtrBits l = 2"
    by (simp add: lbp_new_def sat_new_def isPowerOf2_def Let_def lbp_lookup_def lbp_getLocalIndex_def
        lbp_getPrediction_def word_le_nat_alt)
  then have "lbp_wf l" by (intro lbp_new_wf [OF l(1)]) simp_all
  then show ?thesis using lbp_learns_direction [of l 2 0 "0x40" True "StaticInst [IsControl] 0 [] [] []" "0x80"] l
    by auto
qed

end
