(* ===== verification/BiMode.thy ===== *)
theory BiMode
  imports DirPred IntMath SatCounter
begin

unbundle bit_operations_syntax

text \<open>
  The bi-mode direction predictor, \<^verbatim>\<open>cpu/pred/bi_mode.hh\<close> and \<^verbatim>\<open>bi_mode.cc\<close>: a choice
  table indexed by the branch address and two direction tables indexed by the address hashed
  with a per-thread global history register, which lookups update speculatively.
\<close>

record bm_history =
  bmh_globalHistoryReg :: u32
  bmh_takenUsed :: bool
  bmh_takenPred :: bool
  bmh_notTakenPred :: bool
  bmh_finalPred :: bool

record bimode =
  bm_globalHistoryReg :: "u32 list"
  bm_globalHistoryBits :: nat
  bm_historyRegisterMask :: u32
  bm_choicePredictorSize :: u32
  bm_choiceHistoryMask :: u32
  bm_globalPredictorSize :: u32
  bm_globalHistoryMask :: u32
  bm_choiceCounters :: "sat_counter list"
  bm_takenCounters :: "sat_counter list"
  bm_notTakenCounters :: "sat_counter list"
  bm_choiceThreshold :: u32
  bm_takenThreshold :: u32
  bm_notTakenThreshold :: u32
  bm_instShiftAmt :: nat

definition bm_threshold :: "u32 \<Rightarrow> u32 result" where
  "bm_threshold ctrBits =
     (if ctrBits - 1 \<ge> 64 then Inl Undefined else Inr (ucast (push_bit (unat (ctrBits - 1)) 1 - 1 :: u64)))"

definition bm_new :: "u32 \<Rightarrow> u32 \<Rightarrow> u32 \<Rightarrow> u32 \<Rightarrow> u32 \<Rightarrow> nat \<Rightarrow> bimode result" where
  "bm_new numThreads choicePredictorSize choiceCtrBits globalPredictorSize globalCtrBits instShiftAmt =
     rbind (ceilLog2 4 (ucast globalPredictorSize)) (\<lambda>bits.
     rbind (sat_new (unat choiceCtrBits) 0) (\<lambda>c.
     rbind (sat_new (unat globalCtrBits) 0) (\<lambda>g.
     if \<not> isPowerOf2 choicePredictorSize then Inl Fatal
     else if \<not> isPowerOf2 globalPredictorSize then Inl Fatal
     else rbind (bm_threshold choiceCtrBits) (\<lambda>ct.
       rbind (bm_threshold globalCtrBits) (\<lambda>gt.
       Inr \<lparr>bm_globalHistoryReg = replicate (unat numThreads) 0, bm_globalHistoryBits = bits,
            bm_historyRegisterMask = ucast (mask bits :: u64),
            bm_choicePredictorSize = choicePredictorSize, bm_choiceHistoryMask = choicePredictorSize - 1,
            bm_globalPredictorSize = globalPredictorSize, bm_globalHistoryMask = globalPredictorSize - 1,
            bm_choiceCounters = replicate (unat choicePredictorSize) c,
            bm_takenCounters = replicate (unat globalPredictorSize) g,
            bm_notTakenCounters = replicate (unat globalPredictorSize) g,
            bm_choiceThreshold = ct, bm_takenThreshold = gt, bm_notTakenThreshold = gt,
            bm_instShiftAmt = instShiftAmt\<rparr>)))))"

definition bm_updateGlobalHistReg :: "bimode \<Rightarrow> int \<Rightarrow> bool \<Rightarrow> bimode result" where
  "bm_updateGlobalHistReg b tid taken =
     rbind (arr_at (bm_globalHistoryReg b) tid) (\<lambda>g.
     let g = (if taken then push_bit 1 g OR 1 else push_bit 1 g) AND bm_historyRegisterMask b in
     rbind (arr_set (bm_globalHistoryReg b) tid g) (\<lambda>gs. Inr (b\<lparr>bm_globalHistoryReg := gs\<rparr>)))"

definition bm_uncondBranch :: "bimode \<Rightarrow> int \<Rightarrow> u64 \<Rightarrow> (bm_history option \<times> bimode) result" where
  "bm_uncondBranch b tid pc =
     rbind (arr_at (bm_globalHistoryReg b) tid) (\<lambda>g.
     rbind (bm_updateGlobalHistReg b tid True) (\<lambda>b.
     Inr (Some \<lparr>bmh_globalHistoryReg = g, bmh_takenUsed = True, bmh_takenPred = True,
                bmh_notTakenPred = True, bmh_finalPred = True\<rparr>, b)))"

definition bm_squash :: "bimode \<Rightarrow> int \<Rightarrow> bm_history option \<Rightarrow> bimode result" where
  "bm_squash b tid bpHistory =
     (case bpHistory of None \<Rightarrow> Inl NullDeref
      | Some h \<Rightarrow> rbind (arr_set (bm_globalHistoryReg b) tid (bmh_globalHistoryReg h)) (\<lambda>gs.
                 Inr (b\<lparr>bm_globalHistoryReg := gs\<rparr>)))"

text \<open>The two table indices \<^verbatim>\<open>lookup\<close> and \<^verbatim>\<open>update\<close> compute, with the assertions on them.\<close>

definition bm_indices :: "bimode \<Rightarrow> u64 \<Rightarrow> u32 \<Rightarrow> (u32 \<times> u32) result" where
  "bm_indices b branchAddr ghr =
     (if bm_instShiftAmt b \<ge> 64 then Inl Undefined
      else let ci = ucast (drop_bit (bm_instShiftAmt b) branchAddr AND ucast (bm_choiceHistoryMask b));
               gi = ucast ((drop_bit (bm_instShiftAmt b) branchAddr XOR ucast ghr) AND ucast (bm_globalHistoryMask b))
           in rbind (rassert (ci < bm_choicePredictorSize b)) (\<lambda>_.
              rbind (rassert (gi < bm_globalPredictorSize b)) (\<lambda>_. Inr (ci, gi))))"

definition bm_lookup :: "bimode \<Rightarrow> int \<Rightarrow> u64 \<Rightarrow> (bool \<times> bm_history option \<times> bimode) result" where
  "bm_lookup b tid branchAddr =
     rbind (arr_at (bm_globalHistoryReg b) tid) (\<lambda>g.
     rbind (bm_indices b branchAddr g) (\<lambda>(ci, gi).
     rbind (vec_at (bm_choiceCounters b) (unat ci)) (\<lambda>cc.
     rbind (vec_at (bm_takenCounters b) (unat gi)) (\<lambda>tc.
     rbind (vec_at (bm_notTakenCounters b) (unat gi)) (\<lambda>nc.
     let choicePrediction = ucast (sc_counter cc) > bm_choiceThreshold b;
         takenGHBPrediction = ucast (sc_counter tc) > bm_takenThreshold b;
         notTakenGHBPrediction = ucast (sc_counter nc) > bm_notTakenThreshold b;
         finalPrediction = (if choicePrediction then takenGHBPrediction else notTakenGHBPrediction)
     in rbind (bm_updateGlobalHistReg b tid finalPrediction) (\<lambda>b.
        Inr (finalPrediction,
             Some \<lparr>bmh_globalHistoryReg = g, bmh_takenUsed = choicePrediction, bmh_takenPred = takenGHBPrediction,
                   bmh_notTakenPred = notTakenGHBPrediction, bmh_finalPred = finalPrediction\<rparr>, b)))))))"

definition bm_btbUpdate :: "bimode \<Rightarrow> int \<Rightarrow> u64 \<Rightarrow> bm_history option \<Rightarrow> bimode result" where
  "bm_btbUpdate b tid branchAddr bpHistory =
     rbind (arr_at (bm_globalHistoryReg b) tid) (\<lambda>g.
     rbind (arr_set (bm_globalHistoryReg b) tid (g AND (bm_historyRegisterMask b AND NOT 1))) (\<lambda>gs.
     Inr (b\<lparr>bm_globalHistoryReg := gs\<rparr>)))"

definition bm_train :: "sat_counter list \<Rightarrow> u32 \<Rightarrow> bool \<Rightarrow> sat_counter list result" where
  "bm_train cs i taken =
     rbind (vec_at cs (unat i)) (\<lambda>c. vec_set cs (unat i) (if taken then sat_inc c else sat_dec c))"

definition bm_update ::
  "bimode \<Rightarrow> int \<Rightarrow> u64 \<Rightarrow> bool \<Rightarrow> bm_history option \<Rightarrow> bool \<Rightarrow> static_inst \<Rightarrow> u64 \<Rightarrow> bimode result" where
  "bm_update b tid branchAddr taken bpHistory squashed inst corrTarget =
     (case bpHistory of None \<Rightarrow> Inl AssertFailed
      | Some history \<Rightarrow>
        if squashed then
          rbind (arr_set (bm_globalHistoryReg b) tid
                   (push_bit 1 (bmh_globalHistoryReg history) OR of_bool taken)) (\<lambda>gs.
          Inr (b\<lparr>bm_globalHistoryReg := gs\<rparr>))
        else
          rbind (bm_indices b branchAddr (bmh_globalHistoryReg history)) (\<lambda>(ci, gi).
          rbind (if bmh_takenUsed history
                 then rbind (bm_train (bm_takenCounters b) gi taken) (\<lambda>cs. Inr (b\<lparr>bm_takenCounters := cs\<rparr>))
                 else rbind (bm_train (bm_notTakenCounters b) gi taken) (\<lambda>cs. Inr (b\<lparr>bm_notTakenCounters := cs\<rparr>))) (\<lambda>b.
          let train = rbind (bm_train (bm_choiceCounters b) ci taken) (\<lambda>cs. Inr (b\<lparr>bm_choiceCounters := cs\<rparr>)) in
          if bmh_finalPred history = taken
          then (if bmh_finalPred history = bmh_takenUsed history then train else Inr b)
          else train)))"

definition bm_ops :: "(bimode, bm_history) dir_ops" where
  "bm_ops = \<lparr>dp_lookup = bm_lookup, dp_uncondBranch = bm_uncondBranch, dp_btbUpdate = bm_btbUpdate,
     dp_update = bm_update, dp_squash = bm_squash\<rparr>"

section \<open>Well-formed predictors\<close>

definition bm_wf :: "bimode \<Rightarrow> bool" where
  "bm_wf b \<longleftrightarrow> bm_instShiftAmt b < 64 \<and>
     0 < bm_choicePredictorSize b \<and> bm_choiceHistoryMask b = bm_choicePredictorSize b - 1 \<and>
     0 < bm_globalPredictorSize b \<and> bm_globalHistoryMask b = bm_globalPredictorSize b - 1 \<and>
     length (bm_choiceCounters b) = unat (bm_choicePredictorSize b) \<and>
     length (bm_takenCounters b) = unat (bm_globalPredictorSize b) \<and>
     length (bm_notTakenCounters b) = unat (bm_globalPredictorSize b)"

definition bm_inv :: "int \<Rightarrow> bimode \<Rightarrow> bool" where
  "bm_inv tid b \<longleftrightarrow> bm_wf b \<and> 0 \<le> tid \<and> nat tid < length (bm_globalHistoryReg b)"

lemma bm_new_inv:
  assumes "bm_new n cs cb gs gb sh = Inr b" "sh < 64" "0 \<le> tid" "nat tid < unat n"
  shows "bm_inv tid b"
  using assms by (auto simp: bm_new_def bm_inv_def bm_wf_def isPowerOf2_def word_gt_0 rbind_Inr_iff split: if_splits)

lemma bm_indices_ok:
  assumes "bm_wf b"
  obtains ci gi where "bm_indices b pc g = Inr (ci, gi)" "unat ci < length (bm_choiceCounters b)"
    "unat gi < length (bm_takenCounters b)" "unat gi < length (bm_notTakenCounters b)"
proof -
  have w: "bm_instShiftAmt b < 64" "0 < bm_choicePredictorSize b" "bm_choiceHistoryMask b = bm_choicePredictorSize b - 1"
    "0 < bm_globalPredictorSize b" "bm_globalHistoryMask b = bm_globalPredictorSize b - 1"
    using assms by (simp_all add: bm_wf_def)
  let ?ci = "ucast (drop_bit (bm_instShiftAmt b) pc AND ucast (bm_choiceHistoryMask b)) :: u32"
  let ?gi = "ucast ((drop_bit (bm_instShiftAmt b) pc XOR ucast g) AND ucast (bm_globalHistoryMask b)) :: u32"
  have lt: "?ci < bm_choicePredictorSize b" "?gi < bm_globalPredictorSize b"
    by (rule masked_index_less [OF w(2,3)], rule masked_index_less [OF w(4,5)])
  then have "bm_indices b pc g = Inr (?ci, ?gi)" using w(1) by (simp add: bm_indices_def Let_def)
  with that lt show ?thesis using assms by (simp add: bm_wf_def word_less_nat_alt)
qed

lemma bm_wf_ghr [simp]: "bm_wf (b\<lparr>bm_globalHistoryReg := gs\<rparr>) = bm_wf b"
  by (simp add: bm_wf_def)

lemma bm_update_ghr_eq:
  assumes "bm_inv tid b"
  obtains g where "bm_updateGlobalHistReg b tid taken = Inr (b\<lparr>bm_globalHistoryReg := (bm_globalHistoryReg b)[nat tid := g]\<rparr>)"
  using assms by (auto simp: bm_updateGlobalHistReg_def bm_inv_def Let_def)

text \<open>Storing into the history register of a thread and restoring it.\<close>

lemma bm_ghr_restore:
  "bm_inv tid b \<Longrightarrow> bmh_globalHistoryReg h = bm_globalHistoryReg b ! nat tid \<Longrightarrow>
    bm_squash (b\<lparr>bm_globalHistoryReg := (bm_globalHistoryReg b)[nat tid := g]\<rparr>) tid (Some h) = Inr b"
  by (simp add: bm_squash_def bm_inv_def)

lemma bm_lookup_undo:
  assumes "bm_inv tid b"
  shows "\<exists>t h b'. bm_lookup b tid pc = Inr (t, h, b') \<and> bm_inv tid b' \<and> bm_squash b' tid h = Inr b"
proof -
  let ?g = "bm_globalHistoryReg b ! nat tid"
  have wf: "bm_wf b" and g: "arr_at (bm_globalHistoryReg b) tid = Inr ?g" using assms by (simp_all add: bm_inv_def)
  obtain ci gi where i: "bm_indices b pc ?g = Inr (ci, gi)" "unat ci < length (bm_choiceCounters b)"
    "unat gi < length (bm_takenCounters b)" "unat gi < length (bm_notTakenCounters b)"
    by (rule bm_indices_ok [OF wf])
  let ?cp = "ucast (sc_counter (bm_choiceCounters b ! unat ci)) > bm_choiceThreshold b"
  let ?tp = "ucast (sc_counter (bm_takenCounters b ! unat gi)) > bm_takenThreshold b"
  let ?np = "ucast (sc_counter (bm_notTakenCounters b ! unat gi)) > bm_notTakenThreshold b"
  let ?fp = "if ?cp then ?tp else ?np"
  obtain g' where "bm_updateGlobalHistReg b tid ?fp = Inr (b\<lparr>bm_globalHistoryReg := (bm_globalHistoryReg b)[nat tid := g']\<rparr>)"
    by (rule bm_update_ghr_eq [OF assms])
  then have "bm_lookup b tid pc = Inr (?fp, Some \<lparr>bmh_globalHistoryReg = ?g, bmh_takenUsed = ?cp, bmh_takenPred = ?tp,
      bmh_notTakenPred = ?np, bmh_finalPred = ?fp\<rparr>, b\<lparr>bm_globalHistoryReg := (bm_globalHistoryReg b)[nat tid := g']\<rparr>)"
    using g i by (simp add: bm_lookup_def Let_def)
  then show ?thesis using bm_ghr_restore [OF assms] assms by (simp add: bm_inv_def)
qed

lemma bm_uncond_undo:
  assumes "bm_inv tid b"
  shows "\<exists>h b'. bm_uncondBranch b tid pc = Inr (h, b') \<and> bm_inv tid b' \<and> bm_squash b' tid h = Inr b"
proof -
  have g: "arr_at (bm_globalHistoryReg b) tid = Inr (bm_globalHistoryReg b ! nat tid)"
    using assms by (simp add: bm_inv_def)
  obtain g' where "bm_updateGlobalHistReg b tid True = Inr (b\<lparr>bm_globalHistoryReg := (bm_globalHistoryReg b)[nat tid := g']\<rparr>)"
    by (rule bm_update_ghr_eq [OF assms])
  with g show ?thesis using bm_ghr_restore [OF assms] assms by (simp add: bm_uncondBranch_def bm_inv_def)
qed

lemma bm_btb_undo:
  assumes "bm_inv tid b" "bm_squash b tid h = Inr b0"
  shows "\<exists>b'. bm_btbUpdate b tid pc h = Inr b' \<and> bm_inv tid b' \<and> bm_squash b' tid h = Inr b0"
  using assms by (auto simp: bm_btbUpdate_def bm_squash_def bm_inv_def split: option.splits)

lemma bm_repair_total:
  assumes "bm_inv tid b" "bm_squash b tid h = Inr b0"
  shows "\<exists>b'. bm_update b tid pc t h True si tgt = Inr b' \<and> bm_inv tid b'"
  using assms by (auto simp: bm_update_def bm_squash_def bm_inv_def split: option.splits)

interpretation bmd: direction_predictor bm_ops bm_inv
  by unfold_locales (simp_all add: bm_ops_def bm_lookup_undo bm_uncond_undo bm_btb_undo bm_repair_total)

section \<open>Properties\<close>

text \<open>C38: Committing a branch trains what the comments promise and nothing else. It
  never fails; the direction table that gave the prediction moves one step towards the outcome
  at the index of the history the prediction saw, the other direction table and the history
  registers stay as they are, and the choice table moves towards the outcome unless its choice
  opposed the outcome although the final prediction was right.\<close>

theorem bm_update_selects:
  assumes "bm_wf b"
  shows "\<exists>ci gi. bm_indices b pc (bmh_globalHistoryReg h) = Inr (ci, gi) \<and>
    bm_update b tid pc taken (Some h) False si tgt = Inr (b\<lparr>
      bm_takenCounters := (if bmh_takenUsed h then (bm_takenCounters b)[unat gi :=
         (if taken then sat_inc else sat_dec) (bm_takenCounters b ! unat gi)] else bm_takenCounters b),
      bm_notTakenCounters := (if bmh_takenUsed h then bm_notTakenCounters b else (bm_notTakenCounters b)[unat gi :=
         (if taken then sat_inc else sat_dec) (bm_notTakenCounters b ! unat gi)]),
      bm_choiceCounters := (if bmh_takenUsed h \<noteq> taken \<and> bmh_finalPred h = taken then bm_choiceCounters b
         else (bm_choiceCounters b)[unat ci :=
           (if taken then sat_inc else sat_dec) (bm_choiceCounters b ! unat ci)])\<rparr>)"
proof -
  obtain ci gi where i: "bm_indices b pc (bmh_globalHistoryReg h) = Inr (ci, gi)" "unat ci < length (bm_choiceCounters b)"
    "unat gi < length (bm_takenCounters b)" "unat gi < length (bm_notTakenCounters b)"
    by (rule bm_indices_ok [OF assms])
  show ?thesis
    by (intro exI conjI, rule i(1), cases "bmh_takenUsed h"; cases taken; cases "bmh_finalPred h")
       (simp_all add: bm_update_def bm_train_def i)
qed


theorem bm_update_selects_witness:
  "\<exists>b b'. bm_new 1 2 2 4 2 2 = Inr b \<and>
     bm_update b 0 0x40 True (Some \<lparr>bmh_globalHistoryReg = 1, bmh_takenUsed = False, bmh_takenPred = False,
       bmh_notTakenPred = True, bmh_finalPred = True\<rparr>) False (StaticInst [] 0 [] [] []) 0 = Inr b' \<and>
     bm_takenCounters b' = bm_takenCounters b \<and> bm_choiceCounters b' = bm_choiceCounters b"
proof -
  let ?h = "\<lparr>bmh_globalHistoryReg = 1, bmh_takenUsed = False, bmh_takenPred = False, bmh_notTakenPred = True,
    bmh_finalPred = True\<rparr>"
  obtain b where b: "bm_new 1 2 2 4 2 2 = Inr b"
    by (simp add: bm_new_def ceilLog2_def floorLog2_def floorLog2_step_def sat_new_def isPowerOf2_def
        bm_threshold_def Let_def word_le_nat_alt)
  then have "bm_wf b" using bm_new_inv [OF b, of 0] by (simp add: bm_inv_def)
  then show ?thesis
    using bm_update_selects [of b "0x40" ?h 0 True "StaticInst [] 0 [] [] []" 0] b by auto
qed

end
