(* ===== verification/IndirectPred.thy ===== *)
theory IndirectPred
  imports DirPred IntMath
begin

unbundle bit_operations_syntax

text \<open>
  The indirect target predictor, \<^verbatim>\<open>cpu/pred/simple_indirect.hh\<close> and
  \<^verbatim>\<open>simple_indirect.cc\<close>: a set-associative cache of targets indexed by the branch
  address hashed with the direction history and the recent targets of the thread. A replacement
  takes the value of \<^verbatim>\<open>rand()\<close> as an argument. The history object is the saved direction
  history register.
\<close>

record ipred_entry =
  ipe_tag :: u64
  ipe_target :: "pcstate option"

record path_entry =
  pe_pcAddr :: u64
  pe_targetAddr :: u64
  pe_seqNum :: u64

record thread_info =
  ti_pathHist :: "path_entry list"
  ti_headHistEntry :: u32
  ti_ghr :: u32

record simple_indirect =
  sip_hashGHR :: bool
  sip_hashTargets :: bool
  sip_numSets :: u32
  sip_numWays :: u32
  sip_tagBits :: nat
  sip_pathLength :: u32
  sip_instShift :: nat
  sip_ghrMask :: u32
  sip_targetCache :: "ipred_entry list list"
  sip_threadInfo :: "thread_info list"

definition sip_new :: "bool \<Rightarrow> bool \<Rightarrow> u32 \<Rightarrow> u32 \<Rightarrow> nat \<Rightarrow> u32 \<Rightarrow> nat \<Rightarrow> nat \<Rightarrow> u32 \<Rightarrow> simple_indirect result" where
  "sip_new hashGHR hashTargets numSets numWays tagBits pathLength instShift ghrNumBits numThreads =
     (if ghrNumBits \<ge> 31 then Inl Undefined
      else if \<not> isPowerOf2 numSets then Inl Panic
      else Inr \<lparr>sip_hashGHR = hashGHR, sip_hashTargets = hashTargets, sip_numSets = numSets,
        sip_numWays = numWays, sip_tagBits = tagBits, sip_pathLength = pathLength, sip_instShift = instShift,
        sip_ghrMask = push_bit ghrNumBits 1 - 1,
        sip_targetCache = replicate (unat numSets) (replicate (unat numWays) \<lparr>ipe_tag = 0, ipe_target = None\<rparr>),
        sip_threadInfo = replicate (unat numThreads) \<lparr>ti_pathHist = [], ti_headHistEntry = 0, ti_ghr = 0\<rparr>\<rparr>)"

definition sip_thread :: "simple_indirect \<Rightarrow> int \<Rightarrow> (thread_info \<Rightarrow> thread_info result) \<Rightarrow> simple_indirect result" where
  "sip_thread i tid f =
     rbind (arr_at (sip_threadInfo i) tid) (\<lambda>t. rbind (f t) (\<lambda>t'.
     rbind (arr_set (sip_threadInfo i) tid t') (\<lambda>ts. Inr (i\<lparr>sip_threadInfo := ts\<rparr>))))"

definition sip_genIndirectInfo :: "simple_indirect \<Rightarrow> int \<Rightarrow> (u32 option) result" where
  "sip_genIndirectInfo i tid = rbind (arr_at (sip_threadInfo i) tid) (\<lambda>t. Inr (Some (ti_ghr t)))"

definition sip_updateDirectionInfo :: "simple_indirect \<Rightarrow> int \<Rightarrow> bool \<Rightarrow> simple_indirect result" where
  "sip_updateDirectionInfo i tid actually_taken =
     sip_thread i tid (\<lambda>t. Inr (t\<lparr>ti_ghr := (push_bit 1 (ti_ghr t) OR of_bool actually_taken) AND sip_ghrMask i\<rparr>))"

definition sip_changeDirectionPrediction :: "simple_indirect \<Rightarrow> int \<Rightarrow> u32 option \<Rightarrow> bool \<Rightarrow> simple_indirect result" where
  "sip_changeDirectionPrediction i tid indirect_history actually_taken =
     (case indirect_history of None \<Rightarrow> Inl NullDeref
      | Some previousGhr \<Rightarrow>
          sip_thread i tid (\<lambda>t. Inr (t\<lparr>ti_ghr := (push_bit 1 previousGhr + of_bool actually_taken) AND sip_ghrMask i\<rparr>)))"

text \<open>The loop over the recent targets, youngest first, with the counter \<^verbatim>\<open>p\<close>.\<close>

fun sip_hash_targets :: "nat \<Rightarrow> nat \<Rightarrow> u32 \<Rightarrow> nat \<Rightarrow> u64 \<Rightarrow> path_entry list \<Rightarrow> u64 result" where
  "sip_hash_targets instShift hash_shift pathLength p hash [] = Inr hash"
| "sip_hash_targets instShift hash_shift pathLength p hash (e # es) =
     (if p < unat pathLength then
        if instShift + p * hash_shift \<ge> 64 then Inl Undefined
        else sip_hash_targets instShift hash_shift pathLength (Suc p)
               (hash XOR drop_bit (instShift + p * hash_shift) (pe_targetAddr e)) es
      else Inr hash)"

definition sip_getSetIndex :: "simple_indirect \<Rightarrow> u64 \<Rightarrow> u32 \<Rightarrow> path_entry list \<Rightarrow> u64 result" where
  "sip_getSetIndex i br_addr ghr pathHist =
     (if sip_instShift i \<ge> 64 then Inl Undefined
      else let hash = drop_bit (sip_instShift i) br_addr;
               hash = (if sip_hashGHR i then hash XOR ucast ghr else hash)
           in rbind (if sip_hashTargets i then
                       (if sip_pathLength i = 0 then Inl Undefined
                        else rbind (floorLog2 4 (ucast (sip_numSets i))) (\<lambda>l.
                          sip_hash_targets (sip_instShift i) (l div unat (sip_pathLength i)) (sip_pathLength i)
                            0 hash (rev pathHist)))
                     else Inr hash) (\<lambda>hash. Inr (hash AND ucast (sip_numSets i - 1))))"

definition sip_getTag :: "simple_indirect \<Rightarrow> u64 \<Rightarrow> u64 result" where
  "sip_getTag i br_addr =
     (if sip_instShift i \<ge> 64 \<or> sip_tagBits i \<ge> 31 then Inl Undefined
      else Inr (drop_bit (sip_instShift i) br_addr AND (push_bit (sip_tagBits i) 1 - 1)))"

definition sip_lookup :: "simple_indirect \<Rightarrow> u64 \<Rightarrow> int \<Rightarrow> (pcstate option) result" where
  "sip_lookup i br_addr tid =
     rbind (arr_at (sip_threadInfo i) tid) (\<lambda>t.
     rbind (sip_getSetIndex i br_addr (ti_ghr t) (ti_pathHist t)) (\<lambda>set_index.
     rbind (sip_getTag i br_addr) (\<lambda>tag.
     rbind (rassert (set_index < ucast (sip_numSets i))) (\<lambda>_.
     rbind (vec_at (sip_targetCache i) (unat set_index)) (\<lambda>iset.
     Inr (case find (\<lambda>way. ipe_tag way = tag \<and> ipe_target way \<noteq> None) iset of
            Some way \<Rightarrow> ipe_target way | None \<Rightarrow> None))))))"

definition sip_recordIndirect :: "simple_indirect \<Rightarrow> u64 \<Rightarrow> u64 \<Rightarrow> u64 \<Rightarrow> int \<Rightarrow> simple_indirect result" where
  "sip_recordIndirect i br_addr tgt_addr seq_num tid =
     sip_thread i tid (\<lambda>t. Inr (t\<lparr>ti_pathHist := ti_pathHist t @
       [\<lparr>pe_pcAddr = br_addr, pe_targetAddr = tgt_addr, pe_seqNum = seq_num\<rparr>]\<rparr>))"

definition sip_commit :: "simple_indirect \<Rightarrow> u64 \<Rightarrow> int \<Rightarrow> u32 option \<Rightarrow> simple_indirect result" where
  "sip_commit i seq_num tid indirect_history =
     sip_thread i tid (\<lambda>t. Inr (
       if ti_pathHist t = [] then t
       else if unat (ti_headHistEntry t) < length (ti_pathHist t) \<and>
               pe_seqNum (ti_pathHist t ! unat (ti_headHistEntry t)) \<le> seq_num
       then (if ti_headHistEntry t \<ge> sip_pathLength i then t\<lparr>ti_pathHist := tl (ti_pathHist t)\<rparr>
             else t\<lparr>ti_headHistEntry := ti_headHistEntry t + 1\<rparr>)
       else t))"

definition sip_squash :: "simple_indirect \<Rightarrow> u64 \<Rightarrow> int \<Rightarrow> simple_indirect result" where
  "sip_squash i seq_num tid =
     sip_thread i tid (\<lambda>t. Inr (t\<lparr>ti_pathHist := takeWhile (\<lambda>e. \<not> pe_seqNum e > seq_num) (ti_pathHist t)\<rparr>))"

definition sip_deleteIndirectInfo :: "simple_indirect \<Rightarrow> int \<Rightarrow> u32 option \<Rightarrow> simple_indirect result" where
  "sip_deleteIndirectInfo i tid indirect_history =
     (case indirect_history of None \<Rightarrow> Inl NullDeref
      | Some previousGhr \<Rightarrow> sip_thread i tid (\<lambda>t. Inr (t\<lparr>ti_ghr := previousGhr\<rparr>)))"

text \<open>The search of \<^verbatim>\<open>recordTarget\<close>: the first way with the tag, if there is one.\<close>

fun sip_way_index :: "u64 \<Rightarrow> ipred_entry list \<Rightarrow> nat option" where
  "sip_way_index tag [] = None"
| "sip_way_index tag (w # ws) = (if ipe_tag w = tag then Some 0 else map_option Suc (sip_way_index tag ws))"

definition sip_fill :: "simple_indirect \<Rightarrow> nat \<Rightarrow> ipred_entry list \<Rightarrow> u64 \<Rightarrow> pcstate \<Rightarrow> ipred_entry list result" where
  "sip_fill i draw iset tag target =
     (case sip_way_index tag iset of
        Some w \<Rightarrow> rbind (vec_at iset w) (\<lambda>e. vec_set iset w (e\<lparr>ipe_target := pc_set_ref (ipe_target e) target\<rparr>))
      | None \<Rightarrow>
          if sip_numWays i = 0 then Inl Undefined
          else let w = draw mod unat (sip_numWays i) in
            rbind (vec_at iset w) (\<lambda>e.
            vec_set iset w \<lparr>ipe_tag = tag, ipe_target = pc_set_ref (ipe_target e) target\<rparr>))"

definition sip_recordTarget :: "nat \<Rightarrow> simple_indirect \<Rightarrow> u64 \<Rightarrow> u32 option \<Rightarrow> pcstate \<Rightarrow> int \<Rightarrow> simple_indirect result" where
  "sip_recordTarget draw i seq_num indirect_history target tid =
     rbind (arr_at (sip_threadInfo i) tid) (\<lambda>t.
     if ti_pathHist t = [] then Inl Undefined
     else case indirect_history of None \<Rightarrow> Inl NullDeref
     | Some ghr \<Rightarrow>
       let hist_entry = last (ti_pathHist t); rest = butlast (ti_pathHist t) in
       rbind (sip_getSetIndex i (pe_pcAddr hist_entry) ghr rest) (\<lambda>set_index.
       rbind (sip_getTag i (pe_pcAddr hist_entry)) (\<lambda>tag.
       rbind (arr_set (sip_threadInfo i) tid
                (t\<lparr>ti_pathHist := rest @ [hist_entry\<lparr>pe_targetAddr := instAddr target\<rparr>]\<rparr>)) (\<lambda>ts.
       rbind (rassert (set_index < ucast (sip_numSets i))) (\<lambda>_.
       rbind (vec_at (sip_targetCache i) (unat set_index)) (\<lambda>iset.
       rbind (sip_fill i draw iset tag target) (\<lambda>iset'.
       rbind (vec_set (sip_targetCache i) (unat set_index) iset') (\<lambda>tc.
       Inr (i\<lparr>sip_threadInfo := ts, sip_targetCache := tc\<rparr>)))))))))"

definition sip_ops :: "nat \<Rightarrow> (simple_indirect, u32) ind_ops" where
  "sip_ops draw = \<lparr>ip_lookup = sip_lookup, ip_recordIndirect = sip_recordIndirect, ip_commit = sip_commit,
     ip_squash = sip_squash, ip_recordTarget = sip_recordTarget draw, ip_genIndirectInfo = sip_genIndirectInfo,
     ip_updateDirectionInfo = sip_updateDirectionInfo, ip_deleteIndirectInfo = sip_deleteIndirectInfo,
     ip_changeDirectionPrediction = sip_changeDirectionPrediction\<rparr>"

section \<open>Well-formed predictors\<close>

definition sip_wf :: "simple_indirect \<Rightarrow> bool" where
  "sip_wf i \<longleftrightarrow> 0 < sip_numSets i \<and> 0 < sip_numWays i \<and> 0 < sip_pathLength i \<and> sip_instShift i \<le> 32 \<and>
     sip_tagBits i < 31 \<and> length (sip_targetCache i) = unat (sip_numSets i) \<and>
     list_all (\<lambda>s. length s = unat (sip_numWays i)) (sip_targetCache i)"

definition sip_inv :: "int \<Rightarrow> simple_indirect \<Rightarrow> bool" where
  "sip_inv tid i \<longleftrightarrow> sip_wf i \<and> 0 \<le> tid \<and> nat tid < length (sip_threadInfo i)"

lemma sip_new_inv:
  assumes "sip_new hg ht ns nw tb pl sh gb nt = Inr i" "0 < nw" "0 < pl" "sh \<le> 32" "tb < 31"
    and "0 \<le> tid" "nat tid < unat nt"
  shows "sip_inv tid i"
  using assms by (auto simp: sip_new_def sip_inv_def sip_wf_def isPowerOf2_def word_gt_0 list_all_iff split: if_splits)

lemma sip_thread_eq:
  assumes "sip_inv tid i"
  shows "sip_thread i tid (\<lambda>t. Inr (f t)) =
    Inr (i\<lparr>sip_threadInfo := (sip_threadInfo i)[nat tid := f (sip_threadInfo i ! nat tid)]\<rparr>)"
  using assms by (simp add: sip_thread_def sip_inv_def)

lemma sip_inv_threads [simp]:
  "sip_inv tid i \<Longrightarrow> sip_inv tid (i\<lparr>sip_threadInfo := (sip_threadInfo i)[k := t]\<rparr>)"
  by (simp add: sip_inv_def sip_wf_def)


lemma floorLog2_u32_le: "x \<noteq> 0 \<Longrightarrow> \<exists>l. floorLog2 4 (ucast (x :: u32)) = Inr l \<and> l \<le> 31"
  using floorLog2_flog2 [of "ucast x" 4] unat32_less [of x] flog2_less [of "unat x" 32]
  by (auto simp: word_less_nat_alt unat_gt_0 unat_ucast_32_64)

lemma sip_hash_targets_ok:
  "instShift \<le> 32 \<Longrightarrow> hash_shift * unat pathLength \<le> 31 \<Longrightarrow>
    \<exists>h. sip_hash_targets instShift hash_shift pathLength p hash es = Inr h"
proof (induction es arbitrary: p hash)
  case (Cons e es)
  have "p * hash_shift \<le> 31" if "p < unat pathLength"
  proof -
    have "hash_shift * p \<le> hash_shift * unat pathLength" using that by (intro mult_le_mono2) simp
    also note Cons.prems(2)
    finally show ?thesis by (simp add: mult.commute)
  qed
  then have "\<not> (p < unat pathLength \<and> 64 \<le> instShift + p * hash_shift)" using Cons.prems(1) by auto
  then show ?case using Cons by auto
qed simp

lemma sip_getSetIndex_ok:
  assumes "sip_wf i"
  obtains k where "sip_getSetIndex i br ghr hist = Inr k" "k < ucast (sip_numSets i)"
    "unat k < length (sip_targetCache i)"
proof -
  have w: "0 < sip_numSets i" "sip_pathLength i \<noteq> 0" "sip_instShift i \<le> 32"
    using assms by (simp_all add: sip_wf_def word_gt_0)
  obtain l where l: "floorLog2 4 (ucast (sip_numSets i)) = Inr l" "l \<le> 31"
    using floorLog2_u32_le [of "sip_numSets i"] w(1) by (auto simp: word_gt_0)
  have "l div unat (sip_pathLength i) * unat (sip_pathLength i) \<le> 31"
    using l(2) div_times_less_eq_dividend le_trans by blast
  let ?h0 = "if sip_hashGHR i then drop_bit (sip_instShift i) br XOR ucast ghr else drop_bit (sip_instShift i) br"
  obtain h1 where h1: "sip_hash_targets (sip_instShift i) (l div unat (sip_pathLength i)) (sip_pathLength i)
      0 ?h0 (rev hist) = Inr h1"
    using sip_hash_targets_ok [OF w(3) \<open>l div _ * _ \<le> 31\<close>] by blast
  define h where "h = (if sip_hashTargets i then h1 else ?h0)"
  have h: "sip_getSetIndex i br ghr hist = Inr (h AND ucast (sip_numSets i - 1))"
    using w l h1 by (simp add: sip_getSetIndex_def h_def)
  have "h AND ucast (sip_numSets i - 1) \<le> ucast (sip_numSets i - 1)" by (rule word_and_le1)
  moreover have "unat (sip_numSets i - 1) < unat (sip_numSets i)"
    using w(1) by (simp add: unat_minus_one word_gt_0 unat_gt_0)
  ultimately have "unat (h AND ucast (sip_numSets i - 1)) < unat (sip_numSets i)"
    by (simp add: word_le_nat_alt unat_ucast_32_64)
  then show ?thesis using that [OF h] assms by (simp add: sip_wf_def word_less_nat_alt unat_ucast_32_64)
qed

lemma sip_getTag_ok: "sip_wf i \<Longrightarrow> \<exists>t. sip_getTag i br = Inr t"
  by (simp add: sip_getTag_def sip_wf_def)

lemma sip_lookup_total:
  assumes "sip_inv tid i"
  shows "\<exists>t. sip_lookup i pc tid = Inr t"
proof -
  let ?t = "sip_threadInfo i ! nat tid"
  have wf: "sip_wf i" and t: "arr_at (sip_threadInfo i) tid = Inr ?t" using assms by (simp_all add: sip_inv_def)
  obtain k where k: "sip_getSetIndex i pc (ti_ghr ?t) (ti_pathHist ?t) = Inr k" "k < ucast (sip_numSets i)"
    "unat k < length (sip_targetCache i)" by (rule sip_getSetIndex_ok [OF wf])
  then show ?thesis using t sip_getTag_ok [OF wf, of pc] by (auto simp: sip_lookup_def)
qed

text \<open>Squashing and deleting a history commute with what a prediction changes.\<close>

lemma sip_undone_iff:
  assumes "sip_inv tid i'" "sip_inv tid i"
  shows "ind_undone (sip_ops d) tid s i (Some g) i' \<longleftrightarrow>
    i'\<lparr>sip_threadInfo := (sip_threadInfo i')[nat tid := (sip_threadInfo i' ! nat tid)
        \<lparr>ti_pathHist := takeWhile (\<lambda>e. \<not> pe_seqNum e > s) (ti_pathHist (sip_threadInfo i' ! nat tid)), ti_ghr := g\<rparr>]\<rparr> =
    i\<lparr>sip_threadInfo := (sip_threadInfo i)[nat tid := (sip_threadInfo i ! nat tid)
        \<lparr>ti_pathHist := takeWhile (\<lambda>e. \<not> pe_seqNum e > s) (ti_pathHist (sip_threadInfo i ! nat tid))\<rparr>]\<rparr>"
  using assms by (simp add: ind_undone_def sip_ops_def sip_squash_def sip_deleteIndirectInfo_def sip_thread_eq)
     (simp add: sip_inv_def)


lemma sip_undone_None: "sip_inv tid i' \<Longrightarrow> sip_inv tid i \<Longrightarrow> \<not> ind_undone (sip_ops d) tid s i None i'"
  by (simp add: ind_undone_def sip_ops_def sip_squash_def sip_deleteIndirectInfo_def sip_thread_eq)

lemma takeWhile_snoc_stop: "\<not> P x \<Longrightarrow> takeWhile P (xs @ [x]) = takeWhile P xs"
  by (induction xs) auto

lemma sip_gen_undo:
  assumes "sip_inv tid i"
  shows "\<exists>h. sip_genIndirectInfo i tid = Inr h \<and> ind_undone (sip_ops d) tid s i h i"
  using assms sip_undone_iff [OF assms assms] by (auto simp: sip_genIndirectInfo_def sip_inv_def)

lemma sip_record_undo:
  assumes "sip_inv tid i" "sip_inv tid i'" "s < sn" "ind_undone (sip_ops d) tid s i h i'"
  shows "\<exists>i''. sip_recordIndirect i' br tgt sn tid = Inr i'' \<and> sip_inv tid i'' \<and> ind_undone (sip_ops d) tid s i h i''"
proof (cases h)
  case None
  then show ?thesis using sip_undone_None assms by blast
next
  case (Some g)
  then show ?thesis
    using assms(3,4) sip_undone_iff [OF assms(2,1)]
    by (simp add: sip_recordIndirect_def sip_thread_eq [OF assms(2)] assms(1,2) sip_undone_iff)
       (use assms(2) in \<open>simp add: sip_inv_def takeWhile_snoc_stop\<close>)
qed

lemma sip_direction_undo:
  assumes "sip_inv tid i" "sip_inv tid i'" "ind_undone (sip_ops d) tid s i h i'"
  shows "\<exists>i''. sip_updateDirectionInfo i' tid b = Inr i'' \<and> sip_inv tid i'' \<and> ind_undone (sip_ops d) tid s i h i''"
proof (cases h)
  case None
  then show ?thesis using sip_undone_None assms by blast
next
  case (Some g)
  then show ?thesis
    using assms(3) sip_undone_iff [OF assms(2,1)]
    by (simp add: sip_updateDirectionInfo_def sip_thread_eq [OF assms(2)] assms(1,2) sip_undone_iff)
       (use assms(2) in \<open>simp add: sip_inv_def\<close>)
qed

interpretation sipi: indirect_predictor "sip_ops d" sip_inv
proof (unfold_locales, goal_cases)
  case (1 tid i s)
  then show ?case using sip_gen_undo by (simp add: sip_ops_def)
next
  case (2 tid i pc)
  then show ?case using sip_lookup_total by (simp add: sip_ops_def)
next
  case (3 tid i s)
  then show ?case by (simp add: sip_ops_def sip_squash_def sip_thread_eq)
next
  case (4 tid i j h k b)
  then show ?case by (cases h) (simp_all add: sip_ops_def sip_deleteIndirectInfo_def
      sip_changeDirectionPrediction_def sip_thread_eq)
next
  case (5 tid i i' s sn h br tgt)
  then show ?case using sip_record_undo [OF 5] by (simp add: sip_ops_def)
next
  case (6 tid i i' s h b)
  then show ?case using sip_direction_undo [OF 6] by (simp add: sip_ops_def)
qed


section \<open>Learning a target\<close>

lemma sip_way_index_Some:
  "sip_way_index tag ws = Some w \<Longrightarrow> w < length ws \<and> ipe_tag (ws ! w) = tag \<and> (\<forall>j < w. ipe_tag (ws ! j) \<noteq> tag)"
proof (induction ws arbitrary: w)
  case (Cons a ws)
  show ?case
  proof (cases "ipe_tag a = tag")
    case True
    then show ?thesis using Cons.prems by simp
  next
    case False
    then obtain v where "sip_way_index tag ws = Some v" "w = Suc v" using Cons.prems by auto
    then show ?thesis using Cons.IH False by (auto simp: less_Suc_eq_0_disj)
  qed
qed simp

lemma sip_way_index_None: "sip_way_index tag ws = None \<Longrightarrow> \<forall>w \<in> set ws. ipe_tag w \<noteq> tag"
  by (induction ws) (auto split: if_splits)

text \<open>After the fill, the search of \<^verbatim>\<open>lookup\<close> stops at the filled way.\<close>

lemma sip_fill_find:
  assumes "length iset = unat (sip_numWays i)" "0 < sip_numWays i"
  obtains iset' w where "sip_fill i draw iset tag target = Inr iset'" "length iset' = length iset"
    "find (\<lambda>way. ipe_tag way = tag \<and> ipe_target way \<noteq> None) iset' = Some w" "ipe_target w = Some target"
proof (cases "sip_way_index tag iset")
  case None
  let ?w = "draw mod unat (sip_numWays i)"
  let ?e = "\<lparr>ipe_tag = tag, ipe_target = Some target\<rparr>"
  have w: "?w < length iset" using assms by (simp add: unat_gt_0 word_gt_0)
  have "find (\<lambda>way. ipe_tag way = tag \<and> ipe_target way \<noteq> None) (iset[?w := ?e]) = Some ?e"
    unfolding find_Some_iff using w sip_way_index_None [OF None] by (intro exI [of _ ?w]) auto
  then show ?thesis using that [of "iset[?w := ?e]" ?e] None w assms
    by (simp add: sip_fill_def pc_set_ref_eq word_gt_0)
next
  case (Some w)
  let ?e = "(iset ! w)\<lparr>ipe_target := Some target\<rparr>"
  note s = sip_way_index_Some [OF Some]
  have "find (\<lambda>way. ipe_tag way = tag \<and> ipe_target way \<noteq> None) (iset[w := ?e]) = Some ?e"
    unfolding find_Some_iff using s by (intro exI [of _ w]) auto
  then show ?thesis using that [of "iset[w := ?e]" ?e] Some s by (simp add: sip_fill_def pc_set_ref_eq)
qed

lemma sip_index_threads [simp]:
  "sip_getSetIndex (i\<lparr>sip_threadInfo := ts\<rparr>) br g h = sip_getSetIndex i br g h"
  "sip_getSetIndex (i\<lparr>sip_targetCache := tc\<rparr>) br g h = sip_getSetIndex i br g h"
  "sip_getTag (i\<lparr>sip_threadInfo := ts\<rparr>) br = sip_getTag i br"
  "sip_getTag (i\<lparr>sip_targetCache := tc\<rparr>) br = sip_getTag i br"
  by (simp_all add: sip_getSetIndex_def sip_getTag_def Let_def)

lemma sip_fill_threads [simp]: "sip_fill (i\<lparr>sip_threadInfo := ts\<rparr>) = sip_fill i"
  by (intro ext) (simp add: sip_fill_def Let_def split: option.splits)

section \<open>Properties\<close>

text \<open>C36: a mispredicted indirect branch is learned for its context. When a branch was
  recorded on top of the path history and its real target is then recorded with the direction
  history saved at its prediction, the update succeeds whatever way the random replacement
  draws, and a lookup of the same branch in the same history and path as before the
  prediction hits with exactly that target.\<close>

theorem sip_target_learned:
  assumes "sip_inv tid i"
  shows "\<exists>i1 i2. sip_recordIndirect i br wrong sn tid = Inr i1 \<and>
    sip_recordTarget draw i1 sn (Some (ti_ghr (sip_threadInfo i ! nat tid))) target tid = Inr i2 \<and>
    sip_inv tid i2 \<and>
    pe_targetAddr (last (ti_pathHist (sip_threadInfo i2 ! nat tid))) = instAddr target \<and>
    sip_lookup (i2\<lparr>sip_threadInfo := sip_threadInfo i\<rparr>) br tid = Inr (Some target)"
proof -
  let ?t = "sip_threadInfo i ! nat tid"
  have wf: "sip_wf i" and t: "0 \<le> tid" "nat tid < length (sip_threadInfo i)" using assms by (simp_all add: sip_inv_def)
  obtain k where k: "sip_getSetIndex i br (ti_ghr ?t) (ti_pathHist ?t) = Inr k" "k < ucast (sip_numSets i)"
    "unat k < length (sip_targetCache i)" by (rule sip_getSetIndex_ok [OF wf])
  obtain tag where tag: "sip_getTag i br = Inr tag" using sip_getTag_ok [OF wf] by blast
  have ways: "length (sip_targetCache i ! unat k) = unat (sip_numWays i)" "0 < sip_numWays i"
    using wf k(3) by (simp_all add: sip_wf_def list_all_length)
  obtain iset w where f: "sip_fill i draw (sip_targetCache i ! unat k) tag target = Inr iset"
      "length iset = length (sip_targetCache i ! unat k)"
      "find (\<lambda>way. ipe_tag way = tag \<and> ipe_target way \<noteq> None) iset = Some w" "ipe_target w = Some target"
    by (rule sip_fill_find [OF ways])
  let ?e = "\<lparr>pe_pcAddr = br, pe_targetAddr = wrong, pe_seqNum = sn\<rparr>"
  define i1 where "i1 = i\<lparr>sip_threadInfo := (sip_threadInfo i)[nat tid := ?t\<lparr>ti_pathHist := ti_pathHist ?t @ [?e]\<rparr>]\<rparr>"
  define i2 where "i2 = i\<lparr>sip_threadInfo := (sip_threadInfo i)[nat tid := ?t\<lparr>ti_pathHist := ti_pathHist ?t @
      [?e\<lparr>pe_targetAddr := instAddr target\<rparr>]\<rparr>], sip_targetCache := (sip_targetCache i)[unat k := iset]\<rparr>"
  have 1: "sip_recordIndirect i br wrong sn tid = Inr i1"
    by (simp add: sip_recordIndirect_def sip_thread_eq [OF assms] i1_def)
  have 2: "sip_recordTarget draw i1 sn (Some (ti_ghr ?t)) target tid = Inr i2"
    using t k tag f(1) by (simp add: sip_recordTarget_def i1_def i2_def)
  have 3: "sip_inv tid i2"
    using assms f(2) ways(1) by (auto simp: sip_inv_def sip_wf_def i2_def list_all_length nth_update_if)
  have 4: "sip_lookup (i2\<lparr>sip_threadInfo := sip_threadInfo i\<rparr>) br tid = Inr (Some target)"
    using t k tag f by (simp add: sip_lookup_def i2_def)
  have 5: "pe_targetAddr (last (ti_pathHist (sip_threadInfo i2 ! nat tid))) = instAddr target"
    using t by (simp add: i2_def)
  show ?thesis using 1 2 3 4 5 by blast
qed


theorem sip_target_learned_witness:
  "\<exists>i i1 i2. sip_new True True 4 2 16 3 2 13 1 = Inr i \<and> sip_recordIndirect i 0x40 0x44 7 0 = Inr i1 \<and>
     sip_recordTarget 5 i1 7 (Some 0) (simple_set 4 pc_new 0x1000) 0 = Inr i2 \<and>
     sip_lookup i 0x40 0 = Inr None \<and>
     sip_lookup (i2\<lparr>sip_threadInfo := sip_threadInfo i\<rparr>) 0x40 0 = Inr (Some (simple_set 4 pc_new 0x1000))"
proof -
  obtain i where i: "sip_new True True 4 2 16 3 2 13 1 = Inr i" "ti_ghr (sip_threadInfo i ! 0) = 0"
      "sip_lookup i 0x40 0 = Inr None"
    by (simp add: sip_new_def isPowerOf2_def sip_lookup_def sip_getSetIndex_def sip_getTag_def floorLog2_def
        floorLog2_step_def replicate_numeral)
  then have "sip_inv 0 i" using sip_new_inv [OF i(1), of 0] by simp
  from sip_target_learned [OF this, of "0x40" "0x44" 7 5 "simple_set 4 pc_new 0x1000"] i
  show ?thesis by auto
qed

end
