(* ===== verification/BPredUnit.thy ===== *)
theory BPredUnit
  imports BTB RAS LocalBP BiMode IndirectPred
begin

text \<open>
  The branch prediction unit, \<^verbatim>\<open>cpu/pred/bpred_unit.hh\<close> and \<^verbatim>\<open>bpred_unit.cc\<close>: the
  direction predictor, branch target buffer, per-thread return address stacks and optional
  indirect predictor behind \<^verbatim>\<open>predict\<close>, \<^verbatim>\<open>update\<close> and the two \<^verbatim>\<open>squash\<close>
  operations, with the per-thread history of outstanding predictions, youngest first. The
  predictors come in as their operation tables \<open>D\<close> and \<open>I\<close>; an instruction's
  \<^verbatim>\<open>advancePC\<close> and \<^verbatim>\<open>buildRetPC\<close> belong to the instruction set and are the arguments
  \<open>adv\<close> and \<open>ret\<close>; the number drawn to poison a prediction is \<open>draw\<close>. Statistics and
  probes are left out.
\<close>

record ('h, 'j) pred_history =
  ph_seqNum :: u64
  ph_pc :: u64
  ph_bpHistory :: "'h option"
  ph_indirectHistory :: "'j option"
  ph_RASTarget :: "pcstate option"
  ph_RASIndex :: u32
  ph_tid :: int
  ph_predTaken :: bool
  ph_usedRAS :: bool
  ph_pushedRAS :: bool
  ph_wasCall :: bool
  ph_wasReturn :: bool
  ph_wasIndirect :: bool
  ph_target :: u64
  ph_inst :: static_inst

record ('d, 'h, 'i, 'j) bpu =
  bpu_predHist :: "('h, 'j) pred_history list list"
  bpu_BTB :: btb
  bpu_RAS :: "ras list"
  bpu_predictPoison :: int
  bpu_predictorEnable :: bool
  bpu_iPred :: "'i option"
  bpu_dir :: 'd

definition MaxAddr :: u64 where "MaxAddr = - 1"

definition ph_make ::
  "u64 \<Rightarrow> u64 \<Rightarrow> bool \<Rightarrow> 'h option \<Rightarrow> 'j option \<Rightarrow> int \<Rightarrow> static_inst \<Rightarrow> ('h, 'j) pred_history" where
  "ph_make seq_num instPC pred_taken bp_history indirect_history tid inst =
     \<lparr>ph_seqNum = seq_num, ph_pc = instPC, ph_bpHistory = bp_history, ph_indirectHistory = indirect_history,
      ph_RASTarget = None, ph_RASIndex = 0, ph_tid = tid, ph_predTaken = pred_taken, ph_usedRAS = False,
      ph_pushedRAS = False, ph_wasCall = False, ph_wasReturn = False, ph_wasIndirect = False,
      ph_target = MaxAddr, ph_inst = inst\<rparr>"

definition bpu_new ::
  "int \<Rightarrow> u32 \<Rightarrow> u32 \<Rightarrow> nat \<Rightarrow> nat \<Rightarrow> u32 \<Rightarrow> int \<Rightarrow> bool \<Rightarrow> 'i option \<Rightarrow> 'd \<Rightarrow> ('d, 'h, 'i, 'j) bpu result" where
  "bpu_new junk numThreads BTBEntries BTBTagSize instShiftAmt RASSize predictPoison branchPredEn iPred dir =
     rbind (btb_new junk BTBEntries BTBTagSize instShiftAmt numThreads) (\<lambda>btb.
     Inr \<lparr>bpu_predHist = replicate (unat numThreads) [], bpu_BTB = btb,
          bpu_RAS = replicate (unat numThreads) (ras_init RASSize), bpu_predictPoison = predictPoison,
          bpu_predictorEnable = branchPredEn, bpu_iPred = iPred, bpu_dir = dir\<rparr>)"

definition bpu_drainSanityCheck :: "('d, 'h, 'i, 'j) bpu \<Rightarrow> unit result" where
  "bpu_drainSanityCheck u = rassert (list_all (\<lambda>ph. ph = []) (bpu_predHist u))"

section \<open>Prediction\<close>

text \<open>The direction: an unconditional branch is taken; a conditional one as the direction predictor
  says, inverted when the draw reaches the poison threshold, and never taken while
  prediction is disabled.\<close>

definition bpu_direction ::
  "('d, 'h) dir_ops \<Rightarrow> u8 \<Rightarrow> ('d, 'h, 'i, 'j) bpu \<Rightarrow> static_inst \<Rightarrow> u64 \<Rightarrow> int \<Rightarrow>
    (bool \<times> 'h option \<times> ('d, 'h, 'i, 'j) bpu) result" where
  "bpu_direction D draw u inst pc tid =
     (if si_is IsUncondControl inst then
        rbind (dp_uncondBranch D (bpu_dir u) tid pc) (\<lambda>(h, d). Inr (True, h, u\<lparr>bpu_dir := d\<rparr>))
      else
        rbind (dp_lookup D (bpu_dir u) tid pc) (\<lambda>(pred_taken, h, d).
        let opposite_effect = draw \<ge> word_of_int (bpu_predictPoison u);
            pred_taken = (if opposite_effect then \<not> pred_taken else pred_taken);
            pred_taken = (if bpu_predictorEnable u then pred_taken else False)
        in Inr (pred_taken, h, u\<lparr>bpu_dir := d\<rparr>)))"

definition bpu_ras_pop :: "('d, 'h, 'i, 'j) bpu \<Rightarrow> int \<Rightarrow> ('d, 'h, 'i, 'j) bpu result" where
  "bpu_ras_pop u tid =
     rbind (arr_at (bpu_RAS u) tid) (\<lambda>r. rbind (arr_set (bpu_RAS u) tid (ras_pop r)) (\<lambda>rs.
     Inr (u\<lparr>bpu_RAS := rs\<rparr>)))"

definition bpu_ras_restore :: "('d, 'h, 'i, 'j) bpu \<Rightarrow> int \<Rightarrow> u32 \<Rightarrow> pcstate option \<Rightarrow> ('d, 'h, 'i, 'j) bpu result" where
  "bpu_ras_restore u tid idx t =
     rbind (arr_at (bpu_RAS u) tid) (\<lambda>r. rbind (ras_restore r idx t) (\<lambda>r.
     rbind (arr_set (bpu_RAS u) tid r) (\<lambda>rs. Inr (u\<lparr>bpu_RAS := rs\<rparr>))))"

text \<open>A taken return takes its target from the return address stack.\<close>

definition bpu_return ::
  "(static_inst \<Rightarrow> pcstate \<Rightarrow> pcstate \<Rightarrow> pcstate) \<Rightarrow> ('d, 'h, 'i, 'j) bpu \<Rightarrow> static_inst \<Rightarrow> pcstate \<Rightarrow> int \<Rightarrow>
    ('h, 'j) pred_history \<Rightarrow> (('d, 'h, 'i, 'j) bpu \<times> ('h, 'j) pred_history \<times> pcstate) result" where
  "bpu_return ret u inst pc tid e =
     rbind (arr_at (bpu_RAS u) tid) (\<lambda>r.
     rbind (ras_top r) (\<lambda>ras_top.
     let target = (case ras_top of Some t \<Rightarrow> pc_update pc (ret inst pc t) | None \<Rightarrow> pc);
         e = e\<lparr>ph_wasReturn := True, ph_usedRAS := True, ph_RASIndex := ras_topIdx r,
               ph_RASTarget := pc_set_ptr (ph_RASTarget e) ras_top\<rparr>
     in rbind (bpu_ras_pop u tid) (\<lambda>u. Inr (u, e, target))))"

text \<open>What a branch without a known target undoes: a conditional call takes its push back.\<close>

definition bpu_unpush ::
  "('d, 'h, 'i, 'j) bpu \<Rightarrow> static_inst \<Rightarrow> int \<Rightarrow> ('h, 'j) pred_history \<Rightarrow>
    (('d, 'h, 'i, 'j) bpu \<times> ('h, 'j) pred_history) result" where
  "bpu_unpush u inst tid e =
     (if si_is IsCall inst \<and> \<not> si_is IsUncondControl inst
      then rbind (bpu_ras_pop u tid) (\<lambda>u. Inr (u, e\<lparr>ph_pushedRAS := False\<rparr>))
      else Inr (u, e))"

definition bpu_push ::
  "('d, 'h, 'i, 'j) bpu \<Rightarrow> static_inst \<Rightarrow> pcstate \<Rightarrow> int \<Rightarrow> ('h, 'j) pred_history \<Rightarrow>
    (('d, 'h, 'i, 'j) bpu \<times> ('h, 'j) pred_history) result" where
  "bpu_push u inst pc tid e =
     (if si_is IsCall inst then
        rbind (arr_at (bpu_RAS u) tid) (\<lambda>r. rbind (ras_push r pc) (\<lambda>r.
        rbind (arr_set (bpu_RAS u) tid r) (\<lambda>rs.
        Inr (u\<lparr>bpu_RAS := rs\<rparr>, e\<lparr>ph_pushedRAS := True, ph_wasCall := True\<rparr>))))
      else Inr (u, e))"

text \<open>Target from the branch target buffer.\<close>

definition bpu_direct ::
  "('d, 'h) dir_ops \<Rightarrow> (static_inst \<Rightarrow> pcstate \<Rightarrow> pcstate) \<Rightarrow> ('d, 'h, 'i, 'j) bpu \<Rightarrow> static_inst \<Rightarrow> pcstate \<Rightarrow> int \<Rightarrow>
    ('h, 'j) pred_history \<Rightarrow> (bool \<times> ('d, 'h, 'i, 'j) bpu \<times> ('h, 'j) pred_history \<times> pcstate) result" where
  "bpu_direct D adv u inst pc tid e =
     rbind (btb_valid (bpu_BTB u) (instAddr pc) tid) (\<lambda>valid.
     if valid then
       rbind (btb_lookup (bpu_BTB u) (instAddr pc) tid) (\<lambda>t.
       case t of None \<Rightarrow> Inl NullDeref | Some t \<Rightarrow> Inr (True, u, e, pc_update pc t))
     else
       let e = e\<lparr>ph_predTaken := False\<rparr> in
       rbind (if \<not> si_is IsCall inst \<and> \<not> si_is IsReturn inst
              then rbind (dp_btbUpdate D (bpu_dir u) tid (instAddr pc) (ph_bpHistory e)) (\<lambda>d.
                   Inr (u\<lparr>bpu_dir := d\<rparr>, e))
              else bpu_unpush u inst tid e) (\<lambda>(u, e).
       Inr (False, u, e, adv inst pc)))"

text \<open>Target from the indirect predictor.\<close>

definition bpu_indirect ::
  "('i, 'j) ind_ops \<Rightarrow> (static_inst \<Rightarrow> pcstate \<Rightarrow> pcstate) \<Rightarrow> 'i \<Rightarrow> ('d, 'h, 'i, 'j) bpu \<Rightarrow> static_inst \<Rightarrow> pcstate \<Rightarrow>
    u64 \<Rightarrow> int \<Rightarrow> ('h, 'j) pred_history \<Rightarrow>
    (bool \<times> ('d, 'h, 'i, 'j) bpu \<times> ('h, 'j) pred_history \<times> pcstate) result" where
  "bpu_indirect I adv i u inst pc seqNum tid e =
     (let e = e\<lparr>ph_wasIndirect := True\<rparr> in
      rbind (ip_lookup I i (instAddr pc) tid) (\<lambda>hit.
      rbind (case hit of
               Some t \<Rightarrow> Inr (True, u, e, pc_update pc t)
             | None \<Rightarrow> let e = e\<lparr>ph_predTaken := False\<rparr> in
                 rbind (bpu_unpush u inst tid e) (\<lambda>(u, e). Inr (False, u, e, adv inst pc)))
        (\<lambda>(pred_taken, u, e, target).
      rbind (ip_recordIndirect I i (instAddr pc) (instAddr target) seqNum tid) (\<lambda>i.
      Inr (pred_taken, u\<lparr>bpu_iPred := Some i\<rparr>, e, target)))))"

definition bpu_target ::
  "('d, 'h) dir_ops \<Rightarrow> ('i, 'j) ind_ops \<Rightarrow> (static_inst \<Rightarrow> pcstate \<Rightarrow> pcstate) \<Rightarrow>
    (static_inst \<Rightarrow> pcstate \<Rightarrow> pcstate \<Rightarrow> pcstate) \<Rightarrow> ('d, 'h, 'i, 'j) bpu \<Rightarrow> static_inst \<Rightarrow> pcstate \<Rightarrow> u64 \<Rightarrow> int \<Rightarrow>
    bool \<Rightarrow> ('h, 'j) pred_history \<Rightarrow> (bool \<times> ('d, 'h, 'i, 'j) bpu \<times> ('h, 'j) pred_history \<times> pcstate) result" where
  "bpu_target D I adv ret u inst pc seqNum tid pred_taken e =
     (if pred_taken then
        if si_is IsReturn inst then
          rbind (bpu_return ret u inst pc tid e) (\<lambda>(u, e, target). Inr (True, u, e, target))
        else
          rbind (bpu_push u inst pc tid e) (\<lambda>(u, e).
          case bpu_iPred u of
            None \<Rightarrow> bpu_direct D adv u inst pc tid e
          | Some i \<Rightarrow>
              if si_is IsDirectControl inst then bpu_direct D adv u inst pc tid e
              else bpu_indirect I adv i u inst pc seqNum tid e)
      else
        Inr (False, u, if si_is IsReturn inst then e\<lparr>ph_wasReturn := True\<rparr> else e, adv inst pc))"

definition bpu_predict ::
  "('d, 'h) dir_ops \<Rightarrow> ('i, 'j) ind_ops \<Rightarrow> (static_inst \<Rightarrow> pcstate \<Rightarrow> pcstate) \<Rightarrow>
    (static_inst \<Rightarrow> pcstate \<Rightarrow> pcstate \<Rightarrow> pcstate) \<Rightarrow> u8 \<Rightarrow> ('d, 'h, 'i, 'j) bpu \<Rightarrow> static_inst \<Rightarrow> u64 \<Rightarrow> pcstate \<Rightarrow> int \<Rightarrow>
    (bool \<times> pcstate \<times> ('d, 'h, 'i, 'j) bpu) result" where
  "bpu_predict D I adv ret draw u inst seqNum pc tid =
     rbind (bpu_direction D draw u inst (instAddr pc) tid) (\<lambda>(orig_pred_taken, bp_history, u).
     rbind (case bpu_iPred u of None \<Rightarrow> Inr None | Some i \<Rightarrow> ip_genIndirectInfo I i tid) (\<lambda>indirect_history.
     rbind (bpu_target D I adv ret u inst pc seqNum tid orig_pred_taken
              (ph_make seqNum (instAddr pc) orig_pred_taken bp_history indirect_history tid inst))
       (\<lambda>(pred_taken, u, e, target).
     rbind (case bpu_iPred u of None \<Rightarrow> Inr u
            | Some i \<Rightarrow> rbind (ip_updateDirectionInfo I i tid orig_pred_taken) (\<lambda>i. Inr (u\<lparr>bpu_iPred := Some i\<rparr>))) (\<lambda>u.
     rbind (arr_at (bpu_predHist u) tid) (\<lambda>ph.
     rbind (arr_set (bpu_predHist u) tid (e\<lparr>ph_target := instAddr target\<rparr> # ph)) (\<lambda>phs.
     Inr (pred_taken, pc_update pc target, u\<lparr>bpu_predHist := phs\<rparr>)))))))"

section \<open>Commit\<close>

text \<open>The loop of \<^verbatim>\<open>update\<close> over the history, here oldest first.\<close>

fun bpu_commit_loop ::
  "('d, 'h) dir_ops \<Rightarrow> ('i, 'j) ind_ops \<Rightarrow> u64 \<Rightarrow> int \<Rightarrow> ('d, 'h, 'i, 'j) bpu \<Rightarrow> ('h, 'j) pred_history list \<Rightarrow>
    (('d, 'h, 'i, 'j) bpu \<times> ('h, 'j) pred_history list) result" where
  "bpu_commit_loop D I done_sn tid u [] = Inr (u, [])"
| "bpu_commit_loop D I done_sn tid u (e # es) =
     (if ph_seqNum e \<le> done_sn then
        rbind (dp_update D (bpu_dir u) tid (ph_pc e) (ph_predTaken e) (ph_bpHistory e) False (ph_inst e) (ph_target e)) (\<lambda>d.
        rbind (case bpu_iPred u of None \<Rightarrow> Inr None
               | Some i \<Rightarrow> rbind (ip_commit I i done_sn tid (ph_indirectHistory e)) (\<lambda>i. Inr (Some i))) (\<lambda>i.
        bpu_commit_loop D I done_sn tid (u\<lparr>bpu_dir := d, bpu_iPred := i\<rparr>) es))
      else Inr (u, e # es))"

definition bpu_update ::
  "('d, 'h) dir_ops \<Rightarrow> ('i, 'j) ind_ops \<Rightarrow> ('d, 'h, 'i, 'j) bpu \<Rightarrow> u64 \<Rightarrow> int \<Rightarrow> ('d, 'h, 'i, 'j) bpu result" where
  "bpu_update D I u done_sn tid =
     rbind (arr_at (bpu_predHist u) tid) (\<lambda>ph.
     rbind (bpu_commit_loop D I done_sn tid u (rev ph)) (\<lambda>(u, rest).
     rbind (arr_set (bpu_predHist u) tid (rev rest)) (\<lambda>phs. Inr (u\<lparr>bpu_predHist := phs\<rparr>))))"

section \<open>Squash\<close>

definition bpu_undo ::
  "('d, 'h) dir_ops \<Rightarrow> ('i, 'j) ind_ops \<Rightarrow> int \<Rightarrow> ('d, 'h, 'i, 'j) bpu \<Rightarrow> ('h, 'j) pred_history \<Rightarrow>
    ('d, 'h, 'i, 'j) bpu result" where
  "bpu_undo D I tid u e =
     rbind (if ph_usedRAS e then bpu_ras_restore u tid (ph_RASIndex e) (ph_RASTarget e)
            else if ph_wasCall e \<and> ph_pushedRAS e then bpu_ras_pop u tid
            else Inr u) (\<lambda>u.
     rbind (dp_squash D (bpu_dir u) tid (ph_bpHistory e)) (\<lambda>d.
     rbind (case bpu_iPred u of None \<Rightarrow> Inr None
            | Some i \<Rightarrow> rbind (ip_deleteIndirectInfo I i tid (ph_indirectHistory e)) (\<lambda>i. Inr (Some i))) (\<lambda>i.
     Inr (u\<lparr>bpu_dir := d, bpu_iPred := i\<rparr>))))"

fun bpu_squash_loop ::
  "('d, 'h) dir_ops \<Rightarrow> ('i, 'j) ind_ops \<Rightarrow> u64 \<Rightarrow> int \<Rightarrow> ('d, 'h, 'i, 'j) bpu \<Rightarrow> ('h, 'j) pred_history list \<Rightarrow>
    (('d, 'h, 'i, 'j) bpu \<times> ('h, 'j) pred_history list) result" where
  "bpu_squash_loop D I squashed_sn tid u [] = Inr (u, [])"
| "bpu_squash_loop D I squashed_sn tid u (e # es) =
     (if ph_seqNum e > squashed_sn then
        rbind (bpu_undo D I tid u e) (\<lambda>u. bpu_squash_loop D I squashed_sn tid u es)
      else Inr (u, e # es))"

definition bpu_squash ::
  "('d, 'h) dir_ops \<Rightarrow> ('i, 'j) ind_ops \<Rightarrow> ('d, 'h, 'i, 'j) bpu \<Rightarrow> u64 \<Rightarrow> int \<Rightarrow> ('d, 'h, 'i, 'j) bpu result" where
  "bpu_squash D I u squashed_sn tid =
     rbind (arr_at (bpu_predHist u) tid) (\<lambda>ph.
     rbind (case bpu_iPred u of None \<Rightarrow> Inr None
            | Some i \<Rightarrow> rbind (ip_squash I i squashed_sn tid) (\<lambda>i. Inr (Some i))) (\<lambda>i.
     rbind (bpu_squash_loop D I squashed_sn tid (u\<lparr>bpu_iPred := i\<rparr>) ph) (\<lambda>(u, rest).
     rbind (arr_set (bpu_predHist u) tid rest) (\<lambda>phs. Inr (u\<lparr>bpu_predHist := phs\<rparr>)))))"


text \<open>The repair of the mispredicted branch itself, once everything younger is undone.\<close>

definition bpu_repair_taken ::
  "('i, 'j) ind_ops \<Rightarrow> ('d, 'h, 'i, 'j) bpu \<Rightarrow> pcstate \<Rightarrow> int \<Rightarrow> ('h, 'j) pred_history \<Rightarrow>
    (('d, 'h, 'i, 'j) bpu \<times> ('h, 'j) pred_history) result" where
  "bpu_repair_taken I u corr_target tid e =
     rbind (if ph_wasReturn e \<and> \<not> ph_usedRAS e
            then rbind (bpu_ras_pop u tid) (\<lambda>u. Inr (u, e\<lparr>ph_usedRAS := True\<rparr>)) else Inr (u, e)) (\<lambda>(u, e).
     if ph_wasIndirect e then
       (case bpu_iPred u of None \<Rightarrow> Inr (u, e)
        | Some i \<Rightarrow> rbind (ip_recordTarget I i (ph_seqNum e) (ph_indirectHistory e) corr_target tid) (\<lambda>i.
                    Inr (u\<lparr>bpu_iPred := Some i\<rparr>, e)))
     else rbind (btb_update (bpu_BTB u) (ph_pc e) corr_target tid) (\<lambda>b. Inr (u\<lparr>bpu_BTB := b\<rparr>, e)))"

definition bpu_repair_not_taken ::
  "('d, 'h, 'i, 'j) bpu \<Rightarrow> int \<Rightarrow> ('h, 'j) pred_history \<Rightarrow> (('d, 'h, 'i, 'j) bpu \<times> ('h, 'j) pred_history) result" where
  "bpu_repair_not_taken u tid e =
     (if ph_usedRAS e then
        rbind (bpu_ras_restore u tid (ph_RASIndex e) (ph_RASTarget e)) (\<lambda>u. Inr (u, e\<lparr>ph_usedRAS := False\<rparr>))
      else if ph_wasCall e \<and> ph_pushedRAS e then
        rbind (bpu_ras_pop u tid) (\<lambda>u. Inr (u, e\<lparr>ph_pushedRAS := False\<rparr>))
      else Inr (u, e))"

definition bpu_squash_mispredict ::
  "('d, 'h) dir_ops \<Rightarrow> ('i, 'j) ind_ops \<Rightarrow> ('d, 'h, 'i, 'j) bpu \<Rightarrow> u64 \<Rightarrow> pcstate \<Rightarrow> bool \<Rightarrow> int \<Rightarrow>
    ('d, 'h, 'i, 'j) bpu result" where
  "bpu_squash_mispredict D I u squashed_sn corr_target actually_taken tid =
     rbind (bpu_squash D I u squashed_sn tid) (\<lambda>u.
     rbind (arr_at (bpu_predHist u) tid) (\<lambda>pred_hist.
     case pred_hist of
       [] \<Rightarrow> Inr u
     | e # es \<Rightarrow>
         rbind (rassert (ph_seqNum e = squashed_sn)) (\<lambda>_.
         let e = e\<lparr>ph_predTaken := actually_taken, ph_target := instAddr corr_target\<rparr> in
         rbind (dp_update D (bpu_dir u) tid (ph_pc e) actually_taken (ph_bpHistory e) True (ph_inst e)
                  (instAddr corr_target)) (\<lambda>d.
         rbind (case bpu_iPred u of None \<Rightarrow> Inr None
                | Some i \<Rightarrow> rbind (ip_changeDirectionPrediction I i tid (ph_indirectHistory e) actually_taken) (\<lambda>i.
                            Inr (Some i))) (\<lambda>i.
         let u = u\<lparr>bpu_dir := d, bpu_iPred := i\<rparr> in
         rbind (if actually_taken then bpu_repair_taken I u corr_target tid e else bpu_repair_not_taken u tid e)
           (\<lambda>(u, e).
         rbind (arr_set (bpu_predHist u) tid (e # es)) (\<lambda>phs. Inr (u\<lparr>bpu_predHist := phs\<rparr>))))))))"

end
