(* ===== verification/BPredSpec.thy ===== *)
theory BPredSpec
  imports BPredUnit
begin

text \<open>
  Correctness of the branch prediction unit: every operation of a prediction is shown to be undone
  by a squash, once for all predictors that satisfy the laws of their interface
  (\<open>branch_unit\<close>), and the repair of a mispredicted branch to teach the branch target
  buffer. The locale is interpreted for the local and the bi-mode predictor with the
  indirect predictor.
\<close>

section \<open>Invariant\<close>

definition btb_targets :: "btb \<Rightarrow> bool" where
  "btb_targets b \<longleftrightarrow> list_all (\<lambda>e. btbe_valid e \<longrightarrow> btbe_target e \<noteq> None) (btb_btb b)"

definition bpu_wf :: "int \<Rightarrow> ('d, 'h, 'i, 'j) bpu \<Rightarrow> bool" where
  "bpu_wf tid u \<longleftrightarrow> 0 \<le> tid \<and> nat tid < length (bpu_predHist u) \<and> nat tid < length (bpu_RAS u) \<and>
     ras_wf (bpu_RAS u ! nat tid) \<and> btb_wf (bpu_BTB u) \<and> btb_tid_ok (bpu_BTB u) tid \<and> btb_targets (bpu_BTB u)"

text \<open>\<open>w\<close> is \<open>u\<close> but for the prediction history, the \<open>m\<close> oldest entries of
  the thread's return address stack, and the indirect predictor, which is \<open>u\<close>'s squashed at \<open>s\<close>.\<close>

definition bpu_undone ::
  "('i, 'j) ind_ops \<Rightarrow> u64 \<Rightarrow> int \<Rightarrow> nat \<Rightarrow> ('d, 'h, 'i, 'j) bpu \<Rightarrow> ('d, 'h, 'i, 'j) bpu \<Rightarrow> bool" where
  "bpu_undone I s tid m u w \<longleftrightarrow> bpu_dir w = bpu_dir u \<and> bpu_BTB w = bpu_BTB u \<and>
     bpu_predictPoison w = bpu_predictPoison u \<and> bpu_predictorEnable w = bpu_predictorEnable u \<and>
     (\<exists>r. bpu_RAS w = (bpu_RAS u)[nat tid := r] \<and> ras_agree m (bpu_RAS u ! nat tid) r) \<and>
     rel_option (\<lambda>i j. ip_squash I i s tid = Inr j) (bpu_iPred u) (bpu_iPred w)"

lemma btb_lookup_valid:
  assumes "btb_wf b" "btb_tid_ok b tid" "btb_targets b"
  shows "\<exists>v t. btb_valid b pc tid = Inr v \<and> btb_lookup b pc tid = Inr t \<and> (v \<longleftrightarrow> t \<noteq> None)"
proof -
  obtain i where i: "btb_getIndex b pc tid = Inr i" "i < btb_numEntries b" using btb_getIndex_ok [OF assms(1,2)] by blast
  obtain g where g: "btb_getTag b pc = Inr g" using btb_getTag_ok [OF assms(1)] by blast
  have l: "unat i < length (btb_btb b)" using i(2) assms(1) by (simp add: btb_wf_def word_less_nat_alt)
  then have "btbe_valid (btb_btb b ! unat i) \<longrightarrow> btbe_target (btb_btb b ! unat i) \<noteq> None"
    using assms(3) by (simp add: btb_targets_def list_all_length)
  then show ?thesis using i g l by (auto simp: btb_valid_def btb_lookup_def btb_hit_def)
qed

section \<open>Undoing a prediction\<close>

definition bpu_inv ::
  "(int \<Rightarrow> 'd \<Rightarrow> bool) \<Rightarrow> (int \<Rightarrow> 'i \<Rightarrow> bool) \<Rightarrow> int \<Rightarrow> ('d, 'h, 'i, 'j) bpu \<Rightarrow> bool" where
  "bpu_inv dinv iinv tid u \<longleftrightarrow> bpu_wf tid u \<and> dinv tid (bpu_dir u) \<and> pred_option (iinv tid) (bpu_iPred u)"

text \<open>What a squash does to the return address stack for one history entry.\<close>

definition ras_undo_entry :: "('h, 'j) pred_history \<Rightarrow> ras \<Rightarrow> ras result" where
  "ras_undo_entry e r =
     (if ph_usedRAS e then ras_restore r (ph_RASIndex e) (ph_RASTarget e)
      else if ph_wasCall e \<and> ph_pushedRAS e then Inr (ras_pop r) else Inr r)"

definition ras_undoable :: "nat \<Rightarrow> ras \<Rightarrow> ras \<Rightarrow> ('h, 'j) pred_history \<Rightarrow> bool" where
  "ras_undoable n r0 r e \<longleftrightarrow> ras_wf r \<and>
     (\<forall>m r2. ras_agree m r r2 \<longrightarrow> (\<exists>r3. ras_undo_entry e r2 = Inr r3 \<and> ras_agree (m + n) r0 r3))"

text \<open>\<open>u\<close> is \<open>u0\<close> after a prediction whose entry is \<open>e\<close>, the stack apart.\<close>

definition bpu_core ::
  "('d, 'h) dir_ops \<Rightarrow> ('i, 'j) ind_ops \<Rightarrow> (int \<Rightarrow> 'd \<Rightarrow> bool) \<Rightarrow> (int \<Rightarrow> 'i \<Rightarrow> bool) \<Rightarrow> u64 \<Rightarrow> int \<Rightarrow>
    ('d, 'h, 'i, 'j) bpu \<Rightarrow> ('d, 'h, 'i, 'j) bpu \<Rightarrow> ('h, 'j) pred_history \<Rightarrow> bool" where
  "bpu_core D I dinv iinv s tid u0 u e \<longleftrightarrow>
     dinv tid (bpu_dir u) \<and> dp_squash D (bpu_dir u) tid (ph_bpHistory e) = Inr (bpu_dir u0) \<and>
     bpu_BTB u = bpu_BTB u0 \<and> bpu_predictPoison u = bpu_predictPoison u0 \<and>
     bpu_predictorEnable u = bpu_predictorEnable u0 \<and> bpu_predHist u = bpu_predHist u0 \<and> s < ph_seqNum e \<and>
     rel_option (\<lambda>i0 i. iinv tid i0 \<and> iinv tid i \<and> ind_undone I tid s i0 (ph_indirectHistory e) i)
       (bpu_iPred u0) (bpu_iPred u)"

definition bpu_done ::
  "int \<Rightarrow> nat \<Rightarrow> ('d, 'h, 'i, 'j) bpu \<Rightarrow> ('d, 'h, 'i, 'j) bpu \<Rightarrow> ('h, 'j) pred_history \<Rightarrow> bool" where
  "bpu_done tid n u0 u e \<longleftrightarrow>
     (\<exists>r. bpu_RAS u = (bpu_RAS u0)[nat tid := r] \<and> ras_undoable n (bpu_RAS u0 ! nat tid) r e)"

lemma ras_undo_entry_target [simp]: "ras_undo_entry (e\<lparr>ph_target := t\<rparr>) = ras_undo_entry e"
  by (intro ext) (simp add: ras_undo_entry_def)

lemma bpu_done_simps [simp]:
  "bpu_done tid n u0 (u\<lparr>bpu_iPred := i\<rparr>) e = bpu_done tid n u0 u e"
  "bpu_done tid n u0 (u\<lparr>bpu_predHist := p\<rparr>) e = bpu_done tid n u0 u e"
  "bpu_done tid n u0 u (e\<lparr>ph_target := t\<rparr>) = bpu_done tid n u0 u e"
  by (simp_all add: bpu_done_def ras_undoable_def)

lemma ras_undoable_refl:
  "ras_wf r \<Longrightarrow> \<not> ph_usedRAS e \<Longrightarrow> \<not> (ph_wasCall e \<and> ph_pushedRAS e) \<Longrightarrow> ras_undoable n r r e"
  by (auto simp: ras_undoable_def ras_undo_entry_def intro: ras_agree_mono)

lemma bpu_ras_pop_eq:
  assumes "0 \<le> tid" "nat tid < length (bpu_RAS u)"
  shows "bpu_ras_pop u tid = Inr (u\<lparr>bpu_RAS := (bpu_RAS u)[nat tid := ras_pop (bpu_RAS u ! nat tid)]\<rparr>)"
  using assms by (simp add: bpu_ras_pop_def)

lemma bpu_core_ras [simp]: "bpu_core D I dinv iinv s tid u0 (u\<lparr>bpu_RAS := rs\<rparr>) e = bpu_core D I dinv iinv s tid u0 u e"
  by (simp add: bpu_core_def)

lemma bpu_core_entry:
  "bpu_core D I dinv iinv s tid u0 u e \<Longrightarrow> ph_bpHistory e' = ph_bpHistory e \<Longrightarrow>
    ph_indirectHistory e' = ph_indirectHistory e \<Longrightarrow> ph_seqNum e' = ph_seqNum e \<Longrightarrow> bpu_core D I dinv iinv s tid u0 u e'"
  by (simp add: bpu_core_def)

lemma ras_return_undoable:
  assumes "ras_wf r" "ph_usedRAS e" "ph_RASIndex e = ras_tos r" "ph_RASTarget e = ras_nth r 0"
  shows "ras_undoable n r (ras_pop r) e"
proof -
  have "\<exists>r3. ras_restore r2 (ras_tos r) (ras_nth r 0) = Inr r3 \<and> ras_agree (m + n) r r3"
    if "ras_agree m (ras_pop r) r2" for m r2
    using ras_return_step [OF assms(1) that] ras_agree_mono [of "m - 1" r _ "m + n"] by force
  then show ?thesis using assms ras_pop_nth(1) [OF assms(1)] by (simp add: ras_undoable_def ras_undo_entry_def)
qed

lemma bpu_return_ok:
  assumes "bpu_wf tid u0" "bpu_core D I dinv iinv s tid u0 u e" "bpu_RAS u = bpu_RAS u0" "ph_RASTarget e = None"
  obtains u1 e1 t where "bpu_return ret u inst pc tid e = Inr (u1, e1, t)" "bpu_core D I dinv iinv s tid u0 u1 e1"
    "bpu_done tid n u0 u1 e1"
proof -
  let ?r = "bpu_RAS u0 ! nat tid"
  let ?e = "e\<lparr>ph_wasReturn := True, ph_usedRAS := True, ph_RASIndex := ras_topIdx ?r, ph_RASTarget := ras_nth ?r 0\<rparr>"
  have t: "0 \<le> tid" "nat tid < length (bpu_RAS u0)" "ras_wf ?r" using assms(1) by (simp_all add: bpu_wf_def)
  have "bpu_return ret u inst pc tid e = Inr (u\<lparr>bpu_RAS := (bpu_RAS u0)[nat tid := ras_pop ?r]\<rparr>, ?e,
      case ras_nth ?r 0 of Some t \<Rightarrow> pc_update pc (ret inst pc t) | None \<Rightarrow> pc)"
    using t assms(3,4) by (simp add: bpu_return_def bpu_ras_pop_eq ras_top_nth pc_set_ptr_eq)
  moreover have "bpu_core D I dinv iinv s tid u0 (u\<lparr>bpu_RAS := (bpu_RAS u0)[nat tid := ras_pop ?r]\<rparr>) ?e"
    using bpu_core_entry [OF assms(2)] by simp
  moreover have "bpu_done tid n u0 (u\<lparr>bpu_RAS := (bpu_RAS u0)[nat tid := ras_pop ?r]\<rparr>) ?e"
    using ras_return_undoable [OF t(3), of ?e n] by (auto simp: bpu_done_def ras_topIdx_def)
  ultimately show ?thesis by (rule that)
qed


text \<open>Between the push of a call and the target lookup.\<close>

definition bpu_mid ::
  "int \<Rightarrow> static_inst \<Rightarrow> ('d, 'h, 'i, 'j) bpu \<Rightarrow> ('d, 'h, 'i, 'j) bpu \<Rightarrow> ('h, 'j) pred_history \<Rightarrow> bool" where
  "bpu_mid tid inst u0 u e \<longleftrightarrow> \<not> ph_usedRAS e \<and>
     (if si_is IsCall inst
      then ph_wasCall e \<and> ph_pushedRAS e \<and>
           (\<exists>r a. ras_push (bpu_RAS u0 ! nat tid) a = Inr r \<and> bpu_RAS u = (bpu_RAS u0)[nat tid := r])
      else \<not> ph_wasCall e \<and> bpu_RAS u = bpu_RAS u0)"

lemma bpu_mid_simps [simp]:
  "bpu_mid tid inst u0 u (e\<lparr>ph_predTaken := b\<rparr>) = bpu_mid tid inst u0 u e"
  "bpu_mid tid inst u0 u (e\<lparr>ph_wasIndirect := b\<rparr>) = bpu_mid tid inst u0 u e"
  "bpu_mid tid inst u0 (u\<lparr>bpu_dir := d\<rparr>) e = bpu_mid tid inst u0 u e"
  by (simp_all add: bpu_mid_def)

abbreviation calls :: "static_inst \<Rightarrow> nat" where
  "calls inst \<equiv> (if si_is IsCall inst then 1 else 0)"

lemma ras_push_undoable:
  assumes "ras_wf r" "ras_push r a = Inr r1" "\<not> ph_usedRAS e" "ph_wasCall e"
  shows "ph_pushedRAS e \<Longrightarrow> ras_undoable 1 r r1 e" and "\<not> ph_pushedRAS e \<Longrightarrow> ras_undoable 1 r (ras_pop r1) e"
proof -
  have r1: "ras_wf r1" and step: "\<forall>m r2. ras_agree m r1 r2 \<longrightarrow> ras_agree (Suc m) r (ras_pop r2)"
    by (rule ras_push_step [OF assms(1), of a], use assms(2) in auto)+
  show "ph_pushedRAS e \<Longrightarrow> ras_undoable 1 r r1 e"
    using r1 step assms by (simp add: ras_undoable_def ras_undo_entry_def)
  have a: "ras_agree 1 r (ras_pop r1)" using step ras_agree_refl [OF r1, of 0] by force
  have "ras_agree (m + 1) r r2" if "ras_agree m (ras_pop r1) r2" for m r2
    using ras_agree_mono [OF ras_agree_trans [OF a that]] by simp
  then show "\<not> ph_pushedRAS e \<Longrightarrow> ras_undoable 1 r (ras_pop r1) e"
    using ras_pop_nth(1) [OF r1] assms by (simp add: ras_undoable_def ras_undo_entry_def)
qed

lemma bpu_mid_done:
  assumes "bpu_wf tid u0" "bpu_mid tid inst u0 u e"
  shows "bpu_done tid (calls inst) u0 u e"
proof (cases "si_is IsCall inst")
  case True
  then show ?thesis using assms ras_push_undoable(1) by (fastforce simp: bpu_mid_def bpu_done_def bpu_wf_def)
next
  case False
  then have "bpu_RAS u = (bpu_RAS u0)[nat tid := bpu_RAS u0 ! nat tid]" using assms by (simp add: bpu_mid_def)
  moreover have "ras_undoable 0 (bpu_RAS u0 ! nat tid) (bpu_RAS u0 ! nat tid) e"
    using False assms by (intro ras_undoable_refl) (simp_all add: bpu_mid_def bpu_wf_def)
  ultimately show ?thesis using False unfolding bpu_done_def by (intro exI) auto
qed

lemma bpu_push_ok:
  assumes "bpu_wf tid u0" "bpu_core D I dinv iinv s tid u0 u e" "bpu_RAS u = bpu_RAS u0"
    and "\<not> ph_usedRAS e" "\<not> ph_wasCall e"
  obtains u1 e1 where "bpu_push u inst pc tid e = Inr (u1, e1)" "bpu_core D I dinv iinv s tid u0 u1 e1"
    "bpu_mid tid inst u0 u1 e1"
proof (cases "si_is IsCall inst")
  case True
  have t: "0 \<le> tid" "nat tid < length (bpu_RAS u0)" "ras_wf (bpu_RAS u0 ! nat tid)"
    using assms(1) by (simp_all add: bpu_wf_def)
  obtain r where r: "ras_push (bpu_RAS u0 ! nat tid) pc = Inr r"
    by (rule ras_push_step [OF t(3), of pc])
  let ?u = "u\<lparr>bpu_RAS := (bpu_RAS u0)[nat tid := r]\<rparr>"
  let ?e = "e\<lparr>ph_pushedRAS := True, ph_wasCall := True\<rparr>"
  have "bpu_push u inst pc tid e = Inr (?u, ?e)" using True t r assms(3) by (simp add: bpu_push_def)
  moreover have "bpu_core D I dinv iinv s tid u0 ?u ?e" using bpu_core_entry [OF assms(2)] by simp
  moreover have "bpu_mid tid inst u0 ?u ?e" using True r assms(4) by (auto simp: bpu_mid_def)
  ultimately show ?thesis by (rule that)
next
  case False
  then show ?thesis using that [of u e] assms by (simp add: bpu_push_def bpu_mid_def)
qed

lemma bpu_unpush_ok:
  assumes "bpu_wf tid u0" "bpu_core D I dinv iinv s tid u0 u e" "bpu_mid tid inst u0 u e"
  obtains u1 e1 where "bpu_unpush u inst tid e = Inr (u1, e1)" "bpu_core D I dinv iinv s tid u0 u1 e1"
    "bpu_done tid (calls inst) u0 u1 e1" "bpu_iPred u1 = bpu_iPred u"
proof (cases "si_is IsCall inst \<and> \<not> si_is IsUncondControl inst")
  case True
  have t: "0 \<le> tid" "nat tid < length (bpu_RAS u0)" "ras_wf (bpu_RAS u0 ! nat tid)"
    using assms(1) by (simp_all add: bpu_wf_def)
  obtain r a where r: "ras_push (bpu_RAS u0 ! nat tid) a = Inr r" "bpu_RAS u = (bpu_RAS u0)[nat tid := r]"
    using assms(3) True by (auto simp: bpu_mid_def)
  let ?u = "u\<lparr>bpu_RAS := (bpu_RAS u0)[nat tid := ras_pop r]\<rparr>" and ?e = "e\<lparr>ph_pushedRAS := False\<rparr>"
  have "ras_undoable 1 (bpu_RAS u0 ! nat tid) (ras_pop r) ?e"
    using ras_push_undoable(2) [OF t(3) r(1), of ?e] assms(3) True by (simp add: bpu_mid_def)
  then have "bpu_done tid (calls inst) u0 ?u ?e" using True unfolding bpu_done_def by auto
  moreover have "bpu_unpush u inst tid e = Inr (?u, ?e)"
    using True t r by (simp add: bpu_unpush_def bpu_ras_pop_eq)
  moreover have "bpu_core D I dinv iinv s tid u0 ?u ?e" using bpu_core_entry [OF assms(2)] by simp
  ultimately show ?thesis using that by simp
next
  case False
  then have "bpu_unpush u inst tid e = Inr (u, e)" unfolding bpu_unpush_def by (rule if_not_P)
  then show ?thesis using assms(2) bpu_mid_done [OF assms(1,3)] refl by (rule that)
qed

text \<open>What a prediction never changes in the entry it makes.\<close>

definition same_branch :: "('h, 'j) pred_history \<Rightarrow> ('h, 'j) pred_history \<Rightarrow> bool" where
  "same_branch e e' \<longleftrightarrow> ph_pc e' = ph_pc e \<and> ph_seqNum e' = ph_seqNum e \<and> ph_inst e' = ph_inst e"

lemma bpu_unpush_entry: "bpu_unpush u inst tid e = Inr (u1, e1) \<Longrightarrow>
    same_branch e e1 \<and> ph_wasIndirect e1 = ph_wasIndirect e"
  by (auto simp: bpu_unpush_def same_branch_def rbind_Inr_iff split: if_splits)

lemma bpu_push_entry: "bpu_push u inst pc tid e = Inr (u1, e1) \<Longrightarrow>
    same_branch e e1 \<and> ph_wasIndirect e1 = ph_wasIndirect e \<and> bpu_iPred u1 = bpu_iPred u"
  by (auto simp: bpu_push_def same_branch_def rbind_Inr_iff split: if_splits)

lemma bpu_return_entry: "bpu_return ret u inst pc tid e = Inr (u1, e1, t) \<Longrightarrow>
    same_branch e e1 \<and> ph_wasIndirect e1 = ph_wasIndirect e"
  by (auto simp: bpu_return_def same_branch_def rbind_Inr_iff Let_def)

lemma bpu_direct_entry: "bpu_direct D adv u inst pc tid e = Inr (t, u1, e1, p) \<Longrightarrow>
    same_branch e e1 \<and> ph_wasIndirect e1 = ph_wasIndirect e"
proof -
  assume a: "bpu_direct D adv u inst pc tid e = Inr (t, u1, e1, p)"
  then obtain v where v: "btb_valid (bpu_BTB u) (instAddr pc) tid = Inr v" by (auto simp: bpu_direct_def rbind_Inr_iff)
  show ?thesis
  proof (cases v)
    case True
    then show ?thesis using a v by (auto simp: bpu_direct_def rbind_Inr_iff same_branch_def split: option.splits)
  next
    case False
    then show ?thesis
      using a v bpu_unpush_entry [of u inst tid "e\<lparr>ph_predTaken := False\<rparr>"]
      by (fastforce simp: bpu_direct_def Let_def rbind_Inr_iff same_branch_def split: if_splits)
  qed
qed

lemma bpu_indirect_entry: "bpu_indirect I adv i u inst pc sn tid e = Inr (t, u1, e1, p) \<Longrightarrow> same_branch e e1"
proof -
  assume a: "bpu_indirect I adv i u inst pc sn tid e = Inr (t, u1, e1, p)"
  then obtain hit where "ip_lookup I i (instAddr pc) tid = Inr hit" by (auto simp: bpu_indirect_def rbind_Inr_iff Let_def)
  then show ?thesis
    using a bpu_unpush_entry [of u inst tid "e\<lparr>ph_wasIndirect := True, ph_predTaken := False\<rparr>"]
    by (cases hit) (fastforce simp: bpu_indirect_def rbind_Inr_iff same_branch_def Let_def)+
qed

lemma bpu_target_entry:
  assumes "bpu_target D I adv ret u inst pc seqNum tid pt e = Inr (t, u1, e1, p)"
  shows "same_branch e e1 \<and> (bpu_iPred u = None \<or> si_is IsDirectControl inst \<longrightarrow> ph_wasIndirect e1 = ph_wasIndirect e)"
proof (cases "pt \<and> \<not> si_is IsReturn inst")
  case True
  then obtain u2 e2 where p: "bpu_push u inst pc tid e = Inr (u2, e2)" using assms by (auto simp: bpu_target_def rbind_Inr_iff)
  note push = bpu_push_entry [OF p]
  show ?thesis
  proof (cases "bpu_iPred u2 = None \<or> si_is IsDirectControl inst")
    case d: True
    then have "bpu_direct D adv u2 inst pc tid e2 = Inr (t, u1, e1, p)"
      using assms True p by (auto simp: bpu_target_def split: option.splits)
    then show ?thesis using push bpu_direct_entry by (force simp: same_branch_def)
  next
    case i: False
    then obtain j where "bpu_indirect I adv j u2 inst pc seqNum tid e2 = Inr (t, u1, e1, p)"
      using assms True p by (auto simp: bpu_target_def split: option.splits)
    then show ?thesis using push i bpu_indirect_entry by (force simp: same_branch_def)
  qed
next
  case False
  then show ?thesis using assms
    by (auto simp: bpu_target_def same_branch_def rbind_Inr_iff dest!: bpu_return_entry split: if_splits)
qed

text \<open>A sequence of predictions on one thread: the drawn number, the instruction, its sequence
  number and its PC.\<close>

fun bpu_run ::
  "('d, 'h) dir_ops \<Rightarrow> ('i, 'j) ind_ops \<Rightarrow> (static_inst \<Rightarrow> pcstate \<Rightarrow> pcstate) \<Rightarrow>
    (static_inst \<Rightarrow> pcstate \<Rightarrow> pcstate \<Rightarrow> pcstate) \<Rightarrow> int \<Rightarrow> ('d, 'h, 'i, 'j) bpu \<Rightarrow>
    (u8 \<times> static_inst \<times> u64 \<times> pcstate) list \<Rightarrow> ('d, 'h, 'i, 'j) bpu result" where
  "bpu_run D I adv ret tid u [] = Inr u"
| "bpu_run D I adv ret tid u ((draw, inst, seqNum, pc) # xs) =
     rbind (bpu_predict D I adv ret draw u inst seqNum pc tid) (\<lambda>(_, _, u). bpu_run D I adv ret tid u xs)"

definition run_calls :: "(u8 \<times> static_inst \<times> u64 \<times> pcstate) list \<Rightarrow> nat" where
  "run_calls xs = sum_list (map (\<lambda>(_, inst, _, _). calls inst) xs)"

lemma bpu_undo_predHist: "bpu_undo D I tid u e = Inr w \<Longrightarrow> bpu_predHist w = bpu_predHist u"
  by (auto simp: bpu_undo_def bpu_ras_restore_def bpu_ras_pop_def rbind_Inr_iff split: if_splits)

lemma bpu_undos_predHist: "rfold (bpu_undo D I tid) u es = Inr w \<Longrightarrow> bpu_predHist w = bpu_predHist u"
  by (induction es arbitrary: u) (auto simp: rbind_Inr_iff bpu_undo_predHist)

lemma bpu_squash_loop_append:
  assumes "\<forall>e \<in> set es. s < ph_seqNum e" "\<forall>e \<in> set rest. ph_seqNum e \<le> s"
  shows "bpu_squash_loop D I s tid u (es @ rest) = rbind (rfold (bpu_undo D I tid) u es) (\<lambda>w. Inr (w, rest))"
  using assms(1)
proof (induction es arbitrary: u)
  case Nil
  then show ?case using assms(2) by (cases rest) (auto simp: not_less)
next
  case (Cons e es)
  then show ?case by (cases "bpu_undo D I tid u e") auto
qed

lemma bpu_ras_undo_eq:
  assumes "0 \<le> tid" "nat tid < length (bpu_RAS w)" "ras_undo_entry e (bpu_RAS w ! nat tid) = Inr r3"
  shows "bpu_undo D I tid w e = rbind (dp_squash D (bpu_dir w) tid (ph_bpHistory e)) (\<lambda>d.
     rbind (case bpu_iPred w of None \<Rightarrow> Inr None
            | Some i \<Rightarrow> rbind (ip_deleteIndirectInfo I i tid (ph_indirectHistory e)) (\<lambda>i. Inr (Some i))) (\<lambda>i.
     Inr (w\<lparr>bpu_RAS := (bpu_RAS w)[nat tid := r3], bpu_dir := d, bpu_iPred := i\<rparr>)))"
  using assms by (auto simp: bpu_undo_def ras_undo_entry_def bpu_ras_restore_def bpu_ras_pop_def split: if_splits)

locale branch_unit = direction_predictor D dinv + indirect_predictor I iinv
  for D :: "('d, 'h) dir_ops" and dinv and I :: "('i, 'j) ind_ops" and iinv
begin

lemma direct_ok:
  assumes "bpu_wf tid u0" "bpu_core D I dinv iinv s tid u0 u e" "bpu_mid tid inst u0 u e"
  obtains t u1 e1 pc1 where "bpu_direct D adv u inst pc tid e = Inr (t, u1, e1, pc1)"
    "bpu_core D I dinv iinv s tid u0 u1 e1" "bpu_done tid (calls inst) u0 u1 e1"
proof -
  let ?e = "e\<lparr>ph_predTaken := False\<rparr>"
  have b: "bpu_BTB u = bpu_BTB u0" using assms(2) by (simp add: bpu_core_def)
  obtain v t where vt: "btb_valid (bpu_BTB u) (instAddr pc) tid = Inr v" "btb_lookup (bpu_BTB u) (instAddr pc) tid = Inr t"
      "v \<longleftrightarrow> t \<noteq> None"
    using btb_lookup_valid [of "bpu_BTB u" tid "instAddr pc"] assms(1) b by (auto simp: bpu_wf_def)
  have core: "bpu_core D I dinv iinv s tid u0 u ?e" and mid: "bpu_mid tid inst u0 u ?e"
    using bpu_core_entry [OF assms(2), of ?e] assms(3) by simp_all
  show ?thesis
  proof (cases v)
    case True
    then show ?thesis using that vt assms bpu_mid_done [OF assms(1,3)] by (auto simp: bpu_direct_def)
  next
    case False
    show ?thesis
    proof (cases "\<not> si_is IsCall inst \<and> \<not> si_is IsReturn inst")
      case True
      obtain d where d: "dp_btbUpdate D (bpu_dir u) tid (instAddr pc) (ph_bpHistory e) = Inr d" "dinv tid d"
          "dp_squash D d tid (ph_bpHistory e) = Inr (bpu_dir u0)"
        using btb_law assms(2) unfolding bpu_core_def by blast
      have "bpu_core D I dinv iinv s tid u0 (u\<lparr>bpu_dir := d\<rparr>) ?e" using core d by (simp add: bpu_core_def)
      moreover have "bpu_done tid (calls inst) u0 (u\<lparr>bpu_dir := d\<rparr>) ?e"
        by (rule bpu_mid_done [OF assms(1)]) (use mid in simp)
      moreover have "bpu_direct D adv u inst pc tid e = Inr (False, u\<lparr>bpu_dir := d\<rparr>, ?e, adv inst pc)"
        using True False vt d by (simp add: bpu_direct_def)
      ultimately show ?thesis using that by blast
    next
      case cr: False
      obtain u1 e1 where "bpu_unpush u inst tid ?e = Inr (u1, e1)" "bpu_core D I dinv iinv s tid u0 u1 e1"
          "bpu_done tid (calls inst) u0 u1 e1"
        by (rule bpu_unpush_ok [OF assms(1) core mid])
      then show ?thesis using that [of False u1 e1 "adv inst pc"] cr False vt by (simp add: bpu_direct_def)
    qed
  qed
qed


lemma record_core:
  assumes "bpu_core D I dinv iinv s tid u0 u e" "bpu_iPred u = Some i" "ph_seqNum e = seqNum"
  obtains i1 where "ip_recordIndirect I i br tgt seqNum tid = Inr i1"
    "bpu_core D I dinv iinv s tid u0 (u\<lparr>bpu_iPred := Some i1\<rparr>) e"
proof -
  obtain i0 where i0: "bpu_iPred u0 = Some i0" "iinv tid i0" "iinv tid i" "ind_undone I tid s i0 (ph_indirectHistory e) i"
    using assms(1,2) by (auto simp: bpu_core_def option_rel_Some2)
  have "s < seqNum" using assms(1,3) by (simp add: bpu_core_def)
  from record_law [OF i0(2,3) this i0(4)]
  obtain i1 where "ip_recordIndirect I i br tgt seqNum tid = Inr i1" "iinv tid i1"
    "ind_undone I tid s i0 (ph_indirectHistory e) i1" by blast
  then show ?thesis using that assms(1) i0 by (simp add: bpu_core_def)
qed

lemma indirect_ok:
  assumes "bpu_wf tid u0" "bpu_core D I dinv iinv s tid u0 u e" "bpu_mid tid inst u0 u e" "bpu_iPred u = Some i"
    and "ph_seqNum e = seqNum"
  obtains t u1 e1 pc1 where "bpu_indirect I adv i u inst pc seqNum tid e = Inr (t, u1, e1, pc1)"
    "bpu_core D I dinv iinv s tid u0 u1 e1" "bpu_done tid (calls inst) u0 u1 e1"
proof -
  have "iinv tid i" using assms(2,4) by (auto simp: bpu_core_def option_rel_Some2)
  then obtain hit where hit: "ip_lookup I i (instAddr pc) tid = Inr hit" using lookup_total by blast
  let ?e = "e\<lparr>ph_wasIndirect := True\<rparr>" and ?f = "e\<lparr>ph_wasIndirect := True, ph_predTaken := False\<rparr>"
  have e: "bpu_core D I dinv iinv s tid u0 u ?e" "bpu_mid tid inst u0 u ?e"
    and f: "bpu_core D I dinv iinv s tid u0 u ?f" "bpu_mid tid inst u0 u ?f"
    using bpu_core_entry [OF assms(2)] assms(3) by simp_all
  show ?thesis
  proof (cases hit)
    case (Some t)
    obtain i1 where "ip_recordIndirect I i (instAddr pc) (instAddr (pc_update pc t)) seqNum tid = Inr i1"
        "bpu_core D I dinv iinv s tid u0 (u\<lparr>bpu_iPred := Some i1\<rparr>) ?e"
      by (rule record_core [OF e(1) assms(4)]) (use assms(5) in simp)
    then show ?thesis
      using that [of True "u\<lparr>bpu_iPred := Some i1\<rparr>" ?e "pc_update pc t"] Some hit bpu_mid_done [OF assms(1) e(2)]
      by (simp add: bpu_indirect_def bpu_done_def)
  next
    case None
    obtain u1 e1 where u1: "bpu_unpush u inst tid ?f = Inr (u1, e1)" "bpu_core D I dinv iinv s tid u0 u1 e1"
        "bpu_done tid (calls inst) u0 u1 e1" "bpu_iPred u1 = bpu_iPred u"
      by (rule bpu_unpush_ok [OF assms(1) f])
    have sq: "ph_seqNum e1 = seqNum"
      using u1(1) assms(5) by (auto simp: bpu_unpush_def rbind_Inr_iff split: if_splits)
    obtain i1 where "ip_recordIndirect I i (instAddr pc) (instAddr (adv inst pc)) seqNum tid = Inr i1"
        "bpu_core D I dinv iinv s tid u0 (u1\<lparr>bpu_iPred := Some i1\<rparr>) e1"
      by (rule record_core [OF u1(2) _ sq]) (use u1(4) assms(4) in simp)
    then show ?thesis
      using that [of False "u1\<lparr>bpu_iPred := Some i1\<rparr>" e1 "adv inst pc"] None hit u1
      by (simp add: bpu_indirect_def bpu_done_def)
  qed
qed

lemma target_ok:
  assumes "bpu_wf tid u0" "bpu_core D I dinv iinv s tid u0 u e" "bpu_RAS u = bpu_RAS u0"
    and "\<not> ph_usedRAS e" "\<not> ph_wasCall e" "ph_RASTarget e = None" "ph_seqNum e = seqNum"
  obtains t u1 e1 pc1 where "bpu_target D I adv ret u inst pc seqNum tid pt e = Inr (t, u1, e1, pc1)"
    "bpu_core D I dinv iinv s tid u0 u1 e1" "bpu_done tid (calls inst) u0 u1 e1"
proof -
  consider (return) "pt" "si_is IsReturn inst" | (taken) "pt" "\<not> si_is IsReturn inst" | (not_taken) "\<not> pt" by blast
  then show ?thesis
  proof cases
    case return
    obtain u1 e1 t where "bpu_return ret u inst pc tid e = Inr (u1, e1, t)" "bpu_core D I dinv iinv s tid u0 u1 e1"
        "bpu_done tid (calls inst) u0 u1 e1"
      by (rule bpu_return_ok [OF assms(1,2,3,6)])
    then show ?thesis using that [of True u1 e1 t] return by (simp add: bpu_target_def)
  next
    case taken
    obtain u1 e1 where m: "bpu_push u inst pc tid e = Inr (u1, e1)" "bpu_core D I dinv iinv s tid u0 u1 e1"
        "bpu_mid tid inst u0 u1 e1"
      by (rule bpu_push_ok [OF assms(1-5)])
    have sq: "ph_seqNum e1 = seqNum"
      using m(1) assms(7) by (auto simp: bpu_push_def rbind_Inr_iff split: if_splits)
    show ?thesis
    proof (cases "bpu_iPred u1 = None \<or> si_is IsDirectControl inst")
      case True
      obtain t u2 e2 pc2 where "bpu_direct D adv u1 inst pc tid e1 = Inr (t, u2, e2, pc2)"
          "bpu_core D I dinv iinv s tid u0 u2 e2" "bpu_done tid (calls inst) u0 u2 e2"
        by (rule direct_ok [OF assms(1) m(2,3)])
      then show ?thesis using that [of t u2 e2 pc2] True m(1) taken
        by (auto simp: bpu_target_def split: option.split)
    next
      case False
      then obtain i where i: "bpu_iPred u1 = Some i" by auto
      obtain t u2 e2 pc2 where "bpu_indirect I adv i u1 inst pc seqNum tid e1 = Inr (t, u2, e2, pc2)"
          "bpu_core D I dinv iinv s tid u0 u2 e2" "bpu_done tid (calls inst) u0 u2 e2"
        by (rule indirect_ok [OF assms(1) m(2,3) i sq])
      then show ?thesis using that [of t u2 e2 pc2] False m(1) taken i by (simp add: bpu_target_def)
    qed
  next
    case not_taken
    let ?e = "if si_is IsReturn inst then e\<lparr>ph_wasReturn := True\<rparr> else e"
    have "bpu_RAS u = (bpu_RAS u0)[nat tid := bpu_RAS u0 ! nat tid]" using assms(3) by simp
    moreover have "ras_undoable (calls inst) (bpu_RAS u0 ! nat tid) (bpu_RAS u0 ! nat tid) ?e"
      using assms by (intro ras_undoable_refl) (auto simp: bpu_wf_def)
    ultimately have "bpu_done tid (calls inst) u0 u ?e" unfolding bpu_done_def by blast
    moreover have "bpu_core D I dinv iinv s tid u0 u ?e" using bpu_core_entry [OF assms(2)] by simp
    ultimately show ?thesis using that [of False u ?e "adv inst pc"] not_taken by (simp add: bpu_target_def)
  qed
qed


lemma direction_ok:
  assumes "bpu_inv dinv iinv tid u"
  obtains t h d where "bpu_direction D draw u inst pc tid = Inr (t, h, u\<lparr>bpu_dir := d\<rparr>)" "dinv tid d"
    "dp_squash D d tid h = Inr (bpu_dir u)"
proof -
  have inv: "dinv tid (bpu_dir u)" using assms by (simp add: bpu_inv_def)
  show ?thesis
  proof (cases "si_is IsUncondControl inst")
    case True
    then show ?thesis using uncond_law [OF inv, of pc] that by (auto simp: bpu_direction_def)
  next
    case False
    obtain t h d where "dp_lookup D (bpu_dir u) tid pc = Inr (t, h, d)" "dinv tid d" "dp_squash D d tid h = Inr (bpu_dir u)"
      using lookup_law [OF inv, of pc] by blast
    with False show ?thesis using that by (simp add: bpu_direction_def Let_def)
  qed
qed

text \<open>One prediction: it succeeds, keeps the invariant, adds one history entry, and undoing that
  entry gives back what was before.\<close>

lemma predict_step:
  assumes "bpu_inv dinv iinv tid u" "s < seqNum"
  obtains t pc1 u1 e where "bpu_predict D I adv ret draw u inst seqNum pc tid = Inr (t, pc1, u1)"
    "bpu_inv dinv iinv tid u1" "bpu_predHist u1 = (bpu_predHist u)[nat tid := e # bpu_predHist u ! nat tid]"
    "bpu_core D I dinv iinv s tid u (u1\<lparr>bpu_predHist := bpu_predHist u\<rparr>) e" "bpu_done tid (calls inst) u u1 e"
    "ph_pc e = instAddr pc" "ph_seqNum e = seqNum"
    "bpu_iPred u = None \<or> si_is IsDirectControl inst \<longrightarrow> \<not> ph_wasIndirect e"
proof -
  have wf: "bpu_wf tid u" and ii: "pred_option (iinv tid) (bpu_iPred u)" using assms(1) by (simp_all add: bpu_inv_def)
  obtain ot h d where d: "bpu_direction D draw u inst (instAddr pc) tid = Inr (ot, h, u\<lparr>bpu_dir := d\<rparr>)" "dinv tid d"
    "dp_squash D d tid h = Inr (bpu_dir u)" by (rule direction_ok [OF assms(1)])
  obtain j where j: "(case bpu_iPred u of None \<Rightarrow> Inr None | Some i \<Rightarrow> ip_genIndirectInfo I i tid) = Inr j"
    "rel_option (\<lambda>i0 i. iinv tid i0 \<and> iinv tid i \<and> ind_undone I tid s i0 j i) (bpu_iPred u) (bpu_iPred u)"
  proof (cases "bpu_iPred u")
    case (Some i)
    then show ?thesis using gen_law [of tid i s] ii that by auto
  qed (use that in simp)
  let ?e = "ph_make seqNum (instAddr pc) ot h j tid inst"
  have core: "bpu_core D I dinv iinv s tid u (u\<lparr>bpu_dir := d\<rparr>) ?e"
    using d j(2) assms(2) by (simp add: bpu_core_def ph_make_def)
  obtain t u1 e1 pc1 where tg: "bpu_target D I adv ret (u\<lparr>bpu_dir := d\<rparr>) inst pc seqNum tid ot ?e = Inr (t, u1, e1, pc1)"
      "bpu_core D I dinv iinv s tid u u1 e1" "bpu_done tid (calls inst) u u1 e1"
    by (rule target_ok [OF wf core]) (simp_all add: ph_make_def)
  obtain i where i: "(case bpu_iPred u1 of None \<Rightarrow> Inr u1
      | Some i \<Rightarrow> rbind (ip_updateDirectionInfo I i tid ot) (\<lambda>i. Inr (u1\<lparr>bpu_iPred := Some i\<rparr>))) = Inr (u1\<lparr>bpu_iPred := i\<rparr>)"
    "bpu_core D I dinv iinv s tid u (u1\<lparr>bpu_iPred := i\<rparr>) e1"
  proof (cases "bpu_iPred u1")
    case None
    then show ?thesis by (intro that [of None]) (use tg(2) in \<open>simp_all add: bpu_core_def\<close>)
  next
    case (Some k)
    then obtain k0 where k0: "bpu_iPred u = Some k0" "iinv tid k0" "iinv tid k" "ind_undone I tid s k0 (ph_indirectHistory e1) k"
      using tg(2) by (auto simp: bpu_core_def option_rel_Some2)
    from direction_law [OF k0(2-4)] obtain k1 where "ip_updateDirectionInfo I k tid ot = Inr k1" "iinv tid k1"
      "ind_undone I tid s k0 (ph_indirectHistory e1) k1" by blast
    then show ?thesis using that [of "Some k1"] tg(2) Some k0 by (simp add: bpu_core_def)
  qed
  let ?f = "e1\<lparr>ph_target := instAddr pc1\<rparr>"
  let ?u = "u1\<lparr>bpu_iPred := i, bpu_predHist := (bpu_predHist u)[nat tid := ?f # bpu_predHist u ! nat tid]\<rparr>"
  have ph: "bpu_predHist u1 = bpu_predHist u" using tg(2) by (simp add: bpu_core_def)
  have t: "0 \<le> tid" "nat tid < length (bpu_predHist u)" using wf by (simp_all add: bpu_wf_def)
  have 1: "bpu_predict D I adv ret draw u inst seqNum pc tid = Inr (t, pc_update pc pc1, ?u)"
    using d j tg i t ph by (simp add: bpu_predict_def)
  have dn: "bpu_done tid (calls inst) u ?u ?f"
    using tg(3) by simp
  have core1: "bpu_core D I dinv iinv s tid u (?u\<lparr>bpu_predHist := bpu_predHist u\<rparr>) ?f"
    using bpu_core_entry [OF i(2), of ?f] ph by (simp add: bpu_core_def)
  have "bpu_inv dinv iinv tid ?u"
    using wf core1 dn by (auto simp: bpu_inv_def bpu_wf_def bpu_core_def bpu_done_def ras_undoable_def
        option_rel_Some1 option_rel_Some2 pred_option_def elim: option.rel_cases)
  then show ?thesis
    using that [OF 1 _ _ core1 dn] bpu_target_entry [OF tg(1)] by (simp add: same_branch_def ph_make_def)
qed


lemma undo_step:
  assumes "bpu_wf tid u" "bpu_core D I dinv iinv s tid u (u1\<lparr>bpu_predHist := p\<rparr>) e" "bpu_done tid n u u1 e"
    and "bpu_undone I s tid m u1 w"
  obtains w2 where "bpu_undo D I tid w e = Inr w2" "bpu_undone I s tid (m + n) u w2"
proof -
  have t: "0 \<le> tid" "nat tid < length (bpu_RAS u)" using assms(1) by (simp_all add: bpu_wf_def)
  obtain r where r: "bpu_RAS u1 = (bpu_RAS u)[nat tid := r]" "ras_undoable n (bpu_RAS u ! nat tid) r e"
    using assms(3) by (auto simp: bpu_done_def)
  obtain r2 where r2: "bpu_RAS w = (bpu_RAS u)[nat tid := r2]" "ras_agree m r r2"
    using assms(4) r(1) t by (auto simp: bpu_undone_def)
  then obtain r3 where r3: "ras_undo_entry e r2 = Inr r3" "ras_agree (m + n) (bpu_RAS u ! nat tid) r3"
    using r(2) by (auto simp: ras_undoable_def)
  have dir: "dp_squash D (bpu_dir w) tid (ph_bpHistory e) = Inr (bpu_dir u)"
    using assms(2,4) by (simp add: bpu_core_def bpu_undone_def)
  obtain i where i: "(case bpu_iPred w of None \<Rightarrow> Inr None
      | Some i \<Rightarrow> rbind (ip_deleteIndirectInfo I i tid (ph_indirectHistory e)) (\<lambda>i. Inr (Some i))) = Inr i"
      "rel_option (\<lambda>i j. ip_squash I i s tid = Inr j) (bpu_iPred u) i"
  proof (cases "bpu_iPred u")
    case None
    then have "bpu_iPred w = None" using assms(2,4) by (simp add: bpu_core_def bpu_undone_def)
    then show ?thesis using that [of None] None by simp
  next
    case (Some i0)
    then obtain i1 where i1: "bpu_iPred u1 = Some i1" "iinv tid i0" "ind_undone I tid s i0 (ph_indirectHistory e) i1"
      using assms(2) by (auto simp: bpu_core_def option_rel_Some1)
    then obtain j where j: "bpu_iPred w = Some j" "ip_squash I i1 s tid = Inr j"
      using assms(4) by (auto simp: bpu_undone_def option_rel_Some1)
    obtain k where "ip_squash I i0 s tid = Inr k" using squash_total [OF i1(2)] by blast
    then show ?thesis using that [of "Some k"] Some j i1(3) by (simp add: ind_undone_def)
  qed
  let ?w = "w\<lparr>bpu_RAS := (bpu_RAS w)[nat tid := r3], bpu_dir := bpu_dir u, bpu_iPred := i\<rparr>"
  have "bpu_undo D I tid w e = Inr ?w"
    using bpu_ras_undo_eq [of tid w e r3] t r2(1) r3(1) dir i(1) by simp
  moreover have "bpu_undone I s tid (m + n) u ?w"
    using assms(2,4) r2(1) r3(2) i(2) by (auto simp: bpu_undone_def bpu_core_def)
  ultimately show ?thesis by (rule that)
qed

lemma run_undo:
  assumes "bpu_inv dinv iinv tid u" "\<forall>(_, _, sn, _) \<in> set xs. s < sn"
  shows "\<exists>u1 es. bpu_run D I adv ret tid u xs = Inr u1 \<and> bpu_inv dinv iinv tid u1 \<and>
    bpu_predHist u1 = (bpu_predHist u)[nat tid := es @ bpu_predHist u ! nat tid] \<and> (\<forall>e \<in> set es. s < ph_seqNum e) \<and>
    (\<forall>m w. bpu_undone I s tid m u1 w \<longrightarrow>
      (\<exists>w2. rfold (bpu_undo D I tid) w es = Inr w2 \<and> bpu_undone I s tid (m + run_calls xs) u w2))"
  using assms
proof (induction xs arbitrary: u)
  case Nil
  then show ?case by (intro exI [of _ u] exI [of _ "[]"]) (simp add: run_calls_def)
next
  case (Cons x xs)
  obtain draw inst sn pc where x: "x = (draw, inst, sn, pc)" by (metis prod_cases4)
  have wf: "bpu_wf tid u" using Cons.prems(1) by (simp add: bpu_inv_def)
  have sn: "s < sn" using Cons.prems(2) x by simp
  obtain t pc1 u1 e where p: "bpu_predict D I adv ret draw u inst sn pc tid = Inr (t, pc1, u1)"
    "bpu_inv dinv iinv tid u1" "bpu_predHist u1 = (bpu_predHist u)[nat tid := e # bpu_predHist u ! nat tid]"
    "bpu_core D I dinv iinv s tid u (u1\<lparr>bpu_predHist := bpu_predHist u\<rparr>) e" "bpu_done tid (calls inst) u u1 e"
    by (rule predict_step [OF Cons.prems(1) sn])
  obtain u2 es where r: "bpu_run D I adv ret tid u1 xs = Inr u2" "bpu_inv dinv iinv tid u2"
    "bpu_predHist u2 = (bpu_predHist u1)[nat tid := es @ bpu_predHist u1 ! nat tid]" "\<forall>e \<in> set es. s < ph_seqNum e"
    "\<forall>m w. bpu_undone I s tid m u2 w \<longrightarrow>
      (\<exists>w2. rfold (bpu_undo D I tid) w es = Inr w2 \<and> bpu_undone I s tid (m + run_calls xs) u1 w2)"
    using Cons.IH [OF p(2)] Cons.prems(2) by auto
  have "\<exists>w2. rfold (bpu_undo D I tid) w (es @ [e]) = Inr w2 \<and> bpu_undone I s tid (m + run_calls (x # xs)) u w2"
    if und: "bpu_undone I s tid m u2 w" for m w
  proof -
    obtain w1 where w1: "rfold (bpu_undo D I tid) w es = Inr w1" "bpu_undone I s tid (m + run_calls xs) u1 w1"
      using r(5) und by blast
    obtain w2 where "bpu_undo D I tid w1 e = Inr w2" "bpu_undone I s tid (m + run_calls xs + calls inst) u w2"
      by (rule undo_step [OF wf p(4,5) w1(2)])
    moreover have "run_calls (x # xs) = run_calls xs + calls inst" by (simp add: run_calls_def x)
    ultimately show ?thesis using w1(1) by (simp add: rfold_append add.assoc)
  qed
  moreover have "bpu_predHist u2 = (bpu_predHist u)[nat tid := (es @ [e]) @ bpu_predHist u ! nat tid]"
    using r(3) p(3) wf by (simp add: bpu_wf_def)
  moreover have "\<forall>f \<in> set (es @ [e]). s < ph_seqNum f" using r(4) p(4) by (auto simp: bpu_core_def)
  ultimately show ?case using p(1) r(1,2) x by (intro exI [of _ u2] exI [of _ "es @ [e]"]) simp
qed

lemma squash_undoes:
  assumes "bpu_inv dinv iinv tid u" "\<forall>(_, _, sn, _) \<in> set xs. s < sn"
    and "\<forall>e \<in> set (bpu_predHist u ! nat tid). ph_seqNum e \<le> s"
  shows "\<exists>u1 w. bpu_run D I adv ret tid u xs = Inr u1 \<and> bpu_squash D I u1 s tid = Inr w \<and>
    bpu_predHist w = bpu_predHist u \<and> bpu_undone I s tid (run_calls xs) u w"
proof -
  obtain u1 es where r: "bpu_run D I adv ret tid u xs = Inr u1" "bpu_inv dinv iinv tid u1"
    "bpu_predHist u1 = (bpu_predHist u)[nat tid := es @ bpu_predHist u ! nat tid]" "\<forall>e \<in> set es. s < ph_seqNum e"
    "\<forall>m w. bpu_undone I s tid m u1 w \<longrightarrow>
      (\<exists>w2. rfold (bpu_undo D I tid) w es = Inr w2 \<and> bpu_undone I s tid (m + run_calls xs) u w2)"
    using run_undo [OF assms(1,2)] by blast
  have t: "0 \<le> tid" "nat tid < length (bpu_predHist u)" using assms(1) by (simp_all add: bpu_inv_def bpu_wf_def)
  obtain i where i: "(case bpu_iPred u1 of None \<Rightarrow> Inr None
      | Some i \<Rightarrow> rbind (ip_squash I i s tid) (\<lambda>i. Inr (Some i))) = Inr i"
      "rel_option (\<lambda>i j. ip_squash I i s tid = Inr j) (bpu_iPred u1) i"
  proof (cases "bpu_iPred u1")
    case (Some i)
    then show ?thesis using squash_total [of tid i s] r(2) that by (auto simp: bpu_inv_def)
  qed (use that in simp)
  have "bpu_undone I s tid 0 u1 (u1\<lparr>bpu_iPred := i\<rparr>)"
    using i(2) r(2) ras_agree_refl unfolding bpu_undone_def
    by (auto simp: bpu_inv_def bpu_wf_def intro!: exI [of _ "bpu_RAS u1 ! nat tid"])
  with r(5) obtain w where w: "rfold (bpu_undo D I tid) (u1\<lparr>bpu_iPred := i\<rparr>) es = Inr w"
    "bpu_undone I s tid (run_calls xs) u w" by force
  have "bpu_squash_loop D I s tid (u1\<lparr>bpu_iPred := i\<rparr>) (es @ bpu_predHist u ! nat tid) = Inr (w, bpu_predHist u ! nat tid)"
    by (simp add: bpu_squash_loop_append [OF r(4) assms(3)] w(1))
  then have "bpu_squash D I u1 s tid = Inr (w\<lparr>bpu_predHist := bpu_predHist u\<rparr>)"
    using t r(3) i(1) bpu_undos_predHist [OF w(1)] by (simp add: bpu_squash_def)
  then show ?thesis using r(1) w(2) by (simp add: bpu_undone_def)
qed

end

context branch_unit
begin

text \<open>The repair of a taken branch whose target comes from the branch target buffer.\<close>

lemma mispredict_repaired:
  assumes "bpu_inv dinv iinv tid u" "\<forall>e \<in> set (bpu_predHist u ! nat tid). ph_seqNum e \<le> sn" "0 < sn"
    and "bpu_iPred u = None \<or> si_is IsDirectControl inst" "\<forall>(_, _, sn', _) \<in> set xs. sn < sn'"
  shows "\<exists>u1 w. bpu_run D I adv ret tid u ((draw, inst, sn, pc) # xs) = Inr u1 \<and>
    bpu_squash_mispredict D I u1 sn corr True tid = Inr w \<and>
    btb_lookup (bpu_BTB w) (instAddr pc) tid = Inr (Some corr) \<and>
    (\<exists>e. bpu_predHist w ! nat tid = e # bpu_predHist u ! nat tid \<and> ph_seqNum e = sn \<and> ph_predTaken e \<and>
       ph_target e = instAddr corr)"
proof -
  obtain t pc1 u1 e where p: "bpu_predict D I adv ret draw u inst sn pc tid = Inr (t, pc1, u1)"
    "bpu_inv dinv iinv tid u1" "bpu_predHist u1 = (bpu_predHist u)[nat tid := e # bpu_predHist u ! nat tid]"
    "bpu_core D I dinv iinv 0 tid u (u1\<lparr>bpu_predHist := bpu_predHist u\<rparr>) e" "bpu_done tid (calls inst) u u1 e"
    "ph_pc e = instAddr pc" "ph_seqNum e = sn" "bpu_iPred u = None \<or> si_is IsDirectControl inst \<longrightarrow> \<not> ph_wasIndirect e"
    by (rule predict_step [OF assms(1,3)])
  have t: "0 \<le> tid" "nat tid < length (bpu_predHist u)" "nat tid < length (bpu_RAS u)"
    using assms(1) by (simp_all add: bpu_inv_def bpu_wf_def)
  obtain u2 v where v: "bpu_run D I adv ret tid u1 xs = Inr u2" "bpu_squash D I u2 sn tid = Inr v"
      "bpu_predHist v = bpu_predHist u1" "bpu_undone I sn tid (run_calls xs) u1 v"
  proof -
    have "\<forall>f \<in> set (bpu_predHist u1 ! nat tid). ph_seqNum f \<le> sn" using p(3,7) assms(2) t by simp
    from squash_undoes [OF p(2) assms(5) this] show ?thesis using that by blast
  qed
  have btb: "bpu_BTB v = bpu_BTB u" and dir: "bpu_dir v = bpu_dir u1" and lr: "length (bpu_RAS v) = length (bpu_RAS u)"
    using v(4) p(4,5) by (auto simp: bpu_undone_def bpu_core_def bpu_done_def)
  have "dinv tid (bpu_dir v)" "dp_squash D (bpu_dir v) tid (ph_bpHistory e) = Inr (bpu_dir u)"
    using p(4) dir by (simp_all add: bpu_core_def)
  from repair_law [OF this]
  obtain d where d: "dp_update D (bpu_dir v) tid (ph_pc e) True (ph_bpHistory e) True (ph_inst e) (instAddr corr) = Inr d"
    by blast
  obtain i where i: "(case bpu_iPred v of None \<Rightarrow> Inr None
      | Some i \<Rightarrow> rbind (ip_changeDirectionPrediction I i tid (ph_indirectHistory e) True) (\<lambda>i. Inr (Some i))) = Inr i"
  proof (cases "bpu_iPred v")
    case (Some j)
    then obtain i1 where i1: "bpu_iPred u1 = Some i1" "ip_squash I i1 sn tid = Inr j"
      using v(4) by (auto simp: bpu_undone_def option_rel_Some2)
    then obtain i0 where i0: "iinv tid i0" "iinv tid i1" "ind_undone I tid 0 i0 (ph_indirectHistory e) i1"
      using p(4) by (auto simp: bpu_core_def option_rel_Some2)
    obtain q where "ip_squash I i0 0 tid = Inr q" using squash_total [OF i0(1)] by blast
    then obtain k l where k: "ip_deleteIndirectInfo I k tid (ph_indirectHistory e) = Inr l"
      using i0(3) by (auto simp: ind_undone_def rbind_Inr_iff)
    have "iinv tid j" using squash_total [OF i0(2), of sn] i1(2) by auto
    then show ?thesis using change_law [OF _ k, of j True] that Some by auto
  qed (use that in simp)
  let ?e = "e\<lparr>ph_predTaken := True, ph_target := instAddr corr\<rparr>"
  let ?v = "v\<lparr>bpu_dir := d, bpu_iPred := i\<rparr>"
  have "btb_wf (bpu_BTB u)" "btb_tid_ok (bpu_BTB u) tid" using assms(1) by (simp_all add: bpu_inv_def bpu_wf_def)
  then obtain b where b: "btb_update (bpu_BTB v) (ph_pc e) corr tid = Inr b" "btb_lookup b (instAddr pc) tid = Inr (Some corr)"
    using btb_update_spec [of "bpu_BTB u" tid tid "instAddr pc" corr "instAddr pc"] btb p(6) by auto
  have "\<exists>rs f. bpu_repair_taken I ?v corr tid ?e = Inr (?v\<lparr>bpu_RAS := rs, bpu_BTB := b\<rparr>, ?e\<lparr>ph_usedRAS := f\<rparr>)"
  proof (cases "ph_wasReturn e \<and> \<not> ph_usedRAS e")
    case True
    then show ?thesis using p(8) assms(4) b(1) t lr by (auto simp: bpu_repair_taken_def bpu_ras_pop_eq)
  next
    case False
    then have "bpu_repair_taken I ?v corr tid ?e = Inr (?v\<lparr>bpu_BTB := b\<rparr>, ?e)"
      using p(8) assms(4) b(1) by (auto simp: bpu_repair_taken_def)
    then show ?thesis by (intro exI [of _ "bpu_RAS v"] exI [of _ "ph_usedRAS e"]) simp
  qed
  then obtain rs f where rt: "bpu_repair_taken I ?v corr tid ?e = Inr (?v\<lparr>bpu_RAS := rs, bpu_BTB := b\<rparr>, ?e\<lparr>ph_usedRAS := f\<rparr>)"
    by blast
  have "bpu_squash_mispredict D I u2 sn corr True tid = Inr (?v\<lparr>bpu_RAS := rs, bpu_BTB := b,
      bpu_predHist := (bpu_predHist u)[nat tid := ?e\<lparr>ph_usedRAS := f\<rparr> # bpu_predHist u ! nat tid]\<rparr>)"
    using v(2,3) p(3,7) t d i rt by (simp add: bpu_squash_mispredict_def Let_def cong: option.case_cong)
  then show ?thesis using p(1,7) v(1) b(2) t by auto
qed

end

interpretation lbu: branch_unit lbp_ops "\<lambda>tid. lbp_wf" "sip_ops draw" sip_inv
  by (intro branch_unit.intro lbpd.direction_predictor_axioms sipi.indirect_predictor_axioms)

interpretation bmu: branch_unit bm_ops bm_inv "sip_ops draw" sip_inv
  by (intro branch_unit.intro bmd.direction_predictor_axioms sipi.indirect_predictor_axioms)


section \<open>New units\<close>

lemma btb_new_tid_ok:
  assumes "btb_new junk e tb sh nt = Inr b" "nt \<le> e" "0 \<le> tid" "nat tid < unat nt"
  shows "btb_tid_ok b tid"
proof -
  let ?l = "flog2 (unat nt)" and ?m = "flog2 (unat e)"
  have n: "0 < unat nt" "0 < unat e" using assms(2,4) by (auto simp: word_le_nat_alt)
  have "2 ^ ?l \<le> unat e" using flog2_bounds [OF n(1)] assms(2) by (simp add: word_le_nat_alt)
  then have le: "?l \<le> ?m" by (rule flog2_ge)
  have "nat tid < 2 ^ Suc ?l" using flog2_bounds [OF n(1)] assms(4) by simp
  then have "nat tid * 2 ^ (?m - ?l) < 2 ^ Suc ?l * 2 ^ (?m - ?l)" by simp
  also have "\<dots> = 2 ^ Suc ?m" using le by (simp add: power_add [symmetric])
  also have "\<dots> \<le> (2::nat) ^ 32"
    using flog2_less [of "unat e" 32] n(2) unat32_less [of e] by (intro power_increasing) auto
  finally have "int (nat tid * 2 ^ (?m - ?l)) < int (2 ^ 32)" by (rule of_nat_less_iff [THEN iffD2])
  then have "tid * 2 ^ (?m - ?l) < 2 ^ 32" using assms(3) by simp
  moreover have "btb_tagShiftAmt b - btb_instShiftAmt b - btb_log2NumThreads b = ?m - ?l"
    using assms(1) by (auto simp: btb_new_def floorLog2_u32 split: if_splits)
  ultimately show ?thesis using assms(3) unfolding btb_tid_ok_def by (simp only: simp_thms)
qed

lemma bpu_new_inv:
  assumes "bpu_new junk nt e tb sh rs poison en ip d = Inr u" "sh + flog2 (unat e) < 64" "nt \<le> e" "0 < rs"
    and "0 \<le> tid" "nat tid < unat nt" "dinv tid d" "pred_option (iinv tid) ip"
  shows "bpu_inv dinv iinv tid u" and "bpu_predHist u ! nat tid = []" and "bpu_dir u = d" and "bpu_iPred u = ip"
proof -
  obtain b where b: "btb_new junk e tb sh nt = Inr b" and u: "u = \<lparr>bpu_predHist = replicate (unat nt) [], bpu_BTB = b,
      bpu_RAS = replicate (unat nt) (ras_init rs), bpu_predictPoison = poison, bpu_predictorEnable = en,
      bpu_iPred = ip, bpu_dir = d\<rparr>"
    using assms(1) by (auto simp: bpu_new_def rbind_Inr_iff)
  have "btb_targets b" using b by (auto simp: btb_new_def btb_targets_def floorLog2_u32 list_all_iff split: if_splits)
  then show "bpu_inv dinv iinv tid u"
    using assms btb_new_wf [OF b assms(2,3)] btb_new_tid_ok [OF b assms(3,5,6)] ras_init_wf [OF assms(4)]
    by (simp add: u bpu_inv_def bpu_wf_def)
  show "bpu_predHist u ! nat tid = []" "bpu_dir u = d" "bpu_iPred u = ip" using assms(6) by (simp_all add: u)
qed

section \<open>Properties\<close>

text \<open>C1: Speculation is undone. From any well-formed unit with the bi-mode and the indirect
  predictor (or none), every sequence of predictions on a thread succeeds, and squashing all of
  them succeeds and gives back the prediction history, the direction predictor with its
  global history, the branch target buffer, the indirect predictor as squashed, and the
  thread's return address stack but for its oldest entries, at most one for each call predicted.\<close>

theorem bpu_squash_undoes:
  assumes "bpu_inv bm_inv sip_inv tid u" "\<forall>(_, _, sn, _) \<in> set xs. s < sn"
    and "\<forall>e \<in> set (bpu_predHist u ! nat tid). ph_seqNum e \<le> s"
  shows "\<exists>u1 w. bpu_run bm_ops (sip_ops draw) adv ret tid u xs = Inr u1 \<and>
    bpu_squash bm_ops (sip_ops draw) u1 s tid = Inr w \<and> bpu_predHist w = bpu_predHist u \<and>
    bpu_undone (sip_ops draw) s tid (run_calls xs) u w"
  by (rule bmu.squash_undoes [OF assms])


text \<open>A new unit with one thread, for the witnesses.\<close>

lemma bpu_example:
  "\<exists>b i u. bm_new 1 2 2 4 2 2 = Inr b \<and> sip_new True True 4 2 16 3 2 13 1 = Inr i \<and>
     bpu_new 0 1 4 8 2 4 100 True (Some i) b = Inr (u :: (bimode, bm_history, simple_indirect, u32) bpu) \<and> bpu_inv bm_inv sip_inv 0 u \<and> bpu_predHist u ! 0 = []"
proof -
  obtain b where b: "bm_new 1 2 2 4 2 2 = Inr b"
    by (simp add: bm_new_def ceilLog2_def floorLog2_def floorLog2_step_def sat_new_def isPowerOf2_def
        bm_threshold_def Let_def word_le_nat_alt)
  obtain i where i: "sip_new True True 4 2 16 3 2 13 1 = Inr i" by (simp add: sip_new_def isPowerOf2_def)
  have inv: "bm_inv 0 b" "sip_inv 0 i" using bm_new_inv [OF b, of 0] sip_new_inv [OF i, of 0] by simp_all
  obtain u where u: "bpu_new 0 1 4 8 2 4 100 True (Some i) b = Inr (u :: (bimode, bm_history, simple_indirect, u32) bpu)"
    by (simp add: bpu_new_def btb_new_def floorLog2_def floorLog2_step_def isPowerOf2_def)
  have "flog2 (unat (4::u32)) = 2" using flog2_power2 [of 2] by simp
  then show ?thesis using b i u inv bpu_new_inv [OF u, of 0 bm_inv sip_inv] by auto
qed

theorem bpu_squash_undoes_witness:
  "\<exists>u u1 w. bpu_inv bm_inv sip_inv 0 u \<and>
     bpu_run bm_ops (sip_ops 0) (\<lambda>_. upc_uEnd 4) (\<lambda>_ _ t. t) 0 u
       [(3, StaticInst [IsControl, IsCondControl, IsDirectControl] 0 [] [] [], 5, pc_new),
        (3, StaticInst [IsControl, IsUncondControl, IsCall, IsIndirectControl] 0 [] [] [], 6, pc_new)] = Inr u1 \<and>
     bpu_squash bm_ops (sip_ops 0) u1 4 0 = Inr w \<and> bpu_undone (sip_ops 0) 4 0 1 u w"
proof -
  obtain u :: "(bimode, bm_history, simple_indirect, u32) bpu"
    where "bpu_inv bm_inv sip_inv 0 u" "bpu_predHist u ! 0 = []" using bpu_example by blast
  then show ?thesis
    using bpu_squash_undoes [of 0 u "[(3, StaticInst [IsControl, IsCondControl, IsDirectControl] 0 [] [] [], 5, pc_new),
        (3, StaticInst [IsControl, IsUncondControl, IsCall, IsIndirectControl] 0 [] [] [], 6, pc_new)]" 4 0
        "\<lambda>_. upc_uEnd 4" "\<lambda>_ _ t. t"]
    by (auto simp: run_calls_def)
qed


text \<open>A run with prediction disabled on a unit with the local predictor: a call and a branch, then a
  conditional return that is predicted not taken, repaired as taken, and squashed. It yields
  the top of the return address stack before and after the return's life.\<close>

definition late_return_run :: "(pcstate option \<times> pcstate option) result" where
  "late_return_run =
     (let I = sip_ops 0; adv = (\<lambda>_. upc_uEnd 4); ret = (\<lambda>_ _ t. t);
          call = StaticInst [IsControl, IsUncondControl, IsDirectControl, IsCall] 0 [] [] [];
          branch = StaticInst [IsControl, IsCondControl, IsDirectControl] 0 [] [] [];
          return = StaticInst [IsControl, IsCondControl, IsReturn] 0 [] [] [] in
      rbind (lbp_new 8 2 2) (\<lambda>l.
      rbind (bpu_new 0 1 4 8 2 4 100 False None l) (\<lambda>u.
      rbind (bpu_run lbp_ops I adv ret 0 u [(0, call, 1, pc_new), (0, branch, 2, pc_new)]) (\<lambda>u.
      rbind (ras_top (bpu_RAS u ! 0)) (\<lambda>before.
      rbind (bpu_run lbp_ops I adv ret 0 u [(0, return, 3, pc_new)]) (\<lambda>u.
      rbind (bpu_squash_mispredict lbp_ops I u 3 pc_new True 0) (\<lambda>u.
      rbind (bpu_squash lbp_ops I u 2 0) (\<lambda>u.
      rbind (ras_top (bpu_RAS u ! 0)) (\<lambda>after. Inr (before, after))))))))))"


end
