(* ===== verification/Activity.thy ===== *)
theory Activity
  imports Buffers
begin

text \<open>
  \<^verbatim>\<open>cpu/activity.hh\<close> and \<^verbatim>\<open>activity.cc\<close>: the recorder that decides whether the CPU
  may stop ticking. \<open>act_count_ok\<close> is the invariant that \<^verbatim>\<open>validate\<close> checks at run time:
  the count is the number of active cycles in the time buffer plus the number of active stages.
\<close>

record activity =
  activityBuffer :: "bool timebuf"
  longestLatency :: int
  activityCount :: int
  numStages :: int
  stageActive :: "bool list"

definition act_new :: "int \<Rightarrow> int \<Rightarrow> int \<Rightarrow> activity result" where
  "act_new num_stages longest_latency count =
     rbind (tb_new False longest_latency 0) (\<lambda>b.
     Inr \<lparr>activityBuffer = b, longestLatency = longest_latency, activityCount = count,
          numStages = num_stages, stageActive = replicate (nat num_stages) False\<rparr>)"

definition act_activity :: "activity \<Rightarrow> activity result" where
  "act_activity a =
     rbind (tb_access (activityBuffer a) 0) (\<lambda>now.
     if now then Inr a
     else rbind (tb_assign (activityBuffer a) 0 True) (\<lambda>b.
       Inr (a\<lparr>activityBuffer := b, activityCount := activityCount a + 1\<rparr>)))"

definition act_advance :: "activity \<Rightarrow> activity result" where
  "act_advance a =
     rbind (tb_access (activityBuffer a) (- longestLatency a)) (\<lambda>oldest.
     rbind (if oldest then
              let a = a\<lparr>activityCount := activityCount a - 1\<rparr> in
              rbind (rassert (activityCount a \<ge> 0)) (\<lambda>_. Inr a)
            else Inr a) (\<lambda>a.
     rbind (tb_advance False (activityBuffer a)) (\<lambda>b. Inr (a\<lparr>activityBuffer := b\<rparr>))))"

definition act_activateStage :: "activity \<Rightarrow> int \<Rightarrow> activity result" where
  "act_activateStage a idx =
     rbind (arr_at (stageActive a) idx) (\<lambda>on.
     if \<not> on then
       rbind (arr_set (stageActive a) idx True) (\<lambda>st.
       Inr (a\<lparr>activityCount := activityCount a + 1, stageActive := st\<rparr>))
     else Inr a)"

definition act_deactivateStage :: "activity \<Rightarrow> int \<Rightarrow> activity result" where
  "act_deactivateStage a idx =
     rbind (arr_at (stageActive a) idx) (\<lambda>on.
     rbind (if on then
              rbind (arr_set (stageActive a) idx False) (\<lambda>st.
              Inr (a\<lparr>activityCount := activityCount a - 1, stageActive := st\<rparr>))
            else Inr a) (\<lambda>a.
     rbind (rassert (activityCount a \<ge> 0)) (\<lambda>_. Inr a)))"

definition act_active :: "activity \<Rightarrow> bool" where
  "act_active a \<longleftrightarrow> activityCount a \<noteq> 0"

definition act_reset :: "activity \<Rightarrow> activity result" where
  "act_reset a =
     (let a = a\<lparr>activityCount := 0, stageActive := replicate (nat (numStages a)) False\<rparr> in
      rfold (\<lambda>a _. rbind (tb_advance False (activityBuffer a)) (\<lambda>b. Inr (a\<lparr>activityBuffer := b\<rparr>)))
        a [0..<nat (longestLatency a + 1)])"

definition act_validate :: "activity \<Rightarrow> unit result" where
  "act_validate a =
     rbind (rfold (\<lambda>n i. rbind (tb_access (activityBuffer a) (- i)) (\<lambda>x. Inr (if x then n + 1 else n)))
              0 [0..longestLatency a]) (\<lambda>count.
     rbind (rfold (\<lambda>n i. rbind (arr_at (stageActive a) i) (\<lambda>x. Inr (if x then n + 1 else n)))
              count [0..numStages a - 1]) (\<lambda>count.
     rassert (count = activityCount a)))"

section \<open>The count is what it says\<close>

abbreviation trues :: "bool list \<Rightarrow> nat" where
  "trues xs \<equiv> slots_used Not xs"

definition act_wf :: "activity \<Rightarrow> bool" where
  "act_wf a \<longleftrightarrow> tb_line (activityBuffer a) \<and> tb_past (activityBuffer a) = longestLatency a \<and>
     0 \<le> numStages a \<and> length (stageActive a) = nat (numStages a)"

definition act_count_ok :: "activity \<Rightarrow> bool" where
  "act_count_ok a \<longleftrightarrow> act_wf a \<and>
     activityCount a = int (trues (tb_window (activityBuffer a))) + int (trues (stageActive a))"

lemma trues_update_nat: "i < length xs \<Longrightarrow>
    trues (xs[i := b]) + (if xs ! i then 1 else 0) = trues xs + (if b then 1 else 0)"
  by (induction xs arbitrary: i) (force simp: nth_Cons split: nat.split)+

lemma trues_update: "i < length xs \<Longrightarrow> int (trues (xs[i := b])) =
    int (trues xs) + (if b then 1 else 0) - (if xs ! i then 1 else 0)"
  using trues_update_nat [of i xs b] by (simp split: if_splits)

lemma act_activity_ok:
  assumes "act_count_ok a"
  shows "\<exists>a'. act_activity a = Inr a' \<and> act_count_ok a' \<and> numStages a' = numStages a"
proof -
  let ?b = "activityBuffer a" and ?w = "tb_window (activityBuffer a)"
  have line: "tb_line ?b" using assms by (simp add: act_count_ok_def act_wf_def)
  have ne: "?w \<noteq> []" using tb_window_length [of ?b] by auto
  have put: "tb_assign ?b 0 True = Inr (tb_put ?b 0 True)" "tb_line (tb_put ?b 0 True)"
    "tb_window (tb_put ?b 0 True) = butlast ?w @ [True]" using tb_window_put [OF line] by blast+
  show ?thesis
    using assms put tb_window_ends(1) [OF line] slots_used_butlast [OF ne, of Not]
    by (cases "last ?w") (simp_all add: act_activity_def act_count_ok_def act_wf_def)
qed

lemma act_advance_ok:
  assumes "act_count_ok a"
  shows "\<exists>a'. act_advance a = Inr a' \<and> act_count_ok a' \<and> numStages a' = numStages a \<and>
    stageActive a' = stageActive a \<and> longestLatency a' = longestLatency a \<and>
    tb_window (activityBuffer a') = tl (tb_window (activityBuffer a)) @ [False]"
proof -
  let ?b = "activityBuffer a" and ?w = "tb_window (activityBuffer a)"
  have line: "tb_line ?b" using assms by (simp add: act_count_ok_def act_wf_def)
  have ne: "?w \<noteq> []" using tb_window_length [of ?b] by auto
  obtain b' where b': "tb_advance False ?b = Inr b'" "tb_line b'" "tb_past b' = tb_past ?b"
    "tb_window b' = tl ?w @ [False]" using tb_window_advance [OF line] by blast
  show ?thesis
    using assms b' tb_window_ends(2) [OF line] slots_used_tl [OF ne, of Not]
    by (cases "hd ?w") (simp_all add: act_advance_def act_count_ok_def act_wf_def Let_def)
qed

lemma act_stage_ok:
  assumes "act_count_ok a" "0 \<le> i" "i < numStages a"
  shows "\<exists>a'. act_activateStage a i = Inr a' \<and> act_count_ok a' \<and> numStages a' = numStages a"
    and "\<exists>a'. act_deactivateStage a i = Inr a' \<and> act_count_ok a' \<and> numStages a' = numStages a"
proof -
  have len: "nat i < length (stageActive a)" using assms by (simp add: act_count_ok_def act_wf_def)
  note upd = trues_update [OF len]
  show "\<exists>a'. act_activateStage a i = Inr a' \<and> act_count_ok a' \<and> numStages a' = numStages a"
    using assms len upd [of True]
    by (cases "stageActive a ! nat i") (simp_all add: act_activateStage_def act_count_ok_def act_wf_def)
  show "\<exists>a'. act_deactivateStage a i = Inr a' \<and> act_count_ok a' \<and> numStages a' = numStages a"
  proof (cases "stageActive a ! nat i")
    case True
    then have c: "int (trues ((stageActive a)[nat i := False])) = int (trues (stageActive a)) - 1"
      using upd [of False] by simp
    then have "0 \<le> activityCount a - 1" using assms(1) by (simp add: act_count_ok_def)
    with True assms len c show ?thesis by (simp add: act_deactivateStage_def act_count_ok_def act_wf_def)
  qed (use assms len in \<open>simp add: act_deactivateStage_def act_count_ok_def act_wf_def\<close>)
qed

lemma count_loop:
  "(\<And>i. i \<in> set is \<Longrightarrow> get i = Inr (f i)) \<Longrightarrow>
   rfold (\<lambda>n i. rbind (get i) (\<lambda>x. Inr (if x then n + 1 else n))) (n :: int) is =
   Inr (n + int (trues (map f is)))"
  by (induction "is" arbitrary: n) auto

lemma act_validate_ok:
  assumes "act_count_ok a"
  shows "act_validate a = Inr ()"
proof -
  let ?b = "activityBuffer a"
  have line: "tb_line ?b" and past: "tb_past ?b = longestLatency a" and st: "0 \<le> numStages a"
    "length (stageActive a) = nat (numStages a)" using assms by (auto simp: act_count_ok_def act_wf_def)
  then have wf: "tb_wf ?b" "0 \<le> longestLatency a" by (auto simp: tb_line_def tb_wf_def)
  have "tb_access ?b (- i) = Inr (tb_abs ?b (- i))" if "i \<in> set [0..longestLatency a]" for i
    using that wf past line by (simp add: tb_access_eq tb_in_def tb_line_def)
  note c1 = count_loop [of "[0..longestLatency a]" "\<lambda>i. tb_access ?b (- i)", OF this]
  have "map (\<lambda>i. tb_abs ?b (- i)) [0..longestLatency a] = rev (tb_window ?b)"
    using wf past
    by (intro nth_equalityI)
      (auto simp: tb_window_length tb_window_nth rev_nth of_nat_diff nat_add_distrib)
  then have w: "trues (map (\<lambda>i. tb_abs ?b (- i)) [0..longestLatency a]) = trues (tb_window ?b)"
    by (simp add: rev_filter [symmetric])
  have "arr_at (stageActive a) i = Inr (stageActive a ! nat i)" if "i \<in> set [0..numStages a - 1]" for i
    using that st by (simp add: nat_less_iff)
  note c2 = count_loop [of "[0..numStages a - 1]" "arr_at (stageActive a)", OF this]
  have "map (\<lambda>i. stageActive a ! nat i) [0..numStages a - 1] = stageActive a"
    using st by (intro nth_equalityI) auto
  with c1 c2 w assms show ?thesis by (simp add: act_validate_def act_count_ok_def)
qed

lemma act_new_ok:
  assumes "act_new n d 0 = Inr a" "0 \<le> n"
  shows "act_count_ok a \<and> numStages a = n"
proof -
  from assms(1) obtain b where b: "tb_new False d 0 = Inr b" and
    a: "a = \<lparr>activityBuffer = b, longestLatency = d, activityCount = 0, numStages = n,
             stageActive = replicate (nat n) False\<rparr>" by (auto simp: act_new_def rbind_Inr_iff)
  note new = tb_new_wf [OF b]
  then have "\<And>i. i \<le> nat d \<Longrightarrow> 0 \<le> d \<Longrightarrow> tb_window b ! i = False"
    by (subst tb_window_nth) (auto simp: tb_in_def)
  moreover have "0 \<le> d" using new by (simp add: tb_wf_def)
  ultimately have "\<forall>x \<in> set (tb_window b). \<not> x"
    using new by (auto simp: in_set_conv_nth tb_window_length)
  then show ?thesis using new assms(2) by (simp add: a act_count_ok_def act_wf_def tb_line_def)
qed

section \<open>Properties\<close>

datatype act_op = ActActivity | ActAdvance | ActOn int | ActOff int

definition act_step :: "activity \<Rightarrow> act_op \<Rightarrow> activity result" where
  "act_step a x = (case x of ActActivity \<Rightarrow> act_activity a | ActAdvance \<Rightarrow> act_advance a
                           | ActOn i \<Rightarrow> act_activateStage a i | ActOff i \<Rightarrow> act_deactivateStage a i)"

definition act_op_ok :: "int \<Rightarrow> act_op \<Rightarrow> bool" where
  "act_op_ok n x = (case x of ActOn i \<Rightarrow> 0 \<le> i \<and> i < n | ActOff i \<Rightarrow> 0 \<le> i \<and> i < n | _ \<Rightarrow> True)"

text \<open>
  C10: The activity count is exact. From a new recorder with count 0, every sequence of recorded
  activity, advances and stage (de)activations of existing stages runs without tripping an
  assertion, and \<^verbatim>\<open>validate\<close> accepts the state it reaches.
\<close>

theorem activity_count_exact:
  assumes "act_new n d 0 = Inr a0" "0 \<le> n" "\<forall>x \<in> set xs. act_op_ok n x"
  shows "\<exists>a. rfold act_step a0 xs = Inr a \<and> act_validate a = Inr ()"
proof -
  have "\<exists>a. rfold act_step a0 xs = Inr a \<and> act_count_ok a \<and> numStages a = n"
  proof (rule rfold_invariant [where P = "\<lambda>_ a. act_count_ok a \<and> numStages a = n"])
    show "act_count_ok a0 \<and> numStages a0 = n" by (rule act_new_ok [OF assms(1,2)])
    fix i a assume "i < length xs" and a: "act_count_ok a \<and> numStages a = n"
    then have "act_op_ok n (xs ! i)" using assms(3) by simp
    with a show "\<exists>a'. act_step a (xs ! i) = Inr a' \<and> act_count_ok a' \<and> numStages a' = n"
      using act_activity_ok [of a] act_advance_ok [of a] act_stage_ok [of a]
      by (cases "xs ! i") (auto simp: act_step_def act_op_ok_def)
  qed
  then show ?thesis using act_validate_ok by blast
qed

theorem activity_count_exact_witness:
  "\<exists>a0 a. act_new 2 3 0 = Inr a0 \<and>
     rfold act_step a0 [ActActivity, ActOn 1, ActAdvance, ActActivity, ActOff 1] = Inr a \<and>
     act_validate a = Inr ()"
proof -
  obtain a0 where a0: "act_new 2 3 0 = Inr a0" by (simp add: act_new_def tb_new_def)
  from activity_count_exact [OF a0, of "[ActActivity, ActOn 1, ActAdvance, ActActivity, ActOff 1]"] a0
  show ?thesis by (simp add: act_op_ok_def)
qed

lemma act_advances_window:
  assumes "act_count_ok a"
  shows "\<exists>a'. rfold (\<lambda>a _. act_advance a) a [0..<k] = Inr a' \<and> act_count_ok a' \<and>
    stageActive a' = stageActive a \<and>
    tb_window (activityBuffer a') = drop k (tb_window (activityBuffer a)) @
      replicate (min k (length (tb_window (activityBuffer a)))) False"
proof (induction k)
  case 0
  with assms show ?case by simp
next
  case (Suc k)
  let ?w = "tb_window (activityBuffer a)"
  from Suc obtain a1 where a1: "rfold (\<lambda>a _. act_advance a) a [0..<k] = Inr a1" "act_count_ok a1"
    "stageActive a1 = stageActive a"
    "tb_window (activityBuffer a1) = drop k ?w @ replicate (min k (length ?w)) False" by blast
  from act_advance_ok [OF a1(2)] obtain a2 where a2: "act_advance a1 = Inr a2" "act_count_ok a2"
    "stageActive a2 = stageActive a1"
    "tb_window (activityBuffer a2) = tl (tb_window (activityBuffer a1)) @ [False]" by blast
  have "tl (drop k ?w @ replicate (min k (length ?w)) False) @ [False] =
      drop (Suc k) ?w @ replicate (min (Suc k) (length ?w)) False"
  proof (cases "k < length ?w")
    case True
    then show ?thesis by (simp add: tl_append2 tl_drop drop_Suc replicate_append_same min_def)
  next
    case False
    moreover have "?w \<noteq> []" using tb_window_length [of "activityBuffer a"] by auto
    ultimately show ?thesis by (cases "length ?w") (simp_all add: min_def replicate_append_same)
  qed
  with a1 a2 show ?case by (simp add: rfold_append)
qed

text \<open>
  The CPU goes idle. Once no stage is active, \<open>longestLatency + 1\<close> advances bring the
  count to zero, so \<^verbatim>\<open>active\<close> reports that the CPU may be descheduled, whatever
  communication was in flight.
\<close>

lemma activity_drains:
  assumes "act_count_ok a" "\<forall>s \<in> set (stageActive a). \<not> s"
  shows "\<exists>a'. rfold (\<lambda>a _. act_advance a) a [0..<nat (longestLatency a + 1)] = Inr a' \<and> \<not> act_active a'"
proof -
  let ?w = "tb_window (activityBuffer a)"
  have len: "length ?w = nat (longestLatency a + 1)"
    using assms(1) by (auto simp: tb_window_length act_count_ok_def act_wf_def tb_line_def tb_wf_def
        nat_add_distrib)
  from act_advances_window [OF assms(1), of "length ?w"] obtain a' where
    a': "rfold (\<lambda>a _. act_advance a) a [0..<length ?w] = Inr a'" "act_count_ok a'"
    "stageActive a' = stageActive a" "tb_window (activityBuffer a') = replicate (length ?w) False"
    by auto
  moreover have "trues (stageActive a) = 0" using assms(2) by (simp add: filter_empty_conv)
  ultimately show ?thesis by (auto simp: act_active_def act_count_ok_def len)
qed

lemma activity_drains_witness:
  "\<exists>a0 a a'. act_new 2 3 0 = Inr a0 \<and> act_activity a0 = Inr a \<and>
     rfold (\<lambda>a _. act_advance a) a [0..<4] = Inr a' \<and> \<not> act_active a'"
proof -
  obtain a0 where a0: "act_new 2 3 0 = Inr a0" and st: "stageActive a0 = [False, False]"
      "longestLatency a0 = 3"
    by (simp add: act_new_def tb_new_def replicate_numeral)
  have "act_count_ok a0" using act_new_ok [OF a0] by simp
  moreover obtain a where a: "act_activity a0 = Inr a" "act_count_ok a"
    using act_activity_ok [OF calculation] by blast
  moreover have "stageActive a = stageActive a0" "longestLatency a = longestLatency a0"
    using a(1) by (auto simp: act_activity_def rbind_Inr_iff split: if_splits)
  ultimately show ?thesis using activity_drains [of a] a0 st by auto
qed

end
