(* ===== verification/Stages.thy ===== *)
theory Stages
  imports Activity PipeData
begin

text \<open>
  What the pipeline stages share: the thread scheduling policies of \<^verbatim>\<open>cpu/myminor/cpu.hh\<close>, the
  stage numbers of \<^verbatim>\<open>pipeline.hh\<close>, and the parts of \<^verbatim>\<open>evaluate\<close> that Fetch2, Decode and
  ExecuteDummy have in common: taking the head of an input buffer of instruction packets, packing
  an instruction into the output packet, reserving room in the next stage and keeping the
  stage active. The order that \<^verbatim>\<open>std::shuffle\<close> gives the threads is the argument
  \<open>shuffle\<close>. The interface \<open>packing_loop\<close> is what the loops of the stages promise.
\<close>

section \<open>Thread scheduling\<close>

datatype thread_policy = SingleThreaded | RoundRobin | Random

datatype stage_id = CPUStageId | Fetch1StageId | Fetch2StageId | DecodeStageId | ExecuteDummyStageId
  | ExecuteStageId

fun stage_no :: "stage_id \<Rightarrow> int" where
  "stage_no CPUStageId = 0"
| "stage_no Fetch1StageId = 1"
| "stage_no Fetch2StageId = 2"
| "stage_no DecodeStageId = 3"
| "stage_no ExecuteDummyStageId = 4"
| "stage_no ExecuteStageId = 5"

definition Num_StageId :: int where "Num_StageId = 6"

definition roundRobinPriority :: "int \<Rightarrow> int \<Rightarrow> int list" where
  "roundRobinPriority numThreads priority = map (\<lambda>i. (priority + i) mod numThreads) [1..numThreads]"

definition randomPriority :: "(int list \<Rightarrow> int list) \<Rightarrow> int \<Rightarrow> int list" where
  "randomPriority shuffle numThreads = shuffle [0..numThreads - 1]"

definition priority_list :: "(int list \<Rightarrow> int list) \<Rightarrow> thread_policy \<Rightarrow> int \<Rightarrow> int \<Rightarrow> int list" where
  "priority_list shuffle policy numThreads threadPriority =
     (case policy of SingleThreaded \<Rightarrow> [0]
      | RoundRobin \<Rightarrow> roundRobinPriority numThreads threadPriority
      | Random \<Rightarrow> randomPriority shuffle numThreads)"

fun pick_thread :: "(int \<Rightarrow> bool result) \<Rightarrow> int list \<Rightarrow> int result" where
  "pick_thread ready [] = Inr InvalidThreadID"
| "pick_thread ready (tid # tids) = rbind (ready tid) (\<lambda>r. if r then Inr tid else pick_thread ready tids)"

section \<open>Input buffers of instruction packets\<close>

definition packet_getInput :: "inst_data inputbuf \<Rightarrow> inst_data option result" where
  "packet_getInput b =
     (if \<not> inputbuf_empty b then
        rbind (inputbuf_front b) (\<lambda>head.
        rbind (fi_isBubble head) (\<lambda>bubble. Inr (if bubble then None else Some head)))
      else Inr None)"

text \<open>The input wire is put at the tail of the buffer of its thread before the stage works, and kept
  there afterwards.\<close>

definition packet_setTail :: "inst_data inputbuf list \<Rightarrow> inst_data \<Rightarrow> inst_data inputbuf list result" where
  "packet_setTail bufs inp =
     rbind (fi_isBubble inp) (\<lambda>bubble.
     if \<not> bubble then
       rbind (arr_at bufs (fi_threadId inp)) (\<lambda>b.
       rbind (inputbuf_setTail fi_isB b inp) (\<lambda>b. arr_set bufs (fi_threadId inp) b))
     else Inr bufs)"

definition packet_pushTail :: "inst_data inputbuf list \<Rightarrow> inst_data \<Rightarrow> inst_data inputbuf list result" where
  "packet_pushTail bufs inp =
     rbind (fi_isBubble inp) (\<lambda>bubble.
     if \<not> bubble then
       rbind (arr_at bufs (fi_threadId inp)) (\<lambda>b. arr_set bufs (fi_threadId inp) (inputbuf_pushTail fi_isB b))
     else Inr bufs)"

section \<open>Output packets\<close>

definition packet_pack :: "u32 \<Rightarrow> inst_data \<Rightarrow> u32 \<Rightarrow> dyn_inst \<Rightarrow> inst_data result" where
  "packet_pack outputWidth insts_out output_index inst =
     rbind (if output_index = 0 then fi_resize insts_out outputWidth else Inr insts_out) (\<lambda>insts_out.
     rbind (vec_set (fi_insts insts_out) (unat output_index) (Some inst)) (\<lambda>xs.
     Inr (insts_out\<lparr>fi_insts := xs\<rparr>)))"

text \<open>A stage that produced output marks the cycle active and reserves room in the next stage.\<close>

definition stage_output ::
  "inst_data \<Rightarrow> int \<Rightarrow> 'a inputbuf list \<Rightarrow> activity \<Rightarrow> (inst_data \<times> 'a inputbuf list \<times> activity) result" where
  "stage_output insts_out tid nextStageReserve act =
     rbind (fi_isBubble insts_out) (\<lambda>bubble.
     if \<not> bubble then
       rbind (act_activity act) (\<lambda>act.
       rbind (arr_at nextStageReserve tid) (\<lambda>b.
       rbind (arr_set nextStageReserve tid (inputbuf_reserve b)) (\<lambda>nxt.
       Inr (insts_out\<lparr>fi_threadId := tid\<rparr>, nxt, act))))
     else Inr (insts_out, nextStageReserve, act))"

text \<open>A stage with input left and somewhere to put it stays active.\<close>

fun stage_activate ::
  "stage_id \<Rightarrow> (int \<Rightarrow> bool result) \<Rightarrow> 'a inputbuf list \<Rightarrow> activity \<Rightarrow> int list \<Rightarrow> activity result" where
  "stage_activate stage has_input nextStageReserve act [] = Inr act"
| "stage_activate stage has_input nextStageReserve act (i # tids) =
     rbind (has_input i) (\<lambda>input.
     rbind (if input then rbind (arr_at nextStageReserve i) (\<lambda>b. Inr (inputbuf_canReserve b)) else Inr False) (\<lambda>go.
     if go then act_activateStage act (stage_no stage)
     else stage_activate stage has_input nextStageReserve act tids))"


section \<open>No thread starves\<close>

text \<open>The distance of a thread from the head of the round-robin order.\<close>

definition rr_distance :: "int \<Rightarrow> int \<Rightarrow> int \<Rightarrow> nat" where
  "rr_distance n prio tid = nat ((tid - prio - 1) mod n)"

text \<open>Scheduling cycle after cycle: the chosen thread is the next cycle's priority.\<close>

fun schedule_run :: "int \<Rightarrow> (int \<Rightarrow> bool) list \<Rightarrow> int \<Rightarrow> int list result" where
  "schedule_run n [] prio = Inr []"
| "schedule_run n (ready # rs) prio =
     rbind (pick_thread (\<lambda>t. Inr (ready t)) (priority_list id RoundRobin n prio)) (\<lambda>t.
     rbind (schedule_run n rs (if t = InvalidThreadID then prio else t)) (\<lambda>ts. Inr (t # ts)))"

lemma pick_thread_find:
  "pick_thread (\<lambda>t. Inr (ready t)) ts = Inr (case find ready ts of Some t \<Rightarrow> t | None \<Rightarrow> InvalidThreadID)"
  by (induction ts) simp_all

lemma roundRobin_nth:
  "i < nat n \<Longrightarrow> roundRobinPriority n prio ! i = (prio + 1 + int i) mod n"
  by (simp add: roundRobinPriority_def nth_upto algebra_simps)

lemma roundRobin_length [simp]: "length (roundRobinPriority n prio) = nat n"
  by (simp add: roundRobinPriority_def)

lemma roundRobin_member:
  assumes "0 \<le> tid" "tid < n"
  shows "rr_distance n prio tid < nat n" "roundRobinPriority n prio ! rr_distance n prio tid = tid"
proof -
  show lt: "rr_distance n prio tid < nat n" using assms by (simp add: rr_distance_def)
  have "(prio + 1 + (tid - prio - 1) mod n) mod n = tid mod n" by (simp add: mod_simps)
  with assms lt show "roundRobinPriority n prio ! rr_distance n prio tid = tid"
    by (simp add: roundRobin_nth) (simp add: rr_distance_def)
qed

lemma rr_distance_nth:
  assumes "0 \<le> tid" "tid < n" "i < rr_distance n prio tid"
  shows "rr_distance n (roundRobinPriority n prio ! i) tid < rr_distance n prio tid"
proof -
  let ?d = "(tid - prio - 1) mod n"
  have d: "int i < ?d" "?d < n" using assms by (simp_all add: rr_distance_def)
  have "roundRobinPriority n prio ! i = (prio + 1 + int i) mod n"
    using d by (intro roundRobin_nth) linarith
  moreover have "(tid - (prio + 1 + int i) mod n - 1) mod n = (tid - 1 - (prio + 1 + int i)) mod n"
    by (metis diff_right_commute mod_diff_right_eq)
  moreover have "\<dots> = ((tid - prio - 1) mod n - (int i + 1)) mod n" by (simp add: mod_simps algebra_simps)
  moreover have "\<dots> = ?d - (int i + 1)" using d by (intro mod_pos_pos_trivial) linarith+
  ultimately show ?thesis using d by (simp add: rr_distance_def)
qed

lemma find_before:
  assumes "j < length xs" "P (xs ! j)"
  shows "\<exists>i \<le> j. find P xs = Some (xs ! i)"
  using assms
proof (induction xs arbitrary: j)
  case (Cons x xs)
  show ?case
  proof (cases "P x")
    case False
    with Cons.prems obtain k where k: "j = Suc k" by (cases j) auto
    with Cons obtain i where "i \<le> k" "find P xs = Some (xs ! i)" by auto
    with False k show ?thesis by (intro exI [of _ "Suc i"]) simp
  qed (auto intro: exI [of _ 0])
qed simp

lemma schedule_within:
  assumes "0 \<le> tid" "tid < n" "rr_distance n prio tid < length rs" "\<forall>r \<in> set rs. r tid"
  shows "\<exists>ts. schedule_run n rs prio = Inr ts \<and> tid \<in> set (take (Suc (rr_distance n prio tid)) ts)"
  using assms(3,4)
proof (induction rs arbitrary: prio)
  case (Cons r rs)
  let ?p = "roundRobinPriority n prio" and ?d = "rr_distance n prio tid"
  note m = roundRobin_member [OF assms(1,2), of prio]
  from m Cons.prems obtain i where i: "i \<le> ?d" "find r ?p = Some (?p ! i)"
    using find_before [of ?d ?p r] by auto
  have nonneg: "0 \<le> ?p ! i" using i m assms by (simp add: roundRobin_nth)
  then have t: "?p ! i \<noteq> InvalidThreadID" by (simp add: InvalidThreadID_def)
  have total: "\<exists>ts. schedule_run n rs' p = Inr ts" for rs' p
    by (induction rs' arbitrary: p) (simp_all add: pick_thread_find rbind_Inr_iff)
  show ?case
  proof (cases "i = ?d")
    case True
    with total [of rs "?p ! i"] i t m show ?thesis
      by (auto simp: pick_thread_find priority_list_def)
  next
    case False
    with i have lt: "i < ?d" by simp
    note less = rr_distance_nth [OF assms(1,2) lt]
    from less Cons.prems Cons.IH [of "?p ! i"] obtain ts where ts: "schedule_run n rs (?p ! i) = Inr ts"
      "tid \<in> set (take (Suc (rr_distance n (?p ! i) tid)) ts)" by auto
    from less ts(2) have "tid \<in> set (take ?d ts)"
      by (meson Suc_leI set_take_subset_set_take subsetD)
    with ts(1) i t show ?thesis by (simp add: pick_thread_find priority_list_def)
  qed
qed simp



section \<open>Packing instructions\<close>

text \<open>A packet the stages pass on has its slots, and every slot in its width is filled.\<close>

definition packet_wf :: "inst_data \<Rightarrow> bool" where
  "packet_wf p \<longleftrightarrow> length (fi_insts p) = MAX_FORWARD_INSTS \<and> unat (numInsts p) \<le> MAX_FORWARD_INSTS \<and>
     (\<forall>x \<in> set (take (unat (numInsts p)) (fi_insts p)). x \<noteq> None)"

definition packet_insts :: "inst_data \<Rightarrow> dyn_inst list" where
  "packet_insts p = map the (take (unat (numInsts p)) (fi_insts p))"

text \<open>The real instructions of a packet.\<close>

definition packet_content :: "inst_data \<Rightarrow> dyn_inst list" where
  "packet_content p = filter (\<lambda>i. \<not> di_isBubble i) (packet_insts p)"

text \<open>An output packet under construction: nothing yet, or the instructions packed so far and
  bubbles up to its width.\<close>

definition packed :: "u32 \<Rightarrow> inst_data \<Rightarrow> dyn_inst list \<Rightarrow> bool" where
  "packed w out xs \<longleftrightarrow> length (fi_insts out) = MAX_FORWARD_INSTS \<and> length xs \<le> unat w \<and>
     list_all (\<lambda>i. \<not> di_isBubble i) xs \<and>
     (if xs = [] then fi_isBubble out = Inr True
      else numInsts out = w \<and>
        take (unat w) (fi_insts out) = map Some xs @ replicate (unat w - length xs) (Some di_bubble))"

lemma packet_pack_ok:
  assumes "packed w out xs" "length xs < unat w" "unat w < MAX_FORWARD_INSTS" "\<not> di_isBubble i"
  shows "\<exists>out'. packet_pack w out (of_nat (length xs)) i = Inr out' \<and> packed w out' (xs @ [i])"
proof -
  have lt: "length xs < 2 ^ 32" using assms(2) unat32_less [of w] by linarith
  then have u: "unat (of_nat (length xs) :: u32) = length xs" by (simp add: unat_of_nat take_bit_nat_eq_self)
  have z: "(of_nat (length xs) :: u32) = 0 \<longleftrightarrow> xs = []" using u by (auto simp: unsigned_eq_0_iff [symmetric, where 'a = nat])
  obtain ys where ys: "unat w - length xs = Suc ys" using assms(2) by (metis Suc_diff_Suc)
  have len: "length (fi_insts out) = MAX_FORWARD_INSTS" using assms(1) by (simp add: packed_def)
  show ?thesis
  proof (cases "xs = []")
    case True
    let ?o = "out\<lparr>numInsts := w, fi_insts := replicate (unat w) (Some di_bubble) @ drop (unat w) (fi_insts out)\<rparr>"
    have "fi_resize out w = Inr ?o" using assms(3) len by (simp add: fi_resize_def fi_bubbleFill_eq)
    with True assms ys len show ?thesis
      by (simp add: packet_pack_def packed_def)
  next
    case False
    with assms len have t: "numInsts out = w"
      "take (unat w) (fi_insts out) = map Some xs @ replicate (unat w - length xs) (Some di_bubble)"
      by (auto simp: packed_def)
    from False assms u z len t ys show ?thesis
      by (simp add: packet_pack_def packed_def take_update_swap list_update_append)
  qed
qed

lemma packed_content:
  assumes "packed w out xs" "unat w < MAX_FORWARD_INSTS"
  shows "fi_isBubble out = Inr (xs = [])" "xs \<noteq> [] \<Longrightarrow> packet_wf out \<and> packet_content out = xs"
proof -
  show ne: "packet_wf out \<and> packet_content out = xs" if "xs \<noteq> []"
    using assms that
    by (auto simp: packed_def packet_wf_def packet_content_def packet_insts_def list_all_iff comp_def)
  show "fi_isBubble out = Inr (xs = [])"
  proof (cases xs)
    case (Cons x ys)
    with assms have w: "0 < unat w" "numInsts out = w" "fi_insts out \<noteq> []"
      "take (unat w) (fi_insts out) = Some x # map Some ys @ replicate (unat w - length xs) (Some di_bubble)"
      by (auto simp: packed_def MAX_FORWARD_INSTS_def)
    then have "fi_insts out ! 0 = Some x" by (metis nth_Cons_0 nth_take)
    with w Cons assms show ?thesis
      by (auto simp: fi_isBubble_def fi_inst_def packed_def MAX_FORWARD_INSTS_def vec_at_def)
  qed (use assms in \<open>simp add: packed_def\<close>)
qed

text \<open>A packet with input for a stage that handles instructions with \<open>good\<close>.\<close>

definition packet_ok :: "(dyn_inst \<Rightarrow> bool) \<Rightarrow> inst_data \<Rightarrow> bool" where
  "packet_ok good p \<longleftrightarrow> packet_wf p \<and> \<not> fi_isB p \<and> list_all good (packet_insts p)"

lemma packet_insts_length: "packet_wf p \<Longrightarrow> length (packet_insts p) = unat (numInsts p)"
  by (simp add: packet_wf_def packet_insts_def)

lemma fi_inst_packet:
  assumes "packet_wf p" "k < unat (numInsts p)"
  shows "fi_inst p k = Inr (packet_insts p ! k)"
proof -
  have "fi_insts p ! k \<in> set (take (unat (numInsts p)) (fi_insts p))"
    using assms by (auto simp: in_set_conv_nth packet_wf_def intro!: exI [of _ k])
  with assms obtain i where "fi_insts p ! k = Some i" by (auto simp: packet_wf_def)
  with assms show ?thesis by (simp add: fi_inst_def packet_insts_def packet_wf_def)
qed

lemma packet_ok_head:
  assumes "packet_ok good p"
  shows "fi_isBubble p = Inr False" "0 < numInsts p"
proof -
  show pos: "0 < numInsts p" using assms by (auto simp: packet_ok_def fi_isB_def fi_isBubble_def word_gt_0)
  then have "fi_inst p 0 = Inr (packet_insts p ! 0)"
    using assms by (intro fi_inst_packet) (simp_all add: packet_ok_def word_less_nat_alt)
  with assms pos show "fi_isBubble p = Inr False" by (auto simp: packet_ok_def fi_isB_def fi_isBubble_def)
qed

lemma packet_getInput_items:
  assumes "inputbuf_wf fi_isB b" "list_all (packet_ok good) (inputbuf_items b)"
  shows "packet_getInput b = Inr (case inputbuf_items b of [] \<Rightarrow> None | p # _ \<Rightarrow> Some p)"
  using assms ibf.front_items [OF assms(1)]
  by (cases "inputbuf_items b") (auto simp: packet_getInput_def inputbuf_empty_iff dest: packet_ok_head(1))

section \<open>The common parts of a cycle\<close>

text \<open>An input wire is a bubble or a packet for one of the threads.\<close>

definition arrival_ok :: "(dyn_inst \<Rightarrow> bool) \<Rightarrow> nat \<Rightarrow> inst_data \<Rightarrow> bool" where
  "arrival_ok good n inp \<longleftrightarrow>
     fi_isBubble inp = Inr True \<or> packet_ok good inp \<and> 0 \<le> fi_threadId inp \<and> fi_threadId inp < int n"

definition arrived :: "inst_data \<Rightarrow> nat \<Rightarrow> inst_data list" where
  "arrived inp t = (if fi_isB inp \<or> fi_threadId inp \<noteq> int t then [] else [inp])"

definition buffers_ok :: "nat \<Rightarrow> inst_data inputbuf list \<Rightarrow> bool" where
  "buffers_ok n bufs \<longleftrightarrow> length bufs = n \<and> list_all (inputbuf_wf fi_isB) bufs"

lemma packet_setTail_ok:
  assumes "buffers_ok n bufs" "list_all inputbuf_ready bufs" "arrival_ok good n inp"
  shows "\<exists>bufs'. packet_setTail bufs inp = Inr bufs' \<and> buffers_ok n bufs' \<and>
    (\<forall>t < n. inputbuf_items (bufs' ! t) = inputbuf_items (bufs ! t) @ arrived inp t \<and>
             (arrived inp t = [] \<longrightarrow> inputbuf_ready (bufs' ! t)))"
proof (cases "fi_isBubble inp = Inr True")
  case True
  with assms show ?thesis by (simp add: packet_setTail_def arrived_def fi_isB_def list_all_length buffers_ok_def)
next
  case False
  let ?t = "nat (fi_threadId inp)"
  from False assms(3) have inp: "packet_ok good inp" "0 \<le> fi_threadId inp" "?t < n"
    by (auto simp: arrival_ok_def)
  with assms(1,2) have "inputbuf_wf fi_isB (bufs ! ?t)" "inputbuf_ready (bufs ! ?t)"
    by (simp_all add: buffers_ok_def list_all_length)
  from ibf.put_items [OF this, of inp] inp obtain b where b: "inputbuf_setTail fi_isB (bufs ! ?t) inp = Inr b"
    "inputbuf_wf fi_isB b" "inputbuf_items b = inputbuf_items (bufs ! ?t) @ [inp]" by (auto simp: packet_ok_def)
  with assms(1,2) inp show ?thesis
    by (auto simp: packet_setTail_def packet_ok_head(1) [OF inp(1)] buffers_ok_def list_all_length nth_list_update
        arrived_def fi_isB_def)
qed

lemma packet_pushTail_ok:
  assumes "buffers_ok n bufs" "arrival_ok good n inp" "\<forall>t < n. arrived inp t = [] \<longrightarrow> inputbuf_ready (bufs ! t)"
  shows "\<exists>bufs'. packet_pushTail bufs inp = Inr bufs' \<and> buffers_ok n bufs' \<and> list_all inputbuf_ready bufs' \<and>
    (\<forall>t < n. inputbuf_items (bufs' ! t) = inputbuf_items (bufs ! t))"
proof (cases "fi_isBubble inp = Inr True")
  case True
  with assms show ?thesis by (simp add: packet_pushTail_def arrived_def fi_isB_def list_all_length buffers_ok_def)
next
  case False
  let ?t = "nat (fi_threadId inp)"
  from False assms(2) have inp: "packet_ok good inp" "0 \<le> fi_threadId inp" "?t < n"
    by (auto simp: arrival_ok_def)
  with assms(1) have "inputbuf_wf fi_isB (bufs ! ?t)" by (simp add: buffers_ok_def list_all_length)
  from ibf.tick_items [OF this] assms inp show ?thesis
    by (auto simp: packet_pushTail_def packet_ok_head(1) [OF inp(1)] buffers_ok_def list_all_length nth_list_update
        arrived_def fi_isB_def)
qed

lemma pick_thread_ok:
  assumes "\<forall>t \<in> set ts. \<exists>r. ready t = Inr r"
  shows "\<exists>t. pick_thread ready ts = Inr t \<and> (t = InvalidThreadID \<or> t \<in> set ts \<and> ready t = Inr True)"
  using assms by (induction ts) fastforce+

text \<open>The scheduling policies only name existing threads, provided a shuffle permutes.\<close>

definition shuffles :: "(int list \<Rightarrow> int list) \<Rightarrow> bool" where
  "shuffles shuffle \<longleftrightarrow> (\<forall>xs. set (shuffle xs) = set xs)"

lemma priority_list_threads:
  assumes "0 < n" "shuffles shuffle" "t \<in> set (priority_list shuffle policy (int n) prio)"
  shows "0 \<le> t \<and> t < int n"
  using assms by (auto simp: priority_list_def roundRobinPriority_def randomPriority_def shuffles_def
      split: thread_policy.splits)

definition recorder_ok :: "activity \<Rightarrow> bool" where
  "recorder_ok act \<longleftrightarrow> act_count_ok act \<and> numStages act = Num_StageId"

lemma recorder_activity: "recorder_ok act \<Longrightarrow> \<exists>act'. act_activity act = Inr act' \<and> recorder_ok act'"
  using act_activity_ok [of act] by (auto simp: recorder_ok_def)

lemma recorder_activate: "recorder_ok act \<Longrightarrow> \<exists>act'. act_activateStage act (stage_no s) = Inr act' \<and> recorder_ok act'"
  using act_stage_ok(1) [of act "stage_no s"] by (cases s) (auto simp: recorder_ok_def Num_StageId_def)

text \<open>What a stage sent for a thread.\<close>

definition sent :: "inst_data \<Rightarrow> nat \<Rightarrow> dyn_inst list" where
  "sent out t = (if fi_isB out \<or> fi_threadId out \<noteq> int t then [] else packet_content out)"

lemma stage_output_ok:
  assumes "packed w out xs" "unat w < MAX_FORWARD_INSTS" "recorder_ok act"
    and "xs \<noteq> [] \<Longrightarrow> 0 \<le> tid \<and> nat tid < length nxt"
  shows "\<exists>out' nxt' act'. stage_output out tid nxt act = Inr (out', nxt', act') \<and> recorder_ok act' \<and>
    length nxt' = length nxt \<and> (\<forall>t. sent out' t = (if int t = tid then xs else [])) \<and>
    arrival_ok (\<lambda>_. True) (length nxt) out'"
proof (cases "xs = []")
  case True
  with packed_content(1) [OF assms(1,2)] assms(3) show ?thesis
    by (auto simp: stage_output_def sent_def fi_isB_def arrival_ok_def)
next
  case False
  note c = packed_content [OF assms(1,2)]
  from recorder_activity [OF assms(3)] obtain act' where a: "act_activity act = Inr act'" "recorder_ok act'" by blast
  let ?o = "out\<lparr>fi_threadId := tid\<rparr>"
  have "fi_isBubble ?o = fi_isBubble out" by (simp add: fi_isBubble_def fi_inst_def)
  moreover have "packet_content ?o = xs" "packet_wf ?o"
    using c(2) False by (simp_all add: packet_content_def packet_insts_def packet_wf_def)
  ultimately show ?thesis using False a c assms(4)
    by (auto simp: stage_output_def sent_def fi_isB_def arrival_ok_def packet_ok_def list_all_iff)
qed

lemma stage_activate_ok:
  assumes "recorder_ok act" "\<forall>t \<in> set ts. (\<exists>r. has_input t = Inr r) \<and> 0 \<le> t \<and> nat t < length nxt"
  shows "\<exists>act'. stage_activate stage has_input nxt act ts = Inr act' \<and> recorder_ok act'"
  using assms(2)
proof (induction ts)
  case (Cons t ts)
  then obtain r where "has_input t = Inr r" by auto
  with Cons recorder_activate [OF assms(1), of stage] show ?case by (cases r) auto
qed (use assms(1) in simp)

text \<open>
  The interface of a packing loop. \<open>step\<close> is one iteration, \<open>active\<close> the loop condition;
  \<open>emitted\<close> is what the output holds and \<open>pending\<close> what the input still has to give.
  An iteration moves instructions from the front of one to the end of the other, and makes progress.
\<close>

locale packing_loop =
  fixes loop :: "'s \<Rightarrow> 's result"
    and active :: "'s \<Rightarrow> bool"
    and step :: "'s \<Rightarrow> 's result"
    and ok :: "'s \<Rightarrow> bool"
    and emitted :: "'s \<Rightarrow> dyn_inst list"
    and pending :: "'s \<Rightarrow> dyn_inst list"
    and R :: "('s \<times> 's) set"
  assumes loop_unfold: "loop s = (if active s then rbind (step s) loop else Inr s)"
    and progress_wf: "wf R"
    and step_law: "ok s \<Longrightarrow> active s \<Longrightarrow> \<exists>s'. step s = Inr s' \<and> ok s' \<and> (s', s) \<in> R \<and>
      emitted s' @ pending s' = emitted s @ pending s"
begin

lemma loop_law:
  assumes "ok s"
  shows "\<exists>s'. loop s = Inr s' \<and> ok s' \<and> \<not> active s' \<and> emitted s' @ pending s' = emitted s @ pending s"
  using assms
proof (induction s rule: wf_induct_rule [OF progress_wf])
  case (1 s)
  show ?case
  proof (cases "active s")
    case True
    from step_law [OF "1.prems" True] obtain s1 where s1: "step s = Inr s1" "ok s1" "(s1, s) \<in> R"
      "emitted s1 @ pending s1 = emitted s @ pending s" by blast
    from "1.IH" [OF s1(3,2)] s1 True show ?thesis by (simp add: loop_unfold [of s])
  qed (use "1.prems" in \<open>simp add: loop_unfold [of s]\<close>)
qed

end

section \<open>Numbering\<close>

text \<open>Consecutive execution sequence numbers.\<close>

primrec number :: "u64 \<Rightarrow> dyn_inst list \<Rightarrow> dyn_inst list" where
  "number n [] = []"
| "number n (x # xs) = x\<lparr>di_id := (di_id x)\<lparr>execSeqNum := n\<rparr>\<rparr> # number (n + 1) xs"

lemma number_append: "number n (xs @ ys) = number n xs @ number (n + of_nat (length xs)) ys"
  by (induction xs arbitrary: n) (simp_all add: algebra_simps)

lemma number_length [simp]: "length (number n xs) = length xs"
  by (induction xs arbitrary: n) simp_all

lemma number_resume:
  assumes "s @ number m ys = number n xs" "m = n + of_nat (length s)"
  shows "number n (xs @ zs) = s @ number m (ys @ zs)"
proof -
  from arg_cong [OF assms(1), of length] have len: "length xs = length s + length ys" by simp
  have "number n (xs @ zs) = (s @ number m ys) @ number (n + of_nat (length xs)) zs"
    by (simp only: number_append assms(1))
  then show ?thesis by (simp add: number_append len assms(2) add.assoc)
qed

section \<open>Runs of a stage\<close>

definition inputbuf_load :: "'a inputbuf \<Rightarrow> nat" where
  "inputbuf_load b = (if elementPtr b = None then 0 else 1) + length (mq_queue (ib_queue b))"

lemma inputbuf_pop_load: "inputbuf_pop b = Inr b' \<Longrightarrow> inputbuf_load b' < inputbuf_load b"
  by (auto simp: inputbuf_pop_def queue_pop_def inputbuf_load_def queue_freeReservation_def
      rbind_Inr_iff split: option.splits list.splits if_splits)

lemma inputbuf_pop_ready: "inputbuf_pop b = Inr b' \<Longrightarrow> inputbuf_ready b'"
  by (auto simp: inputbuf_pop_def inputbuf_ready_def rbind_Inr_iff split: option.splits)

lemma packed_bubble: "packed w (fi_bubble tid) []"
  by (simp add: packed_def fi_bubble_def fi_isBubble_def)

text \<open>What the rest of the machine contributes to a cycle: the wire, the next stage's buffers, the
  activity recorder and the order a random policy tries the threads in.\<close>

record 'a cycle_env =
  ce_shuffle :: "int list \<Rightarrow> int list"
  ce_inp :: inst_data
  ce_next :: "'a inputbuf list"
  ce_act :: activity

definition env_ok :: "(dyn_inst \<Rightarrow> bool) \<Rightarrow> nat \<Rightarrow> 'a cycle_env \<Rightarrow> bool" where
  "env_ok good n c \<longleftrightarrow> shuffles (ce_shuffle c) \<and> arrival_ok good n (ce_inp c) \<and> length (ce_next c) = n \<and>
     recorder_ok (ce_act c)"

text \<open>The packets that arrived for a thread.\<close>

definition arrivals :: "'a cycle_env list \<Rightarrow> nat \<Rightarrow> inst_data list" where
  "arrivals cs t = concat (map (\<lambda>c. arrived (ce_inp c) t) cs)"

text \<open>Parts of the examples on which the stages are run.\<close>

definition ex_inst :: "static_inst \<Rightarrow> u64 \<Rightarrow> dyn_inst" where
  "ex_inst si k = (dyn_inst_new (Some si) (inst_id_zero\<lparr>fetchSeqNum := k\<rparr>) NoFault)\<lparr>di_pc := Some pc_new\<rparr>"

definition ex_activity :: activity where
  "ex_activity = projr (act_new Num_StageId 1 0)"

definition ex_env :: "inst_data \<Rightarrow> inst_data cycle_env" where
  "ex_env p = \<lparr>ce_shuffle = id, ce_inp = p, ce_next = [inputbuf_new 2], ce_act = ex_activity\<rparr>"

lemma ex_recorder_ok: "recorder_ok ex_activity"
proof -
  have "act_new Num_StageId 1 0 = Inr ex_activity" by (simp add: ex_activity_def act_new_def tb_new_def)
  from act_new_ok [OF this] show ?thesis by (simp add: recorder_ok_def Num_StageId_def)
qed

lemma ex_env_ok: "arrival_ok good 1 p \<Longrightarrow> env_ok good 1 (ex_env p)"
  by (simp add: env_ok_def ex_env_def shuffles_def ex_recorder_ok)

end
