(* ===== verification/PackStage.thy ===== *)
theory PackStage
  imports Stages
begin

text \<open>
  A stage that takes instruction packets from its input buffers, handles their instructions one by one
  and packs the results into packets for the next stage. Decode and ExecuteDummy are such stages:
  their \<^verbatim>\<open>evaluate\<close> functions and helpers are the same code around a different treatment of one
  instruction. That treatment, what a fresh packet resets and what is asserted at the end of a packet are
  the operation table \<open>stage_ops\<close>; the per-thread information is the common part
  \<open>stage_info\<close> extended by the stage. The interface \<open>pack_stage\<close> is what the
  treatment of one instruction must promise; in it every run of the stage is shown to pass its input on,
  in order, without loss and numbered consecutively.
\<close>

section \<open>The stage\<close>

record stage_info =
  st_inputIndex :: u32
  st_execSeqNum :: u64
  st_blocked :: bool

record 'i stage_ops =
  so_stage :: stage_id
  so_restart :: "'i stage_info_scheme \<Rightarrow> 'i stage_info_scheme"
  so_between :: "'i stage_info_scheme \<Rightarrow> bool"
  so_inst :: "'i stage_info_scheme \<Rightarrow> dyn_inst \<Rightarrow> ('i stage_info_scheme \<times> dyn_inst) result"

record 'i inst_stage =
  is_outputWidth :: u32
  is_processMoreThanOneInput :: bool
  is_inputBuffer :: "inst_data inputbuf list"
  is_info :: "'i stage_info_scheme list"
  is_threadPriority :: int

definition stage_getInput :: "'i inst_stage \<Rightarrow> int \<Rightarrow> inst_data option result" where
  "stage_getInput d tid = rbind (arr_at (is_inputBuffer d) tid) packet_getInput"

definition stage_popInput ::
  "'i stage_ops \<Rightarrow> inst_data inputbuf \<Rightarrow> 'i stage_info_scheme \<Rightarrow> (inst_data inputbuf \<times> 'i stage_info_scheme) result" where
  "stage_popInput ops b info =
     rbind (if \<not> inputbuf_empty b then inputbuf_pop b else Inr b) (\<lambda>b.
     Inr (b, (so_restart ops info)\<lparr>st_inputIndex := 0\<rparr>))"

definition stage_stepInput :: "'i stage_ops \<Rightarrow> 'i stage_info_scheme \<Rightarrow> 'i stage_info_scheme" where
  "stage_stepInput ops info = (so_restart ops info)\<lparr>st_inputIndex := st_inputIndex info + 1\<rparr>"

section \<open>The packing loop\<close>

record 'i pack_state =
  pk_info :: "'i stage_info_scheme"
  pk_buf :: "inst_data inputbuf"
  pk_in :: "inst_data option"
  pk_out :: inst_data
  pk_index :: u32

definition pack_active :: "u32 \<Rightarrow> 'i pack_state \<Rightarrow> bool" where
  "pack_active outputWidth s \<longleftrightarrow>
     (case pk_in s of None \<Rightarrow> False
      | Some insts_in \<Rightarrow> st_inputIndex (pk_info s) < numInsts insts_in \<and> pk_index s < outputWidth)"

definition pack_take :: "'i stage_ops \<Rightarrow> u32 \<Rightarrow> 'i pack_state \<Rightarrow> dyn_inst \<Rightarrow> 'i pack_state result" where
  "pack_take ops outputWidth s inst =
     (if di_isBubble inst then Inr (s\<lparr>pk_info := stage_stepInput ops (pk_info s)\<rparr>)
      else rbind (so_inst ops (pk_info s) inst) (\<lambda>(info, output_inst).
        rbind (packet_pack outputWidth (pk_out s) (pk_index s) output_inst) (\<lambda>out.
        Inr (s\<lparr>pk_info := info, pk_out := out, pk_index := pk_index s + 1\<rparr>))))"

text \<open>At the end of a packet it is popped, and the next one taken up if the stage may.\<close>

definition pack_wrap :: "'i stage_ops \<Rightarrow> bool \<Rightarrow> 'i pack_state \<Rightarrow> inst_data \<Rightarrow> 'i pack_state result" where
  "pack_wrap ops multi s insts_in =
     (if st_inputIndex (pk_info s) = numInsts insts_in then
        rbind (rassert (so_between ops (pk_info s))) (\<lambda>_.
        rbind (stage_popInput ops (pk_buf s) (pk_info s)) (\<lambda>(b, info).
        rbind (if multi then packet_getInput b else Inr None) (\<lambda>next_in.
        Inr (s\<lparr>pk_info := info, pk_buf := b, pk_in := next_in\<rparr>))))
      else Inr s)"

definition pack_step :: "'i stage_ops \<Rightarrow> u32 \<Rightarrow> bool \<Rightarrow> 'i pack_state \<Rightarrow> 'i pack_state result" where
  "pack_step ops outputWidth multi s =
     (case pk_in s of None \<Rightarrow> Inl NullDeref
      | Some insts_in \<Rightarrow>
        rbind (fi_inst insts_in (unat (st_inputIndex (pk_info s)))) (\<lambda>inst.
        rbind (pack_take ops outputWidth s inst) (\<lambda>s. pack_wrap ops multi s insts_in)))"

text \<open>The loop ends: an iteration fills an output slot, or leaves a packet behind, or steps over a bubble.\<close>

definition pack_order :: "u32 \<Rightarrow> ('i pack_state \<times> 'i pack_state) set" where
  "pack_order w = measures [\<lambda>s. unat w - unat (pk_index s), \<lambda>s. inputbuf_load (pk_buf s),
     \<lambda>s. case pk_in s of None \<Rightarrow> 0 | Some p \<Rightarrow> Suc (unat (numInsts p) - unat (st_inputIndex (pk_info s)))]"

lemma pack_order_wf: "wf (pack_order w)"
  by (simp add: pack_order_def)

lemma pack_take_frame:
  assumes "pack_take ops w s inst = Inr s'" "pk_index s < w"
  shows "pk_buf s' = pk_buf s" "pk_in s' = pk_in s"
    "pk_index s' = pk_index s \<and> pk_info s' = stage_stepInput ops (pk_info s) \<or>
     unat (pk_index s') = Suc (unat (pk_index s))"
  using assms by (auto simp: pack_take_def rbind_Inr_iff unat_inc split: if_splits)

lemma pack_wrap_order:
  assumes "pack_wrap ops multi s p = Inr s'" "pk_in s = Some p"
  shows "s' = s \<or> (s', s) \<in> pack_order w \<and> pk_index s' = pk_index s"
proof (cases "inputbuf_empty (pk_buf s)")
  case True
  with assms have "s' = s \<or> pk_in s' = None \<and> pk_index s' = pk_index s \<and> pk_buf s' = pk_buf s"
    by (auto simp: pack_wrap_def stage_popInput_def packet_getInput_def rbind_Inr_iff split: if_splits)
  with assms(2) show ?thesis by (auto simp: pack_order_def)
next
  case False
  with assms have "s' = s \<or> inputbuf_pop (pk_buf s) = Inr (pk_buf s') \<and> pk_index s' = pk_index s"
    by (auto simp: pack_wrap_def stage_popInput_def rbind_Inr_iff split: if_splits)
  then show ?thesis by (auto simp: pack_order_def dest: inputbuf_pop_load)
qed

lemma pack_step_order:
  assumes "pack_active w s" "pack_step ops w multi s = Inr s'"
  shows "(s', s) \<in> pack_order w"
proof -
  from assms obtain p inst s1 where p: "pk_in s = Some p" "st_inputIndex (pk_info s) < numInsts p"
    "pk_index s < w" "pack_take ops w s inst = Inr s1" "pack_wrap ops multi s1 p = Inr s'"
    by (auto simp: pack_active_def pack_step_def rbind_Inr_iff split: option.splits)
  note f = pack_take_frame [OF p(4,3)]
  have "unat (st_inputIndex (pk_info s) + 1) = Suc (unat (st_inputIndex (pk_info s)))"
    "unat (st_inputIndex (pk_info s)) < unat (numInsts p)"
    using p(2) by (simp_all add: unat_inc word_less_nat_alt)
  with f p have s1: "(s1, s) \<in> pack_order w"
    by (auto simp: pack_order_def stage_stepInput_def word_less_nat_alt)
  from pack_wrap_order [OF p(5), of w] f p have "s' = s1 \<or> (s', s1) \<in> pack_order w" by auto
  moreover have "trans (pack_order w)" by (rule transI) (auto simp: pack_order_def)
  ultimately show ?thesis using s1 by (auto dest: transD)
qed

function pack_while :: "'i stage_ops \<Rightarrow> u32 \<Rightarrow> bool \<Rightarrow> 'i pack_state \<Rightarrow> 'i pack_state result" where
  "pack_while ops outputWidth multi s =
     (if pack_active outputWidth s
      then rbind (pack_step ops outputWidth multi s) (pack_while ops outputWidth multi)
      else Inr s)"
  by pat_completeness auto

termination
proof (relation "{((o', w', m', s'), (ops, w, m, s)). w' = w \<and> (s', s) \<in> pack_order w}")
  show "wf {((o', w', m', s'), (ops :: 'i stage_ops, w, m :: bool, s)). w' = w \<and> (s', s) \<in> pack_order w}"
    by (rule wf_subset [of "measures [\<lambda>(o', w, m, s). unat w - unat (pk_index s),
        \<lambda>(o', w, m, s). inputbuf_load (pk_buf s), \<lambda>(o', w, m, s). case pk_in s of None \<Rightarrow> 0
          | Some p \<Rightarrow> Suc (unat (numInsts p) - unat (st_inputIndex (pk_info s)))]"])
      (auto simp: pack_order_def)
qed (simp add: pack_step_order)

declare pack_while.simps [simp del]

section \<open>One cycle\<close>

definition stage_getScheduledThread ::
  "(int list \<Rightarrow> int list) \<Rightarrow> thread_policy \<Rightarrow> int \<Rightarrow> 'i inst_stage \<Rightarrow> (int \<times> 'i inst_stage) result" where
  "stage_getScheduledThread shuffle policy numThreads d =
     rbind (pick_thread (\<lambda>tid. rbind (stage_getInput d tid) (\<lambda>input.
         if input = None then Inr False
         else rbind (arr_at (is_info d) tid) (\<lambda>info. Inr (\<not> st_blocked info))))
       (priority_list shuffle policy numThreads (is_threadPriority d))) (\<lambda>tid.
     Inr (tid, if tid = InvalidThreadID then d else d\<lparr>is_threadPriority := tid\<rparr>))"

definition stage_block ::
  "'a inputbuf list \<Rightarrow> 'i stage_info_scheme list \<Rightarrow> int \<Rightarrow> 'i stage_info_scheme list result" where
  "stage_block nextStageReserve infos tid =
     rbind (arr_at nextStageReserve tid) (\<lambda>b.
     rbind (arr_at infos tid) (\<lambda>info.
     arr_set infos tid (info\<lparr>st_blocked := \<not> inputbuf_canReserve b\<rparr>)))"

text \<open>The scheduled thread's work: pack instructions while there is input and room.\<close>

definition stage_thread ::
  "'i stage_ops \<Rightarrow> 'i inst_stage \<Rightarrow> inst_data \<Rightarrow> int \<Rightarrow> ('i inst_stage \<times> inst_data) result" where
  "stage_thread ops d insts_out tid =
     (if tid \<noteq> InvalidThreadID then
        rbind (arr_at (is_info d) tid) (\<lambda>info.
        rbind (arr_at (is_inputBuffer d) tid) (\<lambda>b.
        rbind (stage_getInput d tid) (\<lambda>insts_in.
        rbind (pack_while ops (is_outputWidth d) (is_processMoreThanOneInput d)
                 \<lparr>pk_info = info, pk_buf = b, pk_in = insts_in, pk_out = insts_out, pk_index = 0\<rparr>) (\<lambda>s.
        rbind (arr_set (is_info d) tid (pk_info s)) (\<lambda>infos.
        rbind (arr_set (is_inputBuffer d) tid (pk_buf s)) (\<lambda>bufs.
        Inr (d\<lparr>is_info := infos, is_inputBuffer := bufs\<rparr>, pk_out s)))))))
      else Inr (d, insts_out))"

definition stage_evaluate ::
  "'i stage_ops \<Rightarrow> (int list \<Rightarrow> int list) \<Rightarrow> thread_policy \<Rightarrow> int \<Rightarrow> 'i inst_stage \<Rightarrow>
    inst_data \<Rightarrow> inst_data \<Rightarrow> 'a inputbuf list \<Rightarrow> activity \<Rightarrow>
    ('i inst_stage \<times> inst_data \<times> 'a inputbuf list \<times> activity) result" where
  "stage_evaluate ops shuffle policy numThreads d inp insts_out nextStageReserve act =
     rbind (packet_setTail (is_inputBuffer d) inp) (\<lambda>bufs.
     let d = d\<lparr>is_inputBuffer := bufs\<rparr> in
     rbind (fi_isBubble insts_out) (\<lambda>bubble.
     rbind (rassert bubble) (\<lambda>_.
     rbind (rfold (stage_block nextStageReserve) (is_info d) [0..numThreads - 1]) (\<lambda>infos.
     let d = d\<lparr>is_info := infos\<rparr> in
     rbind (stage_getScheduledThread shuffle policy numThreads d) (\<lambda>(tid, d).
     rbind (stage_thread ops d insts_out tid) (\<lambda>(d, insts_out).
     rbind (stage_output insts_out tid nextStageReserve act) (\<lambda>(insts_out, nextStageReserve, act).
     rbind (stage_activate (so_stage ops) (\<lambda>i. rbind (stage_getInput d i) (\<lambda>x. Inr (x \<noteq> None)))
              nextStageReserve act [0..numThreads - 1]) (\<lambda>act.
     rbind (packet_pushTail (is_inputBuffer d) inp) (\<lambda>bufs.
     Inr (d\<lparr>is_inputBuffer := bufs\<rparr>, insts_out, nextStageReserve, act))))))))))"

definition stage_isDrained :: "'i inst_stage \<Rightarrow> inst_data \<Rightarrow> bool result" where
  "stage_isDrained d inp =
     (if list_all inputbuf_empty (is_inputBuffer d) then fi_isBubble inp else Inr False)"

text \<open>The stage over many cycles; the output latch is empty at the start of each.\<close>

fun stage_run ::
  "'i stage_ops \<Rightarrow> thread_policy \<Rightarrow> nat \<Rightarrow> 'i inst_stage \<Rightarrow> 'a cycle_env list \<Rightarrow> ('i inst_stage \<times> inst_data list) result" where
  "stage_run ops policy n d [] = Inr (d, [])"
| "stage_run ops policy n d (c # cs) =
     rbind (stage_evaluate ops (ce_shuffle c) policy (int n) d (ce_inp c) (fi_bubble 0) (ce_next c) (ce_act c)) (\<lambda>(d, out, _).
     rbind (stage_run ops policy n d cs) (\<lambda>(d, outs). Inr (d, out # outs)))"

section \<open>What the input still has to give\<close>

text \<open>\<open>exp\<close> is what an instruction turns into, \<open>cur\<close> what is left of the one being
  handled.\<close>

definition expand_packet :: "(dyn_inst \<Rightarrow> dyn_inst list) \<Rightarrow> inst_data \<Rightarrow> dyn_inst list" where
  "expand_packet exp p = concat (map exp (packet_insts p))"

definition expand_insts ::
  "('i stage_info_scheme \<Rightarrow> dyn_inst \<Rightarrow> dyn_inst list) \<Rightarrow> (dyn_inst \<Rightarrow> dyn_inst list) \<Rightarrow> 'i stage_info_scheme \<Rightarrow>
    dyn_inst list \<Rightarrow> dyn_inst list" where
  "expand_insts cur exp info insts =
     (case drop (unat (st_inputIndex info)) insts of [] \<Rightarrow> [] | i # is \<Rightarrow> cur info i @ concat (map exp is))"

definition owed ::
  "('i stage_info_scheme \<Rightarrow> dyn_inst \<Rightarrow> dyn_inst list) \<Rightarrow> (dyn_inst \<Rightarrow> dyn_inst list) \<Rightarrow> 'i stage_info_scheme \<Rightarrow>
    inst_data list \<Rightarrow> dyn_inst list" where
  "owed cur exp info ps =
     (case ps of [] \<Rightarrow> []
      | p # ps \<Rightarrow> expand_insts cur exp info (packet_insts p) @ concat (map (expand_packet exp) ps))"

definition stage_owes ::
  "('i stage_info_scheme \<Rightarrow> dyn_inst \<Rightarrow> dyn_inst list) \<Rightarrow> (dyn_inst \<Rightarrow> dyn_inst list) \<Rightarrow> 'i inst_stage \<Rightarrow> nat \<Rightarrow> dyn_inst list" where
  "stage_owes cur exp d t = owed cur exp (is_info d ! t) (inputbuf_items (is_inputBuffer d ! t))"

abbreviation pk_items :: "'i pack_state \<Rightarrow> inst_data list" where
  "pk_items s \<equiv> inputbuf_items (pk_buf s)"

definition pk_emitted :: "'i pack_state \<Rightarrow> dyn_inst list" where
  "pk_emitted s = map the (take (unat (pk_index s)) (fi_insts (pk_out s)))"

text \<open>
  The interface of the treatment of one instruction. \<open>good\<close> are the instructions the stage can
  handle, \<open>fresh\<close> says that none is half handled, \<open>at\<close> that the given one may be under way,
  and \<open>nxt\<close> is the number the next output gets. An instruction gives one output with that number;
  it is then used up, or under way with the rest still to come.
\<close>

locale pack_stage =
  fixes ops :: "'i stage_ops"
    and good :: "dyn_inst \<Rightarrow> bool"
    and fresh :: "'i stage_info_scheme \<Rightarrow> bool"
    and at :: "'i stage_info_scheme \<Rightarrow> dyn_inst \<Rightarrow> bool"
    and cur :: "'i stage_info_scheme \<Rightarrow> dyn_inst \<Rightarrow> dyn_inst list"
    and exp :: "dyn_inst \<Rightarrow> dyn_inst list"
    and nxt :: "'i stage_info_scheme \<Rightarrow> u64"
  assumes inst_law: "good i \<Longrightarrow> \<not> di_isBubble i \<Longrightarrow> at info i \<Longrightarrow>
      \<exists>info' x rest. so_inst ops info i = Inr (info', x\<lparr>di_id := (di_id x)\<lparr>execSeqNum := nxt info\<rparr>\<rparr>) \<and>
        \<not> di_isBubble x \<and> cur info i = x # rest \<and> nxt info' = nxt info + 1 \<and>
        (if fresh info' then st_inputIndex info' = st_inputIndex info + 1 \<and> rest = []
         else st_inputIndex info' = st_inputIndex info \<and> at info' i \<and> cur info' i = rest)"
    and fresh_law: "fresh info \<Longrightarrow> at info i \<and> cur info i = exp i"
    and bubble_law: "di_isBubble i \<Longrightarrow> exp i = [] \<and> (at info i \<longrightarrow> fresh info)"
    and restart_law: "fresh (so_restart ops info) \<and> nxt (so_restart ops info) = nxt info"
    and between_law: "fresh info \<Longrightarrow> so_between ops info"
    and index_law: "fresh (info\<lparr>st_inputIndex := k\<rparr>) = fresh info" "nxt (info\<lparr>st_inputIndex := k\<rparr>) = nxt info"
    and blocked_law: "fresh (info\<lparr>st_blocked := c\<rparr>) = fresh info" "nxt (info\<lparr>st_blocked := c\<rparr>) = nxt info"
      "at (info\<lparr>st_blocked := c\<rparr>) i = at info i" "cur (info\<lparr>st_blocked := c\<rparr>) i = cur info i"
begin

definition info_ok :: "'i stage_info_scheme \<Rightarrow> inst_data list \<Rightarrow> bool" where
  "info_ok info ps \<longleftrightarrow>
     (case ps of [] \<Rightarrow> st_inputIndex info = 0 \<and> fresh info
      | p # _ \<Rightarrow> st_inputIndex info < numInsts p \<and> at info (packet_insts p ! unat (st_inputIndex info)))"

definition thread_ok :: "'i stage_info_scheme \<Rightarrow> inst_data inputbuf \<Rightarrow> bool" where
  "thread_ok info b \<longleftrightarrow> inputbuf_wf fi_isB b \<and> list_all (packet_ok good) (inputbuf_items b) \<and> info_ok info (inputbuf_items b)"

definition pk_pending :: "'i pack_state \<Rightarrow> dyn_inst list" where
  "pk_pending s = number (nxt (pk_info s)) (owed cur exp (pk_info s) (pk_items s))"

text \<open>The output side of the loop: \<open>n\<close> is the first number of the cycle.\<close>

definition out_ok :: "u32 \<Rightarrow> u64 \<Rightarrow> 'i pack_state \<Rightarrow> bool" where
  "out_ok w n s \<longleftrightarrow> unat w < MAX_FORWARD_INSTS \<and> unat (pk_index s) = length (pk_emitted s) \<and>
     packed w (pk_out s) (pk_emitted s) \<and> nxt (pk_info s) = n + of_nat (length (pk_emitted s))"

definition loop_ok :: "u32 \<Rightarrow> bool \<Rightarrow> u64 \<Rightarrow> bool \<Rightarrow> 'i pack_state \<Rightarrow> bool" where
  "loop_ok w multi n r s \<longleftrightarrow> out_ok w n s \<and> thread_ok (pk_info s) (pk_buf s) \<and> (r \<longrightarrow> inputbuf_ready (pk_buf s)) \<and>
     (pk_in s = None \<and> (multi \<longrightarrow> pk_items s = []) \<or> (\<exists>ps. pk_items s = the (pk_in s) # ps \<and> pk_in s \<noteq> None))"

text \<open>The state between taking an instruction and wrapping to the next packet.\<close>

definition taken_ok :: "bool \<Rightarrow> 'i pack_state \<Rightarrow> inst_data \<Rightarrow> bool" where
  "taken_ok r s p \<longleftrightarrow> inputbuf_wf fi_isB (pk_buf s) \<and> (r \<longrightarrow> inputbuf_ready (pk_buf s)) \<and>
     list_all (packet_ok good) (pk_items s) \<and> (\<exists>ps. pk_items s = p # ps) \<and> pk_in s = Some p \<and>
     (if st_inputIndex (pk_info s) = numInsts p then fresh (pk_info s)
      else st_inputIndex (pk_info s) < numInsts p \<and> at (pk_info s) (packet_insts p ! unat (st_inputIndex (pk_info s))))"

lemma expand_insts_step:
  assumes "k < length is" "unat (st_inputIndex info) = k"
  shows "expand_insts cur exp info is = cur info (is ! k) @ concat (map exp (drop (Suc k) is))"
  using assms by (simp add: expand_insts_def Cons_nth_drop_Suc [symmetric])

lemma expand_insts_fresh:
  "fresh info \<Longrightarrow> expand_insts cur exp info is = concat (map exp (drop (unat (st_inputIndex info)) is))"
  by (simp add: expand_insts_def fresh_law split: list.split)

lemma info_moved:
  assumes "packet_ok good p" "st_inputIndex info < numInsts p" "unat (st_inputIndex info) = k"
    and "if fresh info' then st_inputIndex info' = st_inputIndex info + 1 \<and> rest = []
         else st_inputIndex info' = st_inputIndex info \<and> at info' (packet_insts p ! k) \<and> cur info' (packet_insts p ! k) = rest"
  shows "expand_insts cur exp info' (packet_insts p) = rest @ concat (map exp (drop (Suc k) (packet_insts p)))"
    "if st_inputIndex info' = numInsts p then fresh info'
     else st_inputIndex info' < numInsts p \<and> at info' (packet_insts p ! unat (st_inputIndex info'))"
proof -
  have k: "k < length (packet_insts p)" "unat (st_inputIndex info + 1) = Suc k"
    using assms by (simp_all add: packet_ok_def packet_insts_length word_less_nat_alt unat_inc)
  show "expand_insts cur exp info' (packet_insts p) = rest @ concat (map exp (drop (Suc k) (packet_insts p)))"
    using k assms(3,4) by (auto simp: expand_insts_step expand_insts_fresh split: if_splits)
  have "st_inputIndex info + 1 \<le> numInsts p"
    using k assms(1) by (simp add: word_le_nat_alt packet_insts_length packet_ok_def)
  with k assms show "if st_inputIndex info' = numInsts p then fresh info'
     else st_inputIndex info' < numInsts p \<and> at info' (packet_insts p ! unat (st_inputIndex info'))"
    by (auto simp: fresh_law order_less_le split: if_splits)
qed

lemma out_ok_emit:
  assumes "out_ok w n s" "pk_index s < w" "\<not> di_isBubble x" "nxt info = nxt (pk_info s) + 1"
  shows "\<exists>out. packet_pack w (pk_out s) (pk_index s) x = Inr out \<and>
    out_ok w n (s\<lparr>pk_info := info, pk_out := out, pk_index := pk_index s + 1\<rparr>) \<and>
    pk_emitted (s\<lparr>pk_info := info, pk_out := out, pk_index := pk_index s + 1\<rparr>) = pk_emitted s @ [x]"
proof -
  let ?xs = "pk_emitted s"
  have len: "length ?xs = unat (pk_index s)" using assms(1) by (simp add: out_ok_def)
  then have of: "of_nat (length ?xs) = pk_index s" by simp
  have lt: "length ?xs < unat w" using len assms(2) by (simp add: word_less_nat_alt)
  from assms(1,3) lt obtain out where out: "packet_pack w (pk_out s) (pk_index s) x = Inr out" "packed w out (?xs @ [x])"
    using packet_pack_ok [of w "pk_out s" ?xs x] of by (auto simp: out_ok_def)
  have u: "unat (pk_index s + 1) = Suc (length ?xs)" using assms(2) len by (simp add: unat_inc)
  have "take (Suc (length ?xs)) (take (unat w) (fi_insts out)) = map Some (?xs @ [x])"
    using out(2) lt by (simp add: packed_def)
  then have "take (Suc (length ?xs)) (fi_insts out) = map Some (?xs @ [x])" using lt by (simp add: min_def)
  then have em: "pk_emitted (s\<lparr>pk_info := info, pk_out := out, pk_index := pk_index s + 1\<rparr>) = ?xs @ [x]"
    by (simp add: pk_emitted_def u comp_def)
  with out u assms(1,4) show ?thesis by (auto simp: out_ok_def)
qed

lemma pack_take_ok:
  assumes "loop_ok w multi n r s" "pack_active w s" "pk_in s = Some p"
  shows "\<exists>s'. pack_take ops w s (packet_insts p ! unat (st_inputIndex (pk_info s))) = Inr s' \<and>
    out_ok w n s' \<and> taken_ok r s' p \<and> pk_emitted s' @ pk_pending s' = pk_emitted s @ pk_pending s"
proof -
  let ?info = "pk_info s" and ?k = "unat (st_inputIndex (pk_info s))"
  let ?i = "packet_insts p ! ?k" and ?rest = "concat (map exp (drop (Suc ?k) (packet_insts p)))"
  from assms obtain ps where ps: "pk_items s = p # ps" by (auto simp: loop_ok_def)
  with assms have ok: "inputbuf_wf fi_isB (pk_buf s)" "list_all (packet_ok good) (p # ps)" "packet_ok good p" "out_ok w n s"
    "at ?info ?i" "r \<Longrightarrow> inputbuf_ready (pk_buf s)"
    by (auto simp: loop_ok_def thread_ok_def info_ok_def)
  have act: "st_inputIndex ?info < numInsts p" "pk_index s < w" using assms(2,3) by (auto simp: pack_active_def)
  have k: "?k < length (packet_insts p)"
    using act ok(3) by (simp add: packet_ok_def packet_insts_length word_less_nat_alt)
  then have i: "good ?i" using ok(3) by (simp add: packet_ok_def list_all_length)
  have now: "expand_insts cur exp ?info (packet_insts p) = cur ?info ?i @ ?rest"
    by (rule expand_insts_step [OF k]) simp
  show ?thesis
  proof (cases "di_isBubble ?i")
    case True
    have fr: "fresh ?info" using bubble_law [OF True] ok(5) by blast
    let ?info' = "stage_stepInput ops ?info"
    have info': "fresh ?info'" "nxt ?info' = nxt ?info" "st_inputIndex ?info' = st_inputIndex ?info + 1"
      using restart_law [of ?info] by (simp_all add: stage_stepInput_def index_law)
    then have "if fresh ?info' then st_inputIndex ?info' = st_inputIndex ?info + 1 \<and> [] = []
         else st_inputIndex ?info' = st_inputIndex ?info \<and> at ?info' ?i \<and> cur ?info' ?i = []" by simp
    note m = info_moved [OF ok(3) act(1) refl this]
    from now fr bubble_law [OF True] m(1) have "expand_insts cur exp ?info' (packet_insts p) = expand_insts cur exp ?info (packet_insts p)"
      by (simp add: fresh_law)
    with True ok ps assms(3) m(2) info'(2) show ?thesis
      by (auto simp: pack_take_def taken_ok_def pk_pending_def owed_def out_ok_def pk_emitted_def)
  next
    case False
    from inst_law [OF i False ok(5)] obtain info' x rest where d: "so_inst ops ?info ?i =
        Inr (info', x\<lparr>di_id := (di_id x)\<lparr>execSeqNum := nxt ?info\<rparr>\<rparr>)" "\<not> di_isBubble x"
      "cur ?info ?i = x # rest" "nxt info' = nxt ?info + 1"
      "if fresh info' then st_inputIndex info' = st_inputIndex ?info + 1 \<and> rest = []
         else st_inputIndex info' = st_inputIndex ?info \<and> at info' ?i \<and> cur info' ?i = rest" by blast
    let ?x = "x\<lparr>di_id := (di_id x)\<lparr>execSeqNum := nxt ?info\<rparr>\<rparr>"
    have "\<not> di_isBubble ?x" using d(2) by (simp add: di_isBubble_def)
    from out_ok_emit [OF ok(4) act(2) this d(4)] obtain out where out: "packet_pack w (pk_out s) (pk_index s) ?x = Inr out"
      "out_ok w n (s\<lparr>pk_info := info', pk_out := out, pk_index := pk_index s + 1\<rparr>)"
      "pk_emitted (s\<lparr>pk_info := info', pk_out := out, pk_index := pk_index s + 1\<rparr>) = pk_emitted s @ [?x]" by blast
    note m = info_moved [OF ok(3) act(1) refl d(5)]
    show ?thesis using False d(1-4) out m now ok ps assms(3)
      by (auto simp: pack_take_def taken_ok_def pk_pending_def owed_def)
  qed
qed

lemma pack_wrap_ok:
  assumes "out_ok w n s" "taken_ok r s p"
  shows "\<exists>s'. pack_wrap ops multi s p = Inr s' \<and> loop_ok w multi n r s' \<and>
    pk_emitted s' = pk_emitted s \<and> pk_pending s' = pk_pending s"
proof (cases "st_inputIndex (pk_info s) = numInsts p")
  case True
  from assms(2) obtain ps where ps: "pk_items s = p # ps" "inputbuf_wf fi_isB (pk_buf s)" "list_all (packet_ok good) (p # ps)"
    "fresh (pk_info s)" using True by (auto simp: taken_ok_def)
  then obtain b where b: "inputbuf_pop (pk_buf s) = Inr b" "inputbuf_wf fi_isB b" "inputbuf_items b = ps"
    using ibf.take_items [of fi_isB "pk_buf s"] by auto
  let ?info = "(so_restart ops (pk_info s))\<lparr>st_inputIndex := 0\<rparr>"
  let ?in = "if multi then (case ps of [] \<Rightarrow> None | q # _ \<Rightarrow> Some q) else None"
  have info: "fresh ?info" "nxt ?info = nxt (pk_info s)" "st_inputIndex ?info = 0"
    using restart_law [of "pk_info s"] by (simp_all add: index_law)
  have get: "packet_getInput b = Inr (case ps of [] \<Rightarrow> None | q # _ \<Rightarrow> Some q)"
    using packet_getInput_items [OF b(2), of good] b ps by simp
  have w: "pack_wrap ops multi s p = Inr (s\<lparr>pk_info := ?info, pk_buf := b, pk_in := ?in\<rparr>)"
    using True b ps get by (simp add: pack_wrap_def stage_popInput_def inputbuf_empty_iff between_law)
  have "owed cur exp (pk_info s) (p # ps) = concat (map (expand_packet exp) ps)"
    using True ps by (simp add: owed_def expand_insts_def packet_insts_length packet_ok_def)
  moreover have "owed cur exp ?info ps = concat (map (expand_packet exp) ps)"
    using info by (simp add: owed_def expand_insts_fresh expand_packet_def split: list.split)
  moreover have "thread_ok ?info b"
    using b ps info by (auto simp: thread_ok_def info_ok_def fresh_law dest: packet_ok_head(2) split: list.split)
  moreover have "inputbuf_ready b" using b(1) by (rule inputbuf_pop_ready)
  ultimately show ?thesis using w assms(1) b(3) ps(1) info(2)
    by (auto simp: loop_ok_def out_ok_def pk_emitted_def pk_pending_def split: list.splits)
next
  case False
  with assms show ?thesis by (auto simp: pack_wrap_def loop_ok_def taken_ok_def thread_ok_def info_ok_def)
qed

lemma pack_step_ok:
  assumes "loop_ok w multi n r s" "pack_active w s"
  shows "\<exists>s'. pack_step ops w multi s = Inr s' \<and> loop_ok w multi n r s' \<and> (s', s) \<in> pack_order w \<and>
    pk_emitted s' @ pk_pending s' = pk_emitted s @ pk_pending s"
proof -
  from assms obtain p ps where p: "pk_in s = Some p" "pk_items s = p # ps" "packet_ok good p"
    by (auto simp: pack_active_def loop_ok_def thread_ok_def split: option.splits)
  from pack_take_ok [OF assms p(1)] obtain s1 where
    s1: "pack_take ops w s (packet_insts p ! unat (st_inputIndex (pk_info s))) = Inr s1" "out_ok w n s1" "taken_ok r s1 p"
      "pk_emitted s1 @ pk_pending s1 = pk_emitted s @ pk_pending s" by blast
  from pack_wrap_ok [OF s1(2,3)] obtain s2 where s2: "pack_wrap ops multi s1 p = Inr s2" "loop_ok w multi n r s2"
    "pk_emitted s2 = pk_emitted s1" "pk_pending s2 = pk_pending s1" by blast
  have "fi_inst p (unat (st_inputIndex (pk_info s))) = Inr (packet_insts p ! unat (st_inputIndex (pk_info s)))"
    using assms(2) p by (intro fi_inst_packet) (auto simp: packet_ok_def pack_active_def word_less_nat_alt)
  with p s1 s2 have "pack_step ops w multi s = Inr s2" by (simp add: pack_step_def)
  with pack_step_order [OF assms(2)] s1 s2 show ?thesis by auto
qed

end

sublocale pack_stage \<subseteq> pwl: packing_loop "pack_while ops w multi" "pack_active w" "pack_step ops w multi"
  "loop_ok w multi n r" pk_emitted pk_pending "pack_order w" for w multi n r
  by unfold_locales (rule pack_while.simps pack_order_wf pack_step_ok; assumption?)+

context pack_stage
begin

text \<open>What a thread of the stage did: \<open>xs\<close> are the instructions it sent.\<close>

definition thread_sent ::
  "u32 \<Rightarrow> bool \<Rightarrow> 'i stage_info_scheme \<times> inst_data inputbuf \<Rightarrow> 'i stage_info_scheme \<times> inst_data inputbuf \<Rightarrow> dyn_inst list \<Rightarrow> bool" where
  "thread_sent w multi before after xs \<longleftrightarrow>
     (multi \<and> xs \<noteq> [] \<longrightarrow> xs = take (unat w) (number (nxt (fst before)) (owed cur exp (fst before) (inputbuf_items (snd before))))) \<and>
     nxt (fst after) = nxt (fst before) + of_nat (length xs) \<and>
     xs @ number (nxt (fst after)) (owed cur exp (fst after) (inputbuf_items (snd after))) =
     number (nxt (fst before)) (owed cur exp (fst before) (inputbuf_items (snd before)))"

lemma pack_while_ok:
  assumes "unat w < MAX_FORWARD_INSTS" "packed w out []" "thread_ok info b"
  shows "\<exists>s. pack_while ops w multi \<lparr>pk_info = info, pk_buf = b,
      pk_in = (case inputbuf_items b of [] \<Rightarrow> None | p # _ \<Rightarrow> Some p), pk_out = out, pk_index = 0\<rparr> = Inr s \<and>
    thread_ok (pk_info s) (pk_buf s) \<and> (inputbuf_ready b \<longrightarrow> inputbuf_ready (pk_buf s)) \<and>
    packed w (pk_out s) (pk_emitted s) \<and> thread_sent w multi (info, b) (pk_info s, pk_buf s) (pk_emitted s)"
proof -
  let ?s = "\<lparr>pk_info = info, pk_buf = b, pk_in = (case inputbuf_items b of [] \<Rightarrow> None | p # _ \<Rightarrow> Some p),
    pk_out = out, pk_index = 0\<rparr>"
  let ?n = "nxt info" and ?r = "inputbuf_ready b"
  have "loop_ok w multi ?n ?r ?s"
    using assms by (auto simp: loop_ok_def out_ok_def pk_emitted_def split: list.split)
  from pwl.loop_law [OF this] obtain s where s: "pack_while ops w multi ?s = Inr s" "loop_ok w multi ?n ?r s"
    "\<not> pack_active w s" "pk_emitted s @ pk_pending s = pk_emitted ?s @ pk_pending ?s" by blast
  have start: "pk_emitted ?s = []" "pk_pending ?s = number ?n (owed cur exp info (inputbuf_items b))"
    by (simp_all add: pk_emitted_def pk_pending_def)
  have le: "length (pk_emitted s) \<le> unat w" using s(2) by (simp add: loop_ok_def out_ok_def packed_def)
  have "pk_pending s = [] \<or> length (pk_emitted s) = unat w" if multi
  proof (cases "pk_in s")
    case None
    with s(2) that show ?thesis by (auto simp: loop_ok_def pk_pending_def owed_def)
  next
    case (Some p)
    with s(2) have "st_inputIndex (pk_info s) < numInsts p" by (auto simp: loop_ok_def thread_ok_def info_ok_def)
    with Some s(2,3) le show ?thesis by (auto simp: pack_active_def loop_ok_def out_ok_def word_less_nat_alt)
  qed
  with le have "multi \<longrightarrow> pk_emitted s = take (unat w) (pk_emitted s @ pk_pending s)" by auto
  with s start show ?thesis by (auto simp: loop_ok_def out_ok_def thread_sent_def pk_pending_def)
qed

section \<open>The invariant of the stage\<close>

definition stage_wf :: "nat \<Rightarrow> 'i inst_stage \<Rightarrow> bool" where
  "stage_wf n d \<longleftrightarrow> 0 < n \<and> unat (is_outputWidth d) < MAX_FORWARD_INSTS \<and>
     buffers_ok n (is_inputBuffer d) \<and> list_all inputbuf_ready (is_inputBuffer d) \<and> length (is_info d) = n \<and>
     (\<forall>t < n. thread_ok (is_info d ! t) (is_inputBuffer d ! t))"

text \<open>The invariant during a cycle, when the wire's packet may sit at the tail of its buffer.\<close>

definition stage_mid :: "nat \<Rightarrow> inst_data \<Rightarrow> 'i inst_stage \<Rightarrow> bool" where
  "stage_mid n inp d \<longleftrightarrow> 0 < n \<and> unat (is_outputWidth d) < MAX_FORWARD_INSTS \<and>
     buffers_ok n (is_inputBuffer d) \<and> length (is_info d) = n \<and>
     (\<forall>t < n. thread_ok (is_info d ! t) (is_inputBuffer d ! t) \<and>
        (arrived inp t = [] \<longrightarrow> inputbuf_ready (is_inputBuffer d ! t)))"

abbreviation seq :: "'i inst_stage \<Rightarrow> nat \<Rightarrow> u64" where
  "seq d t \<equiv> nxt (is_info d ! t)"

lemma stage_getInput_mid:
  assumes "stage_mid n inp d" "0 \<le> tid" "tid < int n"
  shows "stage_getInput d tid = Inr (case inputbuf_items (is_inputBuffer d ! nat tid) of [] \<Rightarrow> None | p # _ \<Rightarrow> Some p)"
proof -
  from assms have t: "nat tid < n" "length (is_inputBuffer d) = n" "thread_ok (is_info d ! nat tid) (is_inputBuffer d ! nat tid)"
    by (auto simp: stage_mid_def buffers_ok_def)
  then show ?thesis
    using packet_getInput_items [of "is_inputBuffer d ! nat tid" good] assms(2)
    by (simp add: stage_getInput_def thread_ok_def)
qed

lemma stage_thread_ok:
  assumes "stage_mid n inp d" "0 \<le> tid" "tid < int n" "packed (is_outputWidth d) out []"
  shows "\<exists>info b out' xs. stage_thread ops d out tid =
      Inr (d\<lparr>is_info := (is_info d)[nat tid := info], is_inputBuffer := (is_inputBuffer d)[nat tid := b]\<rparr>, out') \<and>
    stage_mid n inp (d\<lparr>is_info := (is_info d)[nat tid := info], is_inputBuffer := (is_inputBuffer d)[nat tid := b]\<rparr>) \<and>
    packed (is_outputWidth d) out' xs \<and>
    thread_sent (is_outputWidth d) (is_processMoreThanOneInput d) (is_info d ! nat tid, is_inputBuffer d ! nat tid) (info, b) xs"
proof -
  let ?t = "nat tid"
  from assms have d: "?t < n" "?t < length (is_inputBuffer d)" "?t < length (is_info d)" "tid \<noteq> InvalidThreadID"
    "unat (is_outputWidth d) < MAX_FORWARD_INSTS" "thread_ok (is_info d ! ?t) (is_inputBuffer d ! ?t)"
    by (auto simp: stage_mid_def buffers_ok_def InvalidThreadID_def)
  from pack_while_ok [OF d(5) assms(4) d(6), of "is_processMoreThanOneInput d"] obtain s where
    s: "pack_while ops (is_outputWidth d) (is_processMoreThanOneInput d) \<lparr>pk_info = is_info d ! ?t,
        pk_buf = is_inputBuffer d ! ?t, pk_in = (case inputbuf_items (is_inputBuffer d ! ?t) of [] \<Rightarrow> None | p # _ \<Rightarrow> Some p),
        pk_out = out, pk_index = 0\<rparr> = Inr s"
      "thread_ok (pk_info s) (pk_buf s)" "inputbuf_ready (is_inputBuffer d ! ?t) \<longrightarrow> inputbuf_ready (pk_buf s)"
      "packed (is_outputWidth d) (pk_out s) (pk_emitted s)"
      "thread_sent (is_outputWidth d) (is_processMoreThanOneInput d) (is_info d ! ?t, is_inputBuffer d ! ?t) (pk_info s, pk_buf s) (pk_emitted s)"
    by blast
  let ?d = "d\<lparr>is_info := (is_info d)[?t := pk_info s], is_inputBuffer := (is_inputBuffer d)[?t := pk_buf s]\<rparr>"
  have "stage_thread ops d out tid = Inr (?d, pk_out s)"
    using d s(1) assms(2) by (simp add: stage_thread_def stage_getInput_mid [OF assms(1-3)])
  moreover have "stage_mid n inp ?d"
    using assms(1) s(2,3) d(1) by (auto simp: stage_mid_def buffers_ok_def thread_ok_def list_all_length nth_list_update)
  ultimately show ?thesis using s(4,5) by blast
qed

lemma stage_block_ok:
  assumes "length infos = n" "length nx = n"
  shows "\<exists>infos'. rfold (stage_block nx) infos [0..int n - 1] = Inr infos' \<and> length infos' = n \<and>
    (\<forall>t < n. \<exists>b. infos' ! t = (infos ! t :: 'i stage_info_scheme)\<lparr>st_blocked := b\<rparr>)"
proof -
  let ?P = "\<lambda>i infos'. length infos' = n \<and> (\<forall>t < n. \<exists>b. infos' ! t = (infos ! t)\<lparr>st_blocked := b\<rparr>)"
  have "\<exists>b. info = info\<lparr>st_blocked := b\<rparr>" for info :: "'i stage_info_scheme" by (rule exI [of _ "st_blocked info"]) simp
  with assms(1) have "?P 0 infos" by blast
  moreover have "\<exists>s'. stage_block nx s ([0..int n - 1] ! i) = Inr s' \<and> ?P (Suc i) s'"
    if il: "i < length [0..int n - 1]" and Pi: "?P i s" for i s
  proof -
    have "[0..int n - 1] ! i = int i" "i < n" using il by (simp_all add: nth_upto)
    moreover obtain b where "s ! i = (infos ! i)\<lparr>st_blocked := b\<rparr>" using Pi \<open>i < n\<close> by blast
    ultimately show ?thesis using Pi assms by (auto simp: stage_block_def nth_list_update)
  qed
  ultimately show ?thesis using rfold_invariant [of ?P infos "[0..int n - 1]" "stage_block nx"] by blast
qed

lemma blocked_irrelevant [simp]:
  "owed cur exp (info\<lparr>st_blocked := x\<rparr>) ps = owed cur exp info ps"
  "info_ok (info\<lparr>st_blocked := x\<rparr>) ps = info_ok info ps"
  by (simp_all add: owed_def expand_insts_def info_ok_def blocked_law split: list.split)

lemma owed_arrived:
  assumes "info_ok info ps"
  shows "owed cur exp info (ps @ arrived inp t) = owed cur exp info ps @ concat (map (expand_packet exp) (arrived inp t))"
  using assms
  by (cases ps) (auto simp: owed_def arrived_def info_ok_def expand_insts_fresh expand_packet_def)

lemma info_ok_arrived:
  assumes "info_ok info ps" "arrival_ok good n inp" "list_all (packet_ok good) ps"
  shows "info_ok info (ps @ arrived inp t)" "list_all (packet_ok good) (ps @ arrived inp t)"
  using assms packet_ok_head(2) [of good inp]
  by (auto simp: info_ok_def arrived_def arrival_ok_def fi_isB_def fresh_law split: list.splits)

lemma stage_scheduled_ok:
  assumes "stage_mid n inp d" "shuffles shuffle"
  shows "\<exists>tid. (tid = InvalidThreadID \<and> stage_getScheduledThread shuffle policy (int n) d = Inr (tid, d) \<or>
      0 \<le> tid \<and> tid < int n \<and> stage_getScheduledThread shuffle policy (int n) d = Inr (tid, d\<lparr>is_threadPriority := tid\<rparr>))"
proof -
  let ?ready = "\<lambda>tid. rbind (stage_getInput d tid) (\<lambda>input.
         if input = None then Inr False
         else rbind (arr_at (is_info d) tid) (\<lambda>info. Inr (\<not> st_blocked info)))"
  let ?ts = "priority_list shuffle policy (int n) (is_threadPriority d)"
  have range: "0 \<le> t \<and> t < int n" if "t \<in> set ?ts" for t
    using priority_list_threads [OF _ assms(2) that] assms(1) by (simp add: stage_mid_def)
  have "\<exists>r. ?ready t = Inr r" if "t \<in> set ?ts" for t
  proof -
    have t: "0 \<le> t" "t < int n" using range [OF that] by auto
    then have "nat t < length (is_info d)" using assms(1) by (auto simp: stage_mid_def)
    with t show ?thesis by (auto simp: stage_getInput_mid [OF assms(1) t])
  qed
  then have "\<forall>t \<in> set ?ts. \<exists>r. ?ready t = Inr r" by blast
  from pick_thread_ok [OF this] obtain tid where t: "pick_thread ?ready ?ts = Inr tid" "tid = InvalidThreadID \<or> tid \<in> set ?ts"
    by blast
  have "stage_getScheduledThread shuffle policy (int n) d =
      Inr (tid, if tid = InvalidThreadID then d else d\<lparr>is_threadPriority := tid\<rparr>)"
    unfolding stage_getScheduledThread_def t(1) by simp
  with t(2) range [of tid] show ?thesis by (intro exI [of _ tid]) (auto simp: InvalidThreadID_def)
qed

lemma stage_priority_irrelevant [simp]:
  "stage_mid n inp (d\<lparr>is_threadPriority := x\<rparr>) = stage_mid n inp d"
  by (simp add: stage_mid_def)

text \<open>Taking in the wire and the next stage's reservations.\<close>

lemma stage_begin_ok:
  assumes "stage_wf n d" "arrival_ok good n inp" "length nx = n"
  shows "\<exists>bufs infos. packet_setTail (is_inputBuffer d) inp = Inr bufs \<and>
    rfold (stage_block nx) (is_info d) [0..int n - 1] = Inr infos \<and>
    stage_mid n inp (d\<lparr>is_inputBuffer := bufs, is_info := infos\<rparr>) \<and>
    (\<forall>t < n. nxt (infos ! t) = seq d t \<and> owed cur exp (infos ! t) (inputbuf_items (bufs ! t)) =
       stage_owes cur exp d t @ concat (map (expand_packet exp) (arrived inp t)))"
proof -
  from assms(1) have d: "buffers_ok n (is_inputBuffer d)" "list_all inputbuf_ready (is_inputBuffer d)"
    "length (is_info d) = n" by (simp_all add: stage_wf_def)
  from packet_setTail_ok [OF d(1,2) assms(2)] obtain bufs where b: "packet_setTail (is_inputBuffer d) inp = Inr bufs"
    "buffers_ok n bufs" "\<forall>t < n. inputbuf_items (bufs ! t) = inputbuf_items (is_inputBuffer d ! t) @ arrived inp t \<and>
      (arrived inp t = [] \<longrightarrow> inputbuf_ready (bufs ! t))" by blast
  from stage_block_ok [OF d(3) assms(3)] obtain infos where i: "rfold (stage_block nx) (is_info d) [0..int n - 1] = Inr infos"
    "length infos = n" "\<forall>t < n. \<exists>b. infos ! t = (is_info d ! t)\<lparr>st_blocked := b\<rparr>" by blast
  have t: "thread_ok (infos ! t) (bufs ! t) \<and> nxt (infos ! t) = seq d t \<and>
      owed cur exp (infos ! t) (inputbuf_items (bufs ! t)) =
        stage_owes cur exp d t @ concat (map (expand_packet exp) (arrived inp t))" if "t < n" for t
  proof -
    from that assms(1) have ok: "info_ok (is_info d ! t) (inputbuf_items (is_inputBuffer d ! t))"
      "list_all (packet_ok good) (inputbuf_items (is_inputBuffer d ! t))"
      by (auto simp: stage_wf_def thread_ok_def)
    from that i(3) obtain c where c: "infos ! t = (is_info d ! t)\<lparr>st_blocked := c\<rparr>" by blast
    from that b(2) have "inputbuf_wf fi_isB (bufs ! t)" by (simp add: buffers_ok_def list_all_length)
    with info_ok_arrived [OF ok(1) assms(2) ok(2), of t] b(3) that c owed_arrived [OF ok(1), of inp t]
    show ?thesis by (simp add: thread_ok_def stage_owes_def blocked_law)
  qed
  with assms(1) b i show ?thesis by (auto simp: stage_mid_def stage_wf_def)
qed

text \<open>The work of a cycle between taking in the wire and handing out the result.\<close>

lemma stage_work_ok:
  assumes "stage_mid n inp d" "shuffles shuffle" "packed (is_outputWidth d) out []" "length nx = n" "recorder_ok act"
  shows "\<exists>tid d1 d2 out1 out2 nx' act1.
    stage_getScheduledThread shuffle policy (int n) d = Inr (tid, d1) \<and> stage_thread ops d1 out tid = Inr (d2, out1) \<and>
    stage_output out1 tid nx act = Inr (out2, nx', act1) \<and> stage_mid n inp d2 \<and> recorder_ok act1 \<and>
    length nx' = n \<and> arrival_ok (\<lambda>_. True) n out2 \<and>
    is_outputWidth d2 = is_outputWidth d \<and> is_processMoreThanOneInput d2 = is_processMoreThanOneInput d \<and>
    (\<forall>t < n. thread_sent (is_outputWidth d) (is_processMoreThanOneInput d) (is_info d ! t, is_inputBuffer d ! t)
       (is_info d2 ! t, is_inputBuffer d2 ! t) (sent out2 t))"
proof -
  from stage_scheduled_ok [OF assms(1,2), of policy] obtain tid d1 where
    t: "stage_getScheduledThread shuffle policy (int n) d = Inr (tid, d1)" "stage_mid n inp d1"
      "is_info d1 = is_info d" "is_inputBuffer d1 = is_inputBuffer d" "is_outputWidth d1 = is_outputWidth d"
      "is_processMoreThanOneInput d1 = is_processMoreThanOneInput d"
      "tid = InvalidThreadID \<or> 0 \<le> tid \<and> tid < int n" using assms(1) by fastforce
  have w: "unat (is_outputWidth d) < MAX_FORWARD_INSTS" using assms(1) by (simp add: stage_mid_def)
  show ?thesis
  proof (cases "tid = InvalidThreadID")
    case True
    from stage_output_ok [OF assms(3) w assms(5), of tid nx] True t assms(4) show ?thesis
      by (fastforce simp: stage_thread_def thread_sent_def InvalidThreadID_def)
  next
    case False
    with t(7) have r: "0 \<le> tid" "tid < int n" by auto
    from stage_thread_ok [OF t(2) r, of out] assms(3) t(3-6) obtain info b out1 xs where
      x: "stage_thread ops d1 out tid = Inr (d1\<lparr>is_info := (is_info d1)[nat tid := info],
            is_inputBuffer := (is_inputBuffer d1)[nat tid := b]\<rparr>, out1)"
        "stage_mid n inp (d1\<lparr>is_info := (is_info d1)[nat tid := info], is_inputBuffer := (is_inputBuffer d1)[nat tid := b]\<rparr>)"
        "packed (is_outputWidth d) out1 xs"
        "thread_sent (is_outputWidth d) (is_processMoreThanOneInput d) (is_info d ! nat tid, is_inputBuffer d ! nat tid) (info, b) xs"
      by auto
    have "nat tid < length nx" using r assms(4) by linarith
    with stage_output_ok [OF x(3) w assms(5), of tid nx] r assms(4) obtain out2 nx' act1 where
      o: "stage_output out1 tid nx act = Inr (out2, nx', act1)" "recorder_ok act1" "length nx' = n"
        "\<forall>t. sent out2 t = (if int t = tid then xs else [])" "arrival_ok (\<lambda>_. True) n out2" by auto
    have "length (is_info d) = n" "length (is_inputBuffer d) = n" using assms(1) by (auto simp: stage_mid_def buffers_ok_def)
    with t(1,3-6) x o r show ?thesis by (fastforce simp: nth_list_update thread_sent_def)
  qed
qed

lemma stage_cycle:
  assumes "stage_wf n d" "shuffles shuffle" "arrival_ok good n inp" "packed (is_outputWidth d) out []"
    and "length nx = n" "recorder_ok act"
  shows "\<exists>d' out' nx' act'. stage_evaluate ops shuffle policy (int n) d inp out nx act = Inr (d', out', nx', act') \<and>
    stage_wf n d' \<and> is_outputWidth d' = is_outputWidth d \<and> is_processMoreThanOneInput d' = is_processMoreThanOneInput d \<and>
    recorder_ok act' \<and> length nx' = n \<and> arrival_ok (\<lambda>_. True) n out' \<and>
    (\<forall>t < n. seq d' t = seq d t + of_nat (length (sent out' t)) \<and>
       sent out' t @ number (seq d' t) (stage_owes cur exp d' t) =
       number (seq d t) (stage_owes cur exp d t @ concat (map (expand_packet exp) (arrived inp t))) \<and>
       (is_processMoreThanOneInput d \<and> sent out' t \<noteq> [] \<longrightarrow> sent out' t = take (unat (is_outputWidth d))
         (number (seq d t) (stage_owes cur exp d t @ concat (map (expand_packet exp) (arrived inp t))))))"
proof -
  from stage_begin_ok [OF assms(1,3,5)] obtain bufs infos where b: "packet_setTail (is_inputBuffer d) inp = Inr bufs"
    "rfold (stage_block nx) (is_info d) [0..int n - 1] = Inr infos"
    "stage_mid n inp (d\<lparr>is_inputBuffer := bufs, is_info := infos\<rparr>)"
    "\<forall>t < n. nxt (infos ! t) = seq d t \<and> owed cur exp (infos ! t) (inputbuf_items (bufs ! t)) =
       stage_owes cur exp d t @ concat (map (expand_packet exp) (arrived inp t))" by blast
  let ?d = "d\<lparr>is_inputBuffer := bufs, is_info := infos\<rparr>"
  have "packed (is_outputWidth ?d) out []" using assms(4) by simp
  from stage_work_ok [OF b(3) assms(2) this assms(5,6), of policy] obtain tid d1 d2 out1 out2 nx' act1 where
    w: "stage_getScheduledThread shuffle policy (int n) ?d = Inr (tid, d1)" "stage_thread ops d1 out tid = Inr (d2, out1)"
      "stage_output out1 tid nx act = Inr (out2, nx', act1)" "stage_mid n inp d2" "recorder_ok act1"
      "length nx' = n" "arrival_ok (\<lambda>_. True) n out2" "is_outputWidth d2 = is_outputWidth ?d"
      "is_processMoreThanOneInput d2 = is_processMoreThanOneInput ?d"
      "\<forall>t < n. thread_sent (is_outputWidth ?d) (is_processMoreThanOneInput ?d) (is_info ?d ! t, is_inputBuffer ?d ! t)
         (is_info d2 ! t, is_inputBuffer d2 ! t) (sent out2 t)" by blast
  have "\<forall>t \<in> set [0..int n - 1]. (\<exists>r. rbind (stage_getInput d2 t) (\<lambda>x. Inr (x \<noteq> None)) = Inr r) \<and> 0 \<le> t \<and> nat t < length nx'"
    using w(4,6) by (auto simp: stage_getInput_mid [OF w(4)])
  from stage_activate_ok [OF w(5) this, of "so_stage ops"] obtain act2 where
    a: "stage_activate (so_stage ops) (\<lambda>i. rbind (stage_getInput d2 i) (\<lambda>x. Inr (x \<noteq> None))) nx' act1 [0..int n - 1] = Inr act2"
      "recorder_ok act2" by blast
  have "buffers_ok n (is_inputBuffer d2)" "\<forall>t < n. arrived inp t = [] \<longrightarrow> inputbuf_ready (is_inputBuffer d2 ! t)"
    using w(4) by (simp_all add: stage_mid_def)
  from packet_pushTail_ok [OF this(1) assms(3) this(2)] obtain bufs' where
    p: "packet_pushTail (is_inputBuffer d2) inp = Inr bufs'" "buffers_ok n bufs'" "list_all inputbuf_ready bufs'"
      "\<forall>t < n. inputbuf_items (bufs' ! t) = inputbuf_items (is_inputBuffer d2 ! t)" by blast
  let ?d' = "d2\<lparr>is_inputBuffer := bufs'\<rparr>"
  have bub: "fi_isBubble out = Inr True" using assms(4) by (simp add: packed_def)
  have e: "stage_evaluate ops shuffle policy (int n) d inp out nx act = Inr (?d', out2, nx', act2)"
    using b(1,2) w(1-3) a(1) p(1) bub by (simp add: stage_evaluate_def)
  have wf: "stage_wf n ?d'"
    using w(4) p(2-4) by (auto simp: stage_wf_def stage_mid_def thread_ok_def buffers_ok_def list_all_length)
  have all: "seq ?d' t = seq d t + of_nat (length (sent out2 t)) \<and>
       sent out2 t @ number (seq ?d' t) (stage_owes cur exp ?d' t) =
       number (seq d t) (stage_owes cur exp d t @ concat (map (expand_packet exp) (arrived inp t))) \<and>
       (is_processMoreThanOneInput d \<and> sent out2 t \<noteq> [] \<longrightarrow> sent out2 t = take (unat (is_outputWidth d))
         (number (seq d t) (stage_owes cur exp d t @ concat (map (expand_packet exp) (arrived inp t)))))" if "t < n" for t
    using w(10) p(4) b(4) that by (auto simp: thread_sent_def stage_owes_def)
  show ?thesis
    by (intro exI [of _ ?d'] exI [of _ out2] exI [of _ nx'] exI [of _ act2] conjI e wf a(2) w(6,7))
      (use w(8,9) in simp, use w(8,9) in simp, use all in blast)
qed

lemma stage_run_ok:
  assumes "stage_wf n d" "list_all (env_ok good n) cs"
  shows "\<exists>d' outs. stage_run ops policy n d cs = Inr (d', outs) \<and> stage_wf n d' \<and>
    list_all (arrival_ok (\<lambda>_. True) n) outs \<and>
    (\<forall>t < n. concat (map (\<lambda>out. sent out t) outs) @ number (seq d' t) (stage_owes cur exp d' t) =
       number (seq d t) (stage_owes cur exp d t @ concat (map (expand_packet exp) (arrivals cs t))))"
  using assms
proof (induction cs arbitrary: d)
  case (Cons c cs)
  from Cons.prems have c: "shuffles (ce_shuffle c)" "arrival_ok good n (ce_inp c)" "length (ce_next c) = n"
    "recorder_ok (ce_act c)" by (simp_all add: env_ok_def)
  let ?in = "\<lambda>t. concat (map (expand_packet exp) (arrived (ce_inp c) t))"
  let ?more = "\<lambda>t. concat (map (expand_packet exp) (arrivals cs t))"
  from stage_cycle [OF Cons.prems(1) c(1,2) packed_bubble c(3,4), of policy 0] obtain d1 out nx act where
    one: "stage_evaluate ops (ce_shuffle c) policy (int n) d (ce_inp c) (fi_bubble 0) (ce_next c) (ce_act c) = Inr (d1, out, nx, act)"
      "stage_wf n d1" "arrival_ok (\<lambda>_. True) n out"
      "\<forall>t < n. seq d1 t = seq d t + of_nat (length (sent out t)) \<and>
         sent out t @ number (seq d1 t) (stage_owes cur exp d1 t) = number (seq d t) (stage_owes cur exp d t @ ?in t)"
    by blast
  from Cons.IH [OF one(2)] Cons.prems(2) obtain d2 outs where
    rest: "stage_run ops policy n d1 cs = Inr (d2, outs)" "stage_wf n d2" "list_all (arrival_ok (\<lambda>_. True) n) outs"
      "\<forall>t < n. concat (map (\<lambda>out. sent out t) outs) @ number (seq d2 t) (stage_owes cur exp d2 t) =
         number (seq d1 t) (stage_owes cur exp d1 t @ ?more t)" by auto
  have "concat (map (\<lambda>out. sent out t) (out # outs)) @ number (seq d2 t) (stage_owes cur exp d2 t) =
      number (seq d t) (stage_owes cur exp d t @ concat (map (expand_packet exp) (arrivals (c # cs) t)))" if "t < n" for t
  proof -
    from one(4) that have "number (seq d t) ((stage_owes cur exp d t @ ?in t) @ ?more t) =
        sent out t @ number (seq d1 t) (stage_owes cur exp d1 t @ ?more t)"
      by (intro number_resume) auto
    with rest(4) that show ?thesis by (simp add: arrivals_def)
  qed
  with one(1,3) rest(1-3) show ?case by auto
qed (simp add: arrivals_def)

end

end
