(* ===== verification/Decode.thy ===== *)
theory Decode
  imports PackStage
begin

text \<open>
  The decode stage, \<^verbatim>\<open>cpu/myminor/decode.hh\<close> and \<^verbatim>\<open>decode.cc\<close>: instruction packets from
  Fetch2 are cut into micro-ops, numbered and packed for the next stage. The micro-ops of a macro-op
  are part of the static instruction; the PC arithmetic \<^verbatim>\<open>advancePC\<close> of an instruction set is
  the argument \<open>adv\<close>, and \<open>riscv_advancePC\<close> is that of RISC-V. The thread context,
  tracer and debug output are left out; the load test on \<^verbatim>\<open>inst->staticInst\<close> in front of a
  debug print stays, because it dereferences the pointer. Instructions are values: an instruction
  handed on is not looked at again by the stage that handed it on.

  What the stage promises is \<open>decode_in_order\<close>: whatever the cycles bring, the instructions it
  has sent on for a thread followed by those it still owes are the expansion of what arrived for that
  thread, in order and numbered consecutively. \<open>upc_law\<close> is what the stage relies on of an
  instruction set's PC arithmetic.
\<close>

section \<open>Micro-ops\<close>

definition fetchMicroop :: "static_inst \<Rightarrow> u16 \<Rightarrow> static_inst result" where
  "fetchMicroop si upc = vec_at (si_microops si) (unat upc)"

definition riscv_advancePC :: "static_inst \<Rightarrow> pcstate \<Rightarrow> pcstate" where
  "riscv_advancePC si pc =
     (if si_is IsMicroop si then (if si_is IsLastMicroop si then upc_uEnd 4 pc else upc_uAdvance pc)
      else simple_advance 4 pc)"

section \<open>The stage\<close>

record decode_info = stage_info +
  dec_inMacroop :: bool
  dec_microopPC :: "pcstate option"

type_synonym decode_ext = "\<lparr>dec_inMacroop :: bool, dec_microopPC :: pcstate option\<rparr>"

type_synonym decode = "decode_ext inst_stage"

definition decode_info_new :: decode_info where
  "decode_info_new = \<lparr>st_inputIndex = 0, st_execSeqNum = firstSeqNum, st_blocked = False, dec_inMacroop = False,
     dec_microopPC = None\<rparr>"

definition decode_new :: "u32 \<Rightarrow> bool \<Rightarrow> u32 \<Rightarrow> nat \<Rightarrow> decode result" where
  "decode_new executeDummyInputWidth decodeCycleInput decodeInputBufferSize numThreads =
     (if executeDummyInputWidth < 1 then Inl Fatal
      else if decodeInputBufferSize < 1 then Inl Fatal
      else Inr \<lparr>is_outputWidth = executeDummyInputWidth, is_processMoreThanOneInput = decodeCycleInput,
             is_inputBuffer = replicate numThreads (inputbuf_new decodeInputBufferSize),
             is_info = replicate numThreads decode_info_new, is_threadPriority = 0\<rparr>)"

section \<open>One instruction\<close>

definition decode_stepInput :: "decode_info \<Rightarrow> decode_info" where
  "decode_stepInput info = info\<lparr>st_inputIndex := st_inputIndex info + 1, dec_inMacroop := False\<rparr>"

text \<open>The next micro-op of a macro-op. Only the last one carries the prediction and steps the input.\<close>

definition decode_microop ::
  "(static_inst \<Rightarrow> pcstate \<Rightarrow> pcstate) \<Rightarrow> decode_info \<Rightarrow> dyn_inst \<Rightarrow> static_inst \<Rightarrow>
    (decode_info \<times> dyn_inst) result" where
  "decode_microop adv info inst static_inst =
     rbind (if \<not> dec_inMacroop info then
              (case di_pc inst of None \<Rightarrow> Inl NullDeref
               | Some pc \<Rightarrow> Inr (info\<lparr>dec_microopPC := pc_set_ref (dec_microopPC info) pc, dec_inMacroop := True\<rparr>))
            else Inr info) (\<lambda>info.
     case dec_microopPC info of None \<Rightarrow> Inl NullDeref
     | Some upc \<Rightarrow>
       rbind (fetchMicroop static_inst (microPC upc)) (\<lambda>static_micro_inst.
       let output_inst = dyn_inst_new (Some static_micro_inst) (di_id inst) NoFault;
           output_inst = output_inst\<lparr>di_pc := pc_set_ptr (di_pc output_inst) (dec_microopPC info), di_fault := NoFault\<rparr>;
           output_inst = (if si_is IsLastMicroop static_micro_inst
             then output_inst\<lparr>predictedTaken := predictedTaken inst,
                    predictedTarget := pc_set_ptr (predictedTarget output_inst) (predictedTarget inst)\<rparr>
             else output_inst);
           info = info\<lparr>dec_microopPC := Some (adv static_micro_inst upc)\<rparr>
       in Inr (if si_is IsLastMicroop static_micro_inst then decode_stepInput info else info, output_inst)))"

text \<open>An instruction that is not a bubble: the output instruction, numbered.\<close>

definition decode_inst ::
  "(static_inst \<Rightarrow> pcstate \<Rightarrow> pcstate) \<Rightarrow> decode_info \<Rightarrow> dyn_inst \<Rightarrow> (decode_info \<times> dyn_inst) result" where
  "decode_inst adv info inst =
     rbind (if di_isFault inst then Inr (decode_stepInput info, inst)
            else rbind (di_static inst) (\<lambda>static_inst.
              if si_is IsMacroop static_inst then decode_microop adv info inst static_inst
              else Inr (decode_stepInput info, inst))) (\<lambda>(info, output_inst).
     let output_inst = output_inst\<lparr>di_id := (di_id output_inst)\<lparr>execSeqNum := st_execSeqNum info\<rparr>,
                                   di_lvptOut := di_lvptOut inst\<rparr> in
     rbind (di_static inst) (\<lambda>_.
     Inr (info\<lparr>st_execSeqNum := st_execSeqNum info + 1\<rparr>, output_inst)))"

definition decode_ops :: "(static_inst \<Rightarrow> pcstate \<Rightarrow> pcstate) \<Rightarrow> decode_ext stage_ops" where
  "decode_ops adv = \<lparr>so_stage = DecodeStageId, so_restart = (\<lambda>info. info\<lparr>dec_inMacroop := False\<rparr>),
     so_between = (\<lambda>info. \<not> dec_inMacroop info), so_inst = decode_inst adv\<rparr>"

section \<open>The interface of the stage\<close>

definition decode_getInput :: "decode \<Rightarrow> int \<Rightarrow> inst_data option result" where
  "decode_getInput = stage_getInput"

definition decode_popInput ::
  "inst_data inputbuf \<Rightarrow> decode_info \<Rightarrow> (inst_data inputbuf \<times> decode_info) result" where
  "decode_popInput = stage_popInput (decode_ops (\<lambda>_ pc. pc))"

definition decode_getScheduledThread ::
  "(int list \<Rightarrow> int list) \<Rightarrow> thread_policy \<Rightarrow> int \<Rightarrow> decode \<Rightarrow> (int \<times> decode) result" where
  "decode_getScheduledThread = stage_getScheduledThread"

definition decode_evaluate ::
  "(static_inst \<Rightarrow> pcstate \<Rightarrow> pcstate) \<Rightarrow> (int list \<Rightarrow> int list) \<Rightarrow> thread_policy \<Rightarrow> int \<Rightarrow> decode \<Rightarrow>
    inst_data \<Rightarrow> inst_data \<Rightarrow> 'a inputbuf list \<Rightarrow> activity \<Rightarrow>
    (decode \<times> inst_data \<times> 'a inputbuf list \<times> activity) result" where
  "decode_evaluate adv = stage_evaluate (decode_ops adv)"

definition decode_isDrained :: "decode \<Rightarrow> inst_data \<Rightarrow> bool result" where
  "decode_isDrained = stage_isDrained"

fun decode_run ::
  "(static_inst \<Rightarrow> pcstate \<Rightarrow> pcstate) \<Rightarrow> thread_policy \<Rightarrow> nat \<Rightarrow> decode \<Rightarrow> 'a cycle_env list \<Rightarrow>
    (decode \<times> inst_data list) result" where
  "decode_run adv policy n d [] = Inr (d, [])"
| "decode_run adv policy n d (c # cs) =
     rbind (decode_evaluate adv (ce_shuffle c) policy (int n) d (ce_inp c) (fi_bubble 0) (ce_next c) (ce_act c)) (\<lambda>(d, out, _).
     rbind (decode_run adv policy n d cs) (\<lambda>(d, outs). Inr (d, out # outs)))"

lemma decode_run_stage: "decode_run adv policy n d cs = stage_run (decode_ops adv) policy n d cs"
  by (induction cs arbitrary: d) (simp_all add: decode_evaluate_def)

section \<open>Expansion into micro-ops\<close>

text \<open>A micro-coded PC whose next micro-op is the following one.\<close>

definition upc_seq :: "pcstate \<Rightarrow> bool" where
  "upc_seq pc \<longleftrightarrow> pc_nupc pc = pc_upc pc + 1"

definition upc_law :: "(static_inst \<Rightarrow> pcstate \<Rightarrow> pcstate) \<Rightarrow> bool" where
  "upc_law adv \<longleftrightarrow> (\<forall>m pc. si_is IsMicroop m \<and> \<not> si_is IsLastMicroop m \<and> upc_seq pc \<longrightarrow>
     microPC (adv m pc) = microPC pc + 1 \<and> upc_seq (adv m pc))"

lemma riscv_upc_law: "upc_law riscv_advancePC"
  by (auto simp: upc_law_def riscv_advancePC_def upc_seq_def upc_uAdvance_def microPC_def)

text \<open>A macro-op's micro-ops: exactly the last one is flagged as such.\<close>

definition microcoded :: "static_inst \<Rightarrow> bool" where
  "microcoded si \<longleftrightarrow> (let ms = si_microops si in ms \<noteq> [] \<and> length ms < 2 ^ 16 \<and>
     list_all (si_is IsMicroop) ms \<and> list_all (\<lambda>m. \<not> si_is IsLastMicroop m) (butlast ms) \<and>
     si_is IsLastMicroop (last ms))"

definition micro_inst :: "dyn_inst \<Rightarrow> static_inst \<Rightarrow> pcstate \<Rightarrow> dyn_inst" where
  "micro_inst inst m pc =
     (dyn_inst_new (Some m) (di_id inst) NoFault)\<lparr>di_pc := Some pc, di_lvptOut := di_lvptOut inst,
       predictedTaken := (si_is IsLastMicroop m \<and> predictedTaken inst),
       predictedTarget := (if si_is IsLastMicroop m then predictedTarget inst else None)\<rparr>"

fun micro_insts :: "(static_inst \<Rightarrow> pcstate \<Rightarrow> pcstate) \<Rightarrow> dyn_inst \<Rightarrow> static_inst list \<Rightarrow> pcstate \<Rightarrow> dyn_inst list" where
  "micro_insts adv inst [] pc = []"
| "micro_insts adv inst (m # ms) pc = micro_inst inst m pc # micro_insts adv inst ms (adv m pc)"

definition is_macro :: "dyn_inst \<Rightarrow> bool" where
  "is_macro inst \<longleftrightarrow> \<not> di_isBubble inst \<and> \<not> di_isFault inst \<and> pred_option (si_is IsMacroop) (staticInst inst)"

definition expand_at :: "(static_inst \<Rightarrow> pcstate \<Rightarrow> pcstate) \<Rightarrow> dyn_inst \<Rightarrow> pcstate \<Rightarrow> dyn_inst list" where
  "expand_at adv inst pc = micro_insts adv inst (drop (unat (microPC pc)) (si_microops (the (staticInst inst)))) pc"

definition expand :: "(static_inst \<Rightarrow> pcstate \<Rightarrow> pcstate) \<Rightarrow> dyn_inst \<Rightarrow> dyn_inst list" where
  "expand adv inst =
     (if di_isBubble inst then []
      else if is_macro inst then expand_at adv inst (the (di_pc inst))
      else [inst])"

section \<open>The laws of the stage\<close>

text \<open>An instruction Decode can handle: it has a static instruction, and a macro-op has its micro-ops and
  a PC that points at one of them.\<close>

definition at_microop :: "dyn_inst \<Rightarrow> pcstate \<Rightarrow> bool" where
  "at_microop inst pc \<longleftrightarrow> upc_seq pc \<and> unat (microPC pc) < length (si_microops (the (staticInst inst)))"

definition inst_ok :: "dyn_inst \<Rightarrow> bool" where
  "inst_ok inst \<longleftrightarrow> di_isBubble inst \<or> staticInst inst \<noteq> None \<and>
     (is_macro inst \<longrightarrow> microcoded (the (staticInst inst)) \<and> di_pc inst \<noteq> None \<and> at_microop inst (the (di_pc inst)))"

definition expand_current :: "(static_inst \<Rightarrow> pcstate \<Rightarrow> pcstate) \<Rightarrow> decode_info \<Rightarrow> dyn_inst \<Rightarrow> dyn_inst list" where
  "expand_current adv info inst =
     (if dec_inMacroop info then expand_at adv inst (the (dec_microopPC info)) else expand adv inst)"

definition mid_macro :: "decode_info \<Rightarrow> dyn_inst \<Rightarrow> bool" where
  "mid_macro info inst \<longleftrightarrow> is_macro inst \<and> dec_microopPC info \<noteq> None \<and> at_microop inst (the (dec_microopPC info))"

lemma microcoded_split:
  assumes "microcoded si" "u < length (si_microops si)"
  shows "drop u (si_microops si) = si_microops si ! u # drop (Suc u) (si_microops si)"
    "si_is IsMicroop (si_microops si ! u)"
    "si_is IsLastMicroop (si_microops si ! u) \<longleftrightarrow> Suc u = length (si_microops si)"
proof -
  let ?ms = "si_microops si"
  show "drop u ?ms = ?ms ! u # drop (Suc u) ?ms" using assms(2) by (simp add: Cons_nth_drop_Suc)
  show "si_is IsMicroop (?ms ! u)" using assms by (auto simp: microcoded_def Let_def list_all_iff)
  have "\<not> si_is IsLastMicroop (?ms ! u)" if "Suc u < length ?ms"
    using assms(1) that by (auto simp: microcoded_def Let_def list_all_length nth_butlast)
  moreover have "si_is IsLastMicroop (?ms ! u)" if "Suc u = length ?ms"
    using assms(1) that [symmetric] by (auto simp: microcoded_def Let_def last_conv_nth)
  ultimately show "si_is IsLastMicroop (?ms ! u) \<longleftrightarrow> Suc u = length ?ms" using assms(2) by force
qed

text \<open>One instruction gives the next output; either it is used up or decoding stays inside it.\<close>

definition inst_stepped ::
  "(static_inst \<Rightarrow> pcstate \<Rightarrow> pcstate) \<Rightarrow> decode_info \<Rightarrow> dyn_inst \<Rightarrow> decode_info \<Rightarrow> dyn_inst list \<Rightarrow> bool" where
  "inst_stepped adv info inst info' rest \<longleftrightarrow>
     st_execSeqNum info' = st_execSeqNum info + 1 \<and> st_blocked info' = st_blocked info \<and>
     (if dec_inMacroop info'
      then st_inputIndex info' = st_inputIndex info \<and> mid_macro info' inst \<and> expand_current adv info' inst = rest
      else st_inputIndex info' = st_inputIndex info + 1 \<and> rest = [])"

lemma decode_microop_ok:
  assumes "upc_law adv" "is_macro inst" "staticInst inst = Some si" "microcoded si"
    and "at_microop inst pc" "dec_inMacroop info \<Longrightarrow> dec_microopPC info = Some pc"
    and "\<not> dec_inMacroop info \<Longrightarrow> di_pc inst = Some pc"
  shows "\<exists>info' m. decode_microop adv info inst si = Inr (info', (micro_inst inst m pc)\<lparr>di_lvptOut := lvpt_out_zero\<rparr>) \<and>
    expand_at adv inst pc = micro_inst inst m pc # (if dec_inMacroop info' then expand_current adv info' inst else []) \<and>
    st_execSeqNum info' = st_execSeqNum info \<and> st_blocked info' = st_blocked info \<and>
    (if dec_inMacroop info' then st_inputIndex info' = st_inputIndex info \<and> mid_macro info' inst
     else st_inputIndex info' = st_inputIndex info + 1)"
proof -
  let ?u = "unat (microPC pc)" and ?ms = "si_microops si"
  have u: "?u < length ?ms" "upc_seq pc" using assms(3,5) by (simp_all add: at_microop_def)
  note m = microcoded_split [OF assms(4) u(1)]
  have start: "(if \<not> dec_inMacroop info then
              (case di_pc inst of None \<Rightarrow> Inl NullDeref
               | Some pc \<Rightarrow> Inr (info\<lparr>dec_microopPC := pc_set_ref (dec_microopPC info) pc, dec_inMacroop := True\<rparr>))
            else Inr info) = Inr (info\<lparr>dec_microopPC := Some pc, dec_inMacroop := True\<rparr>)"
    using assms(6,7) by auto
  let ?m = "?ms ! ?u"
  let ?info = "info\<lparr>dec_microopPC := Some (adv ?m pc), dec_inMacroop := True\<rparr>"
  have eq: "decode_microop adv info inst si =
      Inr (if Suc ?u = length ?ms then decode_stepInput ?info else ?info, (micro_inst inst ?m pc)\<lparr>di_lvptOut := lvpt_out_zero\<rparr>)"
    unfolding decode_microop_def start using u m
    by (simp add: fetchMicroop_def Let_def micro_inst_def dyn_inst_new_def decode_stepInput_def)
  show ?thesis
  proof (cases "Suc ?u = length ?ms")
    case True
    with eq m(1) assms(3) show ?thesis by (auto simp: decode_stepInput_def expand_at_def)
  next
    case False
    with u have lt: "Suc ?u < length ?ms" by simp
    with assms(4) have "unat (microPC pc + 1) = Suc ?u"
      by (subst unat_add_small) (simp_all add: microcoded_def Let_def)
    with assms(1) m u False have "unat (microPC (adv ?m pc)) = Suc ?u" "upc_seq (adv ?m pc)"
      by (simp_all add: upc_law_def)
    with eq m(1) assms(2,3) False lt show ?thesis
      by (auto simp: expand_at_def expand_current_def mid_macro_def at_microop_def)
  qed
qed

lemma decode_inst_ok:
  assumes "upc_law adv" "inst_ok inst" "\<not> di_isBubble inst" "dec_inMacroop info \<Longrightarrow> mid_macro info inst"
  shows "\<exists>info' x rest. decode_inst adv info inst =
      Inr (info', x\<lparr>di_id := (di_id x)\<lparr>execSeqNum := st_execSeqNum info\<rparr>\<rparr>) \<and> \<not> di_isBubble x \<and>
    expand_current adv info inst = x # rest \<and> inst_stepped adv info inst info' rest"
proof -
  from assms(2,3) obtain si where si: "staticInst inst = Some si" by (auto simp: inst_ok_def)
  show ?thesis
  proof (cases "is_macro inst")
    case True
    with assms(2,3) si have mc: "microcoded si" "di_pc inst \<noteq> None" "at_microop inst (the (di_pc inst))"
      by (auto simp: inst_ok_def)
    define pc where "pc = (if dec_inMacroop info then the (dec_microopPC info) else the (di_pc inst))"
    have pc: "at_microop inst pc" "dec_inMacroop info \<Longrightarrow> dec_microopPC info = Some pc"
      "\<not> dec_inMacroop info \<Longrightarrow> di_pc inst = Some pc" "expand_current adv info inst = expand_at adv inst pc"
      using assms(3,4) mc True by (auto simp: pc_def mid_macro_def expand_current_def expand_def)
    from decode_microop_ok [OF assms(1) True si mc(1) pc(1-3)] obtain info' m where
      d: "decode_microop adv info inst si = Inr (info', (micro_inst inst m pc)\<lparr>di_lvptOut := lvpt_out_zero\<rparr>)"
      "expand_at adv inst pc = micro_inst inst m pc # (if dec_inMacroop info' then expand_current adv info' inst else [])"
      "st_execSeqNum info' = st_execSeqNum info" "st_blocked info' = st_blocked info"
      "if dec_inMacroop info' then st_inputIndex info' = st_inputIndex info \<and> mid_macro info' inst
       else st_inputIndex info' = st_inputIndex info + 1" by blast
    have flags: "\<not> di_isFault inst" "si_is IsMacroop si" using True si by (simp_all add: is_macro_def)
    have "decode_inst adv info inst = Inr (info'\<lparr>st_execSeqNum := st_execSeqNum info + 1\<rparr>,
        (micro_inst inst m pc)\<lparr>di_id := (di_id (micro_inst inst m pc))\<lparr>execSeqNum := st_execSeqNum info\<rparr>\<rparr>)"
      using d(1,3) si flags by (simp add: decode_inst_def di_static_def micro_inst_def dyn_inst_new_def)
    moreover have "\<not> di_isBubble (micro_inst inst m pc)"
      using assms(3) by (simp add: micro_inst_def dyn_inst_new_def di_isBubble_def)
    ultimately show ?thesis using d pc(4)
      by (auto simp: inst_stepped_def expand_current_def mid_macro_def split: if_splits)
  next
    case False
    with assms(4) have "\<not> dec_inMacroop info" by (auto simp: mid_macro_def)
    moreover have "decode_inst adv info inst = Inr ((decode_stepInput info)\<lparr>st_execSeqNum := st_execSeqNum info + 1\<rparr>,
        inst\<lparr>di_id := (di_id inst)\<lparr>execSeqNum := st_execSeqNum info\<rparr>\<rparr>)"
      using False si assms(3) by (auto simp: decode_inst_def di_static_def decode_stepInput_def is_macro_def)
    ultimately show ?thesis using False assms(3)
      by (intro exI [of _ "(decode_stepInput info)\<lparr>st_execSeqNum := st_execSeqNum info + 1\<rparr>"] exI [of _ inst] exI [of _ "[]"])
        (simp add: inst_stepped_def expand_current_def expand_def decode_stepInput_def)
  qed
qed

definition decode_fresh :: "decode_info \<Rightarrow> bool" where
  "decode_fresh info \<longleftrightarrow> \<not> dec_inMacroop info"

definition decode_at :: "decode_info \<Rightarrow> dyn_inst \<Rightarrow> bool" where
  "decode_at info inst \<longleftrightarrow> (dec_inMacroop info \<longrightarrow> mid_macro info inst)"

definition decode_good :: "(static_inst \<Rightarrow> pcstate \<Rightarrow> pcstate) \<Rightarrow> dyn_inst \<Rightarrow> bool" where
  "decode_good adv inst \<longleftrightarrow> upc_law adv \<and> inst_ok inst"

lemmas decode_law_defs = decode_ops_def decode_fresh_def decode_at_def decode_good_def expand_current_def mid_macro_def

interpretation dec: pack_stage "decode_ops adv" "decode_good adv" decode_fresh decode_at "expand_current adv" "expand adv"
  st_execSeqNum for adv
proof
  show "\<exists>info' x rest. so_inst (decode_ops adv) info i = Inr (info', x\<lparr>di_id := (di_id x)\<lparr>execSeqNum := st_execSeqNum info\<rparr>\<rparr>) \<and>
      \<not> di_isBubble x \<and> expand_current adv info i = x # rest \<and> st_execSeqNum info' = st_execSeqNum info + 1 \<and>
      (if decode_fresh info' then st_inputIndex info' = st_inputIndex info + 1 \<and> rest = []
       else st_inputIndex info' = st_inputIndex info \<and> decode_at info' i \<and> expand_current adv info' i = rest)"
    if "decode_good adv i" "\<not> di_isBubble i" "decode_at info i" for i info
    using decode_inst_ok [of adv i info] that
    by (fastforce simp: decode_ops_def decode_good_def decode_at_def decode_fresh_def inst_stepped_def split: if_splits)
qed (auto simp: decode_law_defs expand_def is_macro_def)

lemma decode_new_wf:
  assumes "decode_new w multi sz n = Inr d" "0 < n" "unat w < MAX_FORWARD_INSTS"
  shows "dec.stage_wf adv n d"
    "t < n \<Longrightarrow> st_execSeqNum (is_info d ! t) = firstSeqNum \<and> stage_owes (expand_current adv) (expand adv) d t = []"
  using assms
  by (auto simp: decode_new_def dec.stage_wf_def stage_owes_def buffers_ok_def list_all_length decode_fresh_def
      inputbuf_new_def queue_new_def decode_info_new_def dec.thread_ok_def dec.info_ok_def owed_def inputbuf_defs
      split: if_splits)

text \<open>What the stage still owes a thread, numbered.\<close>

definition decode_owed :: "(static_inst \<Rightarrow> pcstate \<Rightarrow> pcstate) \<Rightarrow> decode \<Rightarrow> nat \<Rightarrow> dyn_inst list" where
  "decode_owed adv d t = number (st_execSeqNum (is_info d ! t)) (stage_owes (expand_current adv) (expand adv) d t)"

text \<open>
  C3: Decode expands its input in order and loses nothing. Start the stage and feed it any packets over
  any number of cycles, whatever the next stage, the activity recorder and the scheduling policy do: no
  cycle fails, and for every thread the instructions sent on so far, followed by those still owed,
  are the micro-op expansion of the packets that arrived for the thread, in order, with consecutive
  execution sequence numbers from the first one on.
\<close>

theorem decode_in_order:
  assumes "decode_new w multi sz n = Inr d" "0 < n" "unat w < MAX_FORWARD_INSTS"
    and "upc_law adv" "list_all (env_ok inst_ok n) cs"
  shows "\<exists>d' outs. decode_run adv policy n d cs = Inr (d', outs) \<and>
    (\<forall>t < n. concat (map (\<lambda>out. sent out t) outs) @ decode_owed adv d' t =
       number firstSeqNum (concat (map (expand_packet (expand adv)) (arrivals cs t))))"
proof -
  note new = decode_new_wf [OF assms(1-3), where adv = adv]
  have "list_all (env_ok (decode_good adv) n) cs"
    using assms(4,5) by (auto simp: env_ok_def decode_good_def arrival_ok_def packet_ok_def list_all_iff)
  from dec.stage_run_ok [OF new(1) this, of policy] new(2) show ?thesis
    by (auto simp: decode_run_stage decode_owed_def)
qed

text \<open>An example: a macro-op of two micro-ops and a plain instruction.\<close>

definition ex_macro :: static_inst where
  "ex_macro = StaticInst [IsMacroop] 1 [] [] [StaticInst [IsMicroop] 1 [] [] [], StaticInst [IsMicroop, IsLastMicroop] 1 [] [] []]"

definition ex_packet :: inst_data where
  "ex_packet = \<lparr>fi_insts = [Some (ex_inst ex_macro 1), Some (ex_inst (StaticInst [] 1 [] [] []) 2)] @ replicate 14 None,
     numInsts = 2, fi_threadId = 0, fi_lvptOut = lvpt_out_zero\<rparr>"

lemma ex_packet_ok: "arrival_ok inst_ok 1 ex_packet" "arrival_ok good 1 (fi_bubble 0)"
proof -
  have "packet_insts ex_packet = [ex_inst ex_macro 1, ex_inst (StaticInst [] 1 [] [] []) 2]"
    by (simp add: packet_insts_def ex_packet_def)
  moreover have "packet_wf ex_packet" by (simp add: packet_wf_def ex_packet_def MAX_FORWARD_INSTS_def)
  moreover have "\<not> fi_isB ex_packet" by code_simp
  moreover have "inst_ok (ex_inst ex_macro 1)" "inst_ok (ex_inst (StaticInst [] 1 [] [] []) 2)"
    by (simp_all add: inst_ok_def ex_inst_def ex_macro_def dyn_inst_new_def is_macro_def microcoded_def at_microop_def
        upc_seq_def pc_new_def microPC_def)
  ultimately show "arrival_ok inst_ok 1 ex_packet" by (simp add: arrival_ok_def packet_ok_def ex_packet_def)
  show "arrival_ok good 1 (fi_bubble 0)" by (simp add: arrival_ok_def fi_bubble_def fi_isBubble_def)
qed

lemma ex_decode_new: "decode_new 2 True 2 1 = Inr (projr (decode_new 2 True 2 1))"
  by (simp add: decode_new_def)

theorem decode_in_order_witness:
  "\<exists>d' outs. decode_run riscv_advancePC RoundRobin 1 (projr (decode_new 2 True 2 1)) [ex_env ex_packet, ex_env (fi_bubble 0)] = Inr (d', outs) \<and>
     concat (map (\<lambda>out. sent out 0) outs) @ decode_owed riscv_advancePC d' 0 =
       number firstSeqNum (concat (map (expand_packet (expand riscv_advancePC)) (arrivals [ex_env ex_packet, ex_env (fi_bubble 0)] 0)))"
proof -
  have "list_all (env_ok inst_ok 1) [ex_env ex_packet, ex_env (fi_bubble 0)]"
    using ex_env_ok [OF ex_packet_ok(1)] ex_env_ok [OF ex_packet_ok(2) [of inst_ok]] by simp
  from decode_in_order [OF ex_decode_new _ _ riscv_upc_law this, of RoundRobin] show ?thesis
    unfolding MAX_FORWARD_INSTS_def by auto
qed

text \<open>The same run, evaluated: two instructions in the first cycle and one in the second.\<close>

lemma decode_example_run:
  "(case decode_run riscv_advancePC RoundRobin 1 (projr (decode_new 2 True 2 1)) [ex_env ex_packet, ex_env (fi_bubble 0)] of
   Inr (d', outs) \<Rightarrow> map (\<lambda>out. length (sent out 0)) outs = [2,1] | _ \<Rightarrow> False)"
  by code_simp



end
