(* ===== verification/ExecuteDummy.thy ===== *)
theory ExecuteDummy
  imports PackStage
begin

text \<open>
  The stage between Decode and Execute, \<^verbatim>\<open>cpu/myminor/executeDummy.hh\<close> and
  \<^verbatim>\<open>executeDummy.cc\<close>: a delay of one stage that repacks instructions to Execute's width and
  renumbers them. What it promises is \<open>executeDummy_in_order\<close>: it passes its input on, in order
  and numbered consecutively. Debug output is left out; the load test on \<^verbatim>\<open>inst->staticInst\<close> in
  front of a debug print stays, because it dereferences the pointer. The fields of
  \<^verbatim>\<open>ExecuteDummyThreadInfo\<close> without an initialiser start as the argument \<open>junk\<close>.
\<close>

section \<open>The stage\<close>

datatype drain_state = NotDraining | DrainCurrentInst | DrainHaltFetch | DrainAllInsts

fun show_drain_state :: "drain_state \<Rightarrow> string" where
  "show_drain_state NotDraining = ''NotDraining''"
| "show_drain_state DrainCurrentInst = ''DrainCurrentInst''"
| "show_drain_state DrainHaltFetch = ''DrainHaltFetch''"
| "show_drain_state DrainAllInsts = ''DrainAllInsts''"

record xd_info = stage_info +
  xd_streamSeqNum :: u64
  xd_drainState :: drain_state

type_synonym xd_ext = "\<lparr>xd_streamSeqNum :: u64, xd_drainState :: drain_state\<rparr>"

type_synonym executeDummy = "xd_ext inst_stage"

definition xd_info_new :: "u64 \<times> drain_state \<Rightarrow> xd_info" where
  "xd_info_new junk = \<lparr>st_inputIndex = 0, st_execSeqNum = firstSeqNum, st_blocked = False,
     xd_streamSeqNum = fst junk, xd_drainState = snd junk\<rparr>"

definition executeDummy_new :: "u64 \<times> drain_state \<Rightarrow> u32 \<Rightarrow> bool \<Rightarrow> u32 \<Rightarrow> nat \<Rightarrow> executeDummy result" where
  "executeDummy_new junk executeInputWidth executeDummyCycleInput executeDummyInputBufferSize numThreads =
     (if executeDummyInputBufferSize < 1 then Inl Fatal
      else Inr \<lparr>is_outputWidth = executeInputWidth, is_processMoreThanOneInput = executeDummyCycleInput,
             is_inputBuffer = replicate numThreads (inputbuf_new executeDummyInputBufferSize),
             is_info = replicate numThreads (xd_info_new junk), is_threadPriority = 0\<rparr>)"

text \<open>Passing an instruction on. The number is stepped before it is given to the instruction.\<close>

definition xd_inst :: "xd_info \<Rightarrow> dyn_inst \<Rightarrow> (xd_info \<times> dyn_inst) result" where
  "xd_inst info inst =
     (let info = info\<lparr>st_inputIndex := st_inputIndex info + 1\<rparr>;
          info = info\<lparr>st_execSeqNum := st_execSeqNum info + 1\<rparr>;
          output_inst = inst\<lparr>di_id := (di_id inst)\<lparr>execSeqNum := st_execSeqNum info\<rparr>,
                             di_lvptOut := di_lvptOut inst\<rparr> in
      rbind (di_static inst) (\<lambda>_. Inr (info, output_inst)))"

definition xd_ops :: "xd_ext stage_ops" where
  "xd_ops = \<lparr>so_stage = ExecuteDummyStageId, so_restart = (\<lambda>info. info), so_between = (\<lambda>_. True),
     so_inst = xd_inst\<rparr>"

section \<open>The interface of the stage\<close>

definition xd_getInput :: "executeDummy \<Rightarrow> int \<Rightarrow> inst_data option result" where
  "xd_getInput = stage_getInput"

definition xd_popInput :: "inst_data inputbuf \<Rightarrow> xd_info \<Rightarrow> (inst_data inputbuf \<times> xd_info) result" where
  "xd_popInput = stage_popInput xd_ops"

definition xd_getScheduledThread ::
  "(int list \<Rightarrow> int list) \<Rightarrow> thread_policy \<Rightarrow> int \<Rightarrow> executeDummy \<Rightarrow> (int \<times> executeDummy) result" where
  "xd_getScheduledThread = stage_getScheduledThread"

definition executeDummy_evaluate ::
  "(int list \<Rightarrow> int list) \<Rightarrow> thread_policy \<Rightarrow> int \<Rightarrow> executeDummy \<Rightarrow> inst_data \<Rightarrow> inst_data \<Rightarrow> 'a inputbuf list \<Rightarrow>
    activity \<Rightarrow> (executeDummy \<times> inst_data \<times> 'a inputbuf list \<times> activity) result" where
  "executeDummy_evaluate = stage_evaluate xd_ops"

definition xd_isDrained :: "executeDummy \<Rightarrow> inst_data \<Rightarrow> bool result" where
  "xd_isDrained = stage_isDrained"

definition xd_setDrainState :: "executeDummy \<Rightarrow> int \<Rightarrow> drain_state \<Rightarrow> executeDummy result" where
  "xd_setDrainState x thread_id state =
     rbind (arr_at (is_info x) thread_id) (\<lambda>info.
     rbind (arr_set (is_info x) thread_id (info\<lparr>xd_drainState := state\<rparr>)) (\<lambda>infos.
     Inr (x\<lparr>is_info := infos\<rparr>)))"

definition xd_drain :: "executeDummy \<Rightarrow> u32" where
  "xd_drain x = 0"

definition xd_drainResume :: "executeDummy \<Rightarrow> executeDummy" where
  "xd_drainResume x = x"

fun executeDummy_run ::
  "thread_policy \<Rightarrow> nat \<Rightarrow> executeDummy \<Rightarrow> 'a cycle_env list \<Rightarrow> (executeDummy \<times> inst_data list) result" where
  "executeDummy_run policy n d [] = Inr (d, [])"
| "executeDummy_run policy n d (c # cs) =
     rbind (executeDummy_evaluate (ce_shuffle c) policy (int n) d (ce_inp c) (fi_bubble 0) (ce_next c) (ce_act c)) (\<lambda>(d, out, _).
     rbind (executeDummy_run policy n d cs) (\<lambda>(d, outs). Inr (d, out # outs)))"

lemma executeDummy_run_stage: "executeDummy_run policy n d cs = stage_run xd_ops policy n d cs"
  by (induction cs arbitrary: d) (simp_all add: executeDummy_evaluate_def)

section \<open>The laws of the stage\<close>

definition has_static :: "dyn_inst \<Rightarrow> bool" where
  "has_static inst \<longleftrightarrow> di_isBubble inst \<or> staticInst inst \<noteq> None"

definition pass_on :: "dyn_inst \<Rightarrow> dyn_inst list" where
  "pass_on inst = (if di_isBubble inst then [] else [inst])"

abbreviation xd_nxt :: "xd_info \<Rightarrow> u64" where
  "xd_nxt info \<equiv> st_execSeqNum info + 1"

interpretation xds: pack_stage xd_ops has_static "\<lambda>_. True" "\<lambda>_ _. True" "\<lambda>_. pass_on" pass_on xd_nxt
proof
  show "\<exists>info' x rest. so_inst xd_ops info i = Inr (info', x\<lparr>di_id := (di_id x)\<lparr>execSeqNum := xd_nxt info\<rparr>\<rparr>) \<and>
      \<not> di_isBubble x \<and> pass_on i = x # rest \<and> xd_nxt info' = xd_nxt info + 1 \<and>
      (if True then st_inputIndex info' = st_inputIndex info + 1 \<and> rest = []
       else st_inputIndex info' = st_inputIndex info \<and> True \<and> pass_on i = rest)"
    if "has_static i" "\<not> di_isBubble i" for i info
    using that by (auto simp: xd_ops_def xd_inst_def Let_def di_static_def has_static_def pass_on_def)
qed (simp_all add: xd_ops_def pass_on_def)

lemma executeDummy_new_wf:
  assumes "executeDummy_new junk w multi sz n = Inr d" "0 < n" "unat w < MAX_FORWARD_INSTS"
  shows "xds.stage_wf n d" "t < n \<Longrightarrow> st_execSeqNum (is_info d ! t) = firstSeqNum \<and> stage_owes (\<lambda>_. pass_on) pass_on d t = []"
  using assms
  by (auto simp: executeDummy_new_def xds.stage_wf_def stage_owes_def buffers_ok_def list_all_length
      inputbuf_new_def queue_new_def xd_info_new_def xds.thread_ok_def xds.info_ok_def owed_def inputbuf_defs
      split: if_splits)

text \<open>What the stage still owes a thread, numbered.\<close>

definition executeDummy_owed :: "executeDummy \<Rightarrow> nat \<Rightarrow> dyn_inst list" where
  "executeDummy_owed d t = number (xd_nxt (is_info d ! t)) (stage_owes (\<lambda>_. pass_on) pass_on d t)"

lemma expand_pass_on: "expand_packet pass_on = packet_content"
proof -
  have "concat (map pass_on xs) = filter (\<lambda>i. \<not> di_isBubble i) xs" for xs
    by (induction xs) (simp_all add: pass_on_def)
  then show ?thesis by (intro ext) (simp add: expand_packet_def packet_content_def)
qed

text \<open>
  C8: ExecuteDummy passes its input on in order and loses nothing. Start the stage and feed it any
  packets over any number of cycles, whatever Execute, the activity recorder and the scheduling policy
  do: no cycle fails, and for every thread the instructions sent on so far, followed by those still
  owed, are the instructions that arrived for the thread, in order, renumbered consecutively.
\<close>

theorem executeDummy_in_order:
  assumes "executeDummy_new junk w multi sz n = Inr d" "0 < n" "unat w < MAX_FORWARD_INSTS"
    and "list_all (env_ok has_static n) cs"
  shows "\<exists>d' outs. executeDummy_run policy n d cs = Inr (d', outs) \<and>
    (\<forall>t < n. concat (map (\<lambda>out. sent out t) outs) @ executeDummy_owed d' t =
       number (firstSeqNum + 1) (concat (map packet_content (arrivals cs t))))"
proof -
  note new = executeDummy_new_wf [OF assms(1-3)]
  from xds.stage_run_ok [OF new(1) assms(4), of policy] new(2) show ?thesis
    by (auto simp: executeDummy_run_stage executeDummy_owed_def expand_pass_on)
qed

definition ex_plain :: inst_data where
  "ex_plain = \<lparr>fi_insts = [Some (ex_inst (StaticInst [] 1 [] [] []) 1), Some (ex_inst (StaticInst [] 1 [] [] []) 2)] @
     replicate 14 None, numInsts = 2, fi_threadId = 0, fi_lvptOut = lvpt_out_zero\<rparr>"

lemma ex_plain_ok: "arrival_ok has_static 1 ex_plain"
proof -
  have "packet_insts ex_plain = [ex_inst (StaticInst [] 1 [] [] []) 1, ex_inst (StaticInst [] 1 [] [] []) 2]"
    by (simp add: packet_insts_def ex_plain_def)
  moreover have "packet_wf ex_plain" by (simp add: packet_wf_def ex_plain_def MAX_FORWARD_INSTS_def)
  moreover have "\<not> fi_isB ex_plain" by code_simp
  moreover have "has_static (ex_inst (StaticInst [] 1 [] [] []) k)" for k
    by (simp add: has_static_def ex_inst_def dyn_inst_new_def)
  ultimately show ?thesis by (simp add: arrival_ok_def packet_ok_def ex_plain_def)
qed

theorem executeDummy_in_order_witness:
  "\<exists>d' outs. executeDummy_run RoundRobin 1 (projr (executeDummy_new (0, NotDraining) 1 False 2 1)) [ex_env ex_plain] = Inr (d', outs) \<and>
     concat (map (\<lambda>out. sent out 0) outs) @ executeDummy_owed d' 0 =
       number (firstSeqNum + 1) (concat (map packet_content (arrivals [ex_env ex_plain] 0)))"
proof -
  have new: "executeDummy_new (0, NotDraining) 1 False 2 1 = Inr (projr (executeDummy_new (0, NotDraining) 1 False 2 1))"
    by (simp add: executeDummy_new_def)
  have "list_all (env_ok has_static 1) [ex_env ex_plain]" using ex_env_ok [OF ex_plain_ok] by simp
  from executeDummy_in_order [OF new _ _ this, of RoundRobin] show ?thesis
    unfolding MAX_FORWARD_INSTS_def by auto
qed

end
