(* ===== verification/BitField.thy ===== *)
theory BitField
  imports IntMath
begin

unbundle bit_operations_syntax

text \<open>
  \<^verbatim>\<open>base/bitfield.hh\<close>: masks, bit fields and searches for set bits. The templates are
  modelled over unsigned words of any width up to 64; \<open>int\<close> positions are natural numbers.
  Every routine is compared with its meaning bit by bit.
\<close>

definition bf_mask :: "nat \<Rightarrow> u64" where
  "bf_mask nbits = (if nbits \<ge> 64 then - 1 else push_bit nbits 1 - 1)"

definition bf_bits :: "'a::len word \<Rightarrow> nat \<Rightarrow> nat \<Rightarrow> 'a word result" where
  "bf_bits val first lst =
     rbind (rassert (first \<ge> lst)) (\<lambda>_.
     let nbits = first - lst + 1 in
     Inr (ucast (ucast (drop_bit lst val) AND bf_mask nbits)))"

definition bf_mbits :: "'a::len word \<Rightarrow> nat \<Rightarrow> nat \<Rightarrow> 'a word" where
  "bf_mbits val first lst = ucast (ucast val AND (bf_mask (first + 1) AND NOT (bf_mask lst)))"

definition bf_mask2 :: "nat \<Rightarrow> nat \<Rightarrow> u64" where
  "bf_mask2 first lst = bf_mbits (- 1) first lst"

definition bf_insertBits :: "'a::len word \<Rightarrow> nat \<Rightarrow> nat \<Rightarrow> 'a word \<Rightarrow> 'a word result" where
  "bf_insertBits val first lst bit_val =
     rbind (rassert (first \<ge> lst)) (\<lambda>_.
     let bmask = ucast (bf_mask2 first lst);
         val = val AND NOT bmask in
     Inr (val OR (push_bit lst bit_val AND bmask)))"

definition bf_sext :: "nat \<Rightarrow> u64 \<Rightarrow> u64 result" where
  "bf_sext n val =
     rbind (bf_bits val (n - 1) (n - 1)) (\<lambda>sign_bit.
     Inr (if sign_bit \<noteq> 0 then val OR NOT (bf_mask n) else val))"

definition bf_szext :: "nat \<Rightarrow> u64 \<Rightarrow> u64 result" where
  "bf_szext n val =
     rbind (bf_bits val (n - 1) (n - 1)) (\<lambda>sign_bit.
     Inr (if sign_bit \<noteq> 0 then val OR NOT (bf_mask n) else val AND bf_mask n))"

definition bf_msb_step :: "nat \<Rightarrow> nat \<Rightarrow> nat \<Rightarrow> nat \<times> u64 \<Rightarrow> (nat \<times> u64) result" where
  "bf_msb_step hi lo k s = (case s of (msb, val) \<Rightarrow>
     rbind (bf_bits val hi lo) (\<lambda>b. Inr (if b \<noteq> 0 then (msb + k, drop_bit k val) else (msb, val))))"

definition findMsbSet :: "u64 \<Rightarrow> nat result" where
  "findMsbSet val =
     (if val = 0 then Inr 0
      else rbind (bf_msb_step 63 32 32 (0, val)) (\<lambda>s.
           rbind (bf_msb_step 31 16 16 s) (\<lambda>s.
           rbind (bf_msb_step 15 8 8 s) (\<lambda>s.
           rbind (bf_msb_step 7 4 4 s) (\<lambda>s.
           rbind (bf_msb_step 3 2 2 s) (\<lambda>s.
           rbind (bf_bits (snd s) 1 1) (\<lambda>b. Inr (if b \<noteq> 0 then fst s + 1 else fst s))))))))"

definition bf_lsb_step :: "nat \<Rightarrow> nat \<Rightarrow> nat \<times> u64 \<Rightarrow> (nat \<times> u64) result" where
  "bf_lsb_step hi k s = (case s of (lsb, val) \<Rightarrow>
     rbind (bf_bits val hi 0) (\<lambda>b. Inr (if b = 0 then (lsb + k, drop_bit k val) else (lsb, val))))"

definition findLsbSet :: "u64 \<Rightarrow> nat result" where
  "findLsbSet val =
     (if val = 0 then Inr 64
      else rbind (bf_lsb_step 31 32 (0, val)) (\<lambda>s.
           rbind (bf_lsb_step 15 16 s) (\<lambda>s.
           rbind (bf_lsb_step 7 8 s) (\<lambda>s.
           rbind (bf_lsb_step 3 4 s) (\<lambda>s.
           rbind (bf_lsb_step 1 2 s) (\<lambda>s.
           rbind (bf_bits (snd s) 0 0) (\<lambda>b. Inr (if b = 0 then fst s + 1 else fst s))))))))"

definition alignToPowerOfTwo :: "u64 \<Rightarrow> u64" where
  "alignToPowerOfTwo val =
     (let val = val - 1;
          val = val OR drop_bit 1 val;
          val = val OR drop_bit 2 val;
          val = val OR drop_bit 4 val;
          val = val OR drop_bit 8 val;
          val = val OR drop_bit 16 val;
          val = val OR drop_bit 32 val
      in val + 1)"

section \<open>Bit fields, bit by bit\<close>

lemma bf_mask_eq: "bf_mask n = mask n"
proof (cases "n \<ge> 64")
  case True
  then show ?thesis by (intro bit_word_eqI) (simp add: bf_mask_def bit_mask_iff)
next
  case False
  then show ?thesis by (simp add: bf_mask_def mask_eq_exp_minus_1 push_bit_eq_mult)
qed

lemma bf_bits_eq:
  "lst \<le> first \<Longrightarrow> LENGTH('a) \<le> 64 \<Longrightarrow>
    bf_bits (val :: 'a::len word) first lst = Inr (take_bit (first - lst + 1) (drop_bit lst val))"
proof -
  assume "lst \<le> first" "LENGTH('a) \<le> 64"
  then have "(ucast (ucast (drop_bit lst val) AND mask (first - lst + 1) :: u64) :: 'a word) = take_bit (first - lst + 1) (drop_bit lst val)"
    by (intro bit_word_eqI) (auto simp: bit_simps)
  with \<open>lst \<le> first\<close> show ?thesis by (simp add: bf_bits_def bf_mask_eq)
qed

lemma bf_insertBits_bit:
  assumes "lst \<le> first" "LENGTH('a) \<le> 64"
  shows "\<exists>r. bf_insertBits (val :: 'a::len word) first lst bv = Inr r \<and>
    (\<forall>i < LENGTH('a). bit r i = (if lst \<le> i \<and> i \<le> first then bit bv (i - lst) else bit val i))"
  using assms
  by (auto simp: bf_insertBits_def bf_mask2_def bf_mbits_def bf_mask_eq bit_simps Let_def)

text \<open>
  Inserting a value into bits \<open>last\<close> to \<open>first\<close> and extracting the same field
  gives the value's low bits back, and every bit outside the field is unchanged.
\<close>

lemma insert_extract_bits:
  assumes "lst \<le> first" "first < LENGTH('a)" "LENGTH('a) \<le> 64"
  shows "\<exists>r. bf_insertBits (val :: 'a::len word) first lst bv = Inr r \<and>
    bf_bits r first lst = Inr (take_bit (first - lst + 1) bv) \<and>
    (\<forall>i. i < lst \<or> first < i \<longrightarrow> bit r i = bit val i)"
proof -
  from bf_insertBits_bit [OF assms(1,3)] obtain r where r: "bf_insertBits val first lst bv = Inr r"
    "\<forall>i < LENGTH('a). bit r i = (if lst \<le> i \<and> i \<le> first then bit bv (i - lst) else bit val i)" by blast
  have "take_bit (first - lst + 1) (drop_bit lst r) = take_bit (first - lst + 1) bv"
    using assms r(2) by (intro bit_word_eqI) (auto simp: bit_simps split: if_splits)
  moreover have "bit r i = bit val i" if "i < lst \<or> first < i" for i
    using that r(2) assms by (cases "i < LENGTH('a)") (auto dest: bit_imp_le_length)
  ultimately show ?thesis using r(1) assms by (auto simp: bf_bits_eq)
qed

lemma take_bit_zero_iff: "(take_bit n (w :: 'a::len word) = 0) = (\<forall>i < n. \<not> bit w i)"
  by (auto simp: bit_eq_iff bit_simps dest: bit_imp_le_length)

lemma bf_szext_eq: "0 < n \<Longrightarrow> n \<le> 64 \<Longrightarrow> bf_szext n val = Inr (signed_take_bit (n - 1) val)"
proof -
  assume n: "0 < n" "n \<le> 64"
  have b: "(take_bit (Suc 0) (drop_bit (n - 1) val) = 0) = (\<not> bit val (n - 1))"
    by (simp only: take_bit_zero_iff less_Suc0 bit_drop_bit_eq o_apply) simp
  have neg: "val OR NOT (mask n) = signed_take_bit (n - 1) val" if "bit val (n - 1)"
    using n that by (intro bit_word_eqI) (auto simp: bit_simps min_def not_less le_less Suc_le_eq)
  have cut: "k < n \<longleftrightarrow> k < n - 1 \<or> k = n - 1" for k using n by auto
  have pos: "val AND mask n = signed_take_bit (n - 1) val" if "\<not> bit val (n - 1)"
    using n that by (intro bit_word_eqI) (auto simp: bit_simps min_def cut)
  from b neg pos n show ?thesis by (simp add: bf_szext_def bf_bits_eq bf_mask_eq del: take_bit_Suc_0)
qed

lemma bf_sext_eq: "0 < n \<Longrightarrow> n \<le> 64 \<Longrightarrow> val < 2 ^ n \<or> n = 64 \<Longrightarrow> bf_sext n val = bf_szext n val"
proof -
  assume n: "0 < n" "n \<le> 64" and v: "val < 2 ^ n \<or> n = 64"
  have "val AND mask n = val" using v less_mask_eq [of val n] by (auto simp: bit_simps intro: bit_word_eqI dest: bit_imp_le_length)
  then show ?thesis unfolding bf_sext_def bf_szext_def bf_mask_eq by (simp cong: if_cong)
qed

section \<open>Searching for set bits\<close>

lemma bits_upper_half:
  "2 * k \<le> 64 \<Longrightarrow> (take_bit k (drop_bit k (v :: u64)) = 0) = (v AND push_bit k (mask k) = 0)"
proof -
  assume k: "2 * k \<le> 64"
  have "v AND push_bit k (mask k) = push_bit k (take_bit k (drop_bit k v))"
    by (rule bit_word_eqI) (auto simp: bit_simps)
  moreover have "take_bit k (drop_bit k v) = drop_bit k (push_bit k (take_bit k (drop_bit k v)))"
    using k by (intro bit_word_eqI) (auto simp: bit_simps)
  ultimately show ?thesis by (metis drop_bit_of_0 push_bit_of_0)
qed

lemma bf_msb_step_eq:
  assumes "k > 0" "2 * k \<le> 64" "m = push_bit k (mask k)"
  shows "bf_msb_step (2 * k - 1) k k s = Inr (floorLog2_step True m k s)"
  using assms bits_upper_half [of k] by (cases s) (simp add: bf_msb_step_def bf_bits_eq floorLog2_step_def)

lemma findMsbSet_floorLog2: "val \<noteq> 0 \<Longrightarrow> findMsbSet val = floorLog2 8 val"
  using bf_msb_step_eq [of 32 "0xffffffff00000000"] bf_msb_step_eq [of 16 "0xffff0000"]
    bf_msb_step_eq [of 8 "0xff00"] bf_msb_step_eq [of 4 "0xf0"] bf_msb_step_eq [of 2 "0xc"]
    bits_upper_half [of 1]
  by (simp add: findMsbSet_def floorLog2_def push_bit_eq_mult mask_eq_exp_minus_1 bf_bits_eq word_gt_0 Let_def)

text \<open>
  The state of \<open>findLsbSet\<close> before a step that looks at \<open>k\<close> bits: nothing is set below \<open>lsb\<close>,
  the value is shifted by \<open>lsb\<close>, and one of its low \<open>2 * k\<close> bits is set.
\<close>

definition lsb_inv :: "u64 \<Rightarrow> nat \<Rightarrow> nat \<times> u64 \<Rightarrow> bool" where
  "lsb_inv val k s \<longleftrightarrow> snd s = drop_bit (fst s) val \<and> (\<forall>i < fst s. \<not> bit val i) \<and> (\<exists>i < 2 * k. bit (snd s) i)"

lemma bf_lsb_step_inv:
  assumes "lsb_inv val (2 * k) s" "k > 0" "hi = 2 * k - 1"
  shows "\<exists>s'. bf_lsb_step hi (2 * k) s = Inr s' \<and> lsb_inv val k s'"
proof (cases "take_bit (2 * k) (snd s) = 0")
  case True
  obtain i where i: "i < 2 * (2 * k)" "bit (snd s) i" using assms(1) by (auto simp: lsb_inv_def)
  with True have "2 * k \<le> i" by (auto simp: take_bit_zero_iff not_le [symmetric])
  then have "\<exists>j < 2 * k. bit (drop_bit (2 * k) (snd s)) j"
    using i by (intro exI [of _ "i - 2 * k"]) (auto simp: bit_simps)
  moreover have "\<not> bit val j" if "j < fst s + 2 * k" for j
  proof (cases "j < fst s")
    case False
    then have "\<not> bit (snd s) (j - fst s)" using True that by (auto simp: take_bit_zero_iff)
    then show ?thesis using assms(1) False by (simp add: lsb_inv_def bit_simps)
  qed (use assms(1) in \<open>simp add: lsb_inv_def\<close>)
  ultimately show ?thesis
    using assms True by (cases s) (auto simp: bf_lsb_step_def bf_bits_eq lsb_inv_def add.commute)
next
  case False
  then have "\<exists>i < 2 * k. bit (snd s) i" by (simp add: take_bit_zero_iff)
  then show ?thesis using assms False by (cases s) (auto simp: bf_lsb_step_def bf_bits_eq lsb_inv_def)
qed

lemma findLsbSet_least:
  assumes "val \<noteq> 0"
  shows "\<exists>r. findLsbSet val = Inr r \<and> bit val r \<and> (\<forall>i < r. \<not> bit val i)"
proof -
  have "lsb_inv val (2 * 16) (0, val)"
    using assms by (auto simp: lsb_inv_def bit_eq_iff dest: bit_imp_le_length)
  then obtain s1 where 1: "bf_lsb_step 31 32 (0, val) = Inr s1" "lsb_inv val (2 * 8) s1"
    using bf_lsb_step_inv [of val 16 "(0, val)" 31] by auto
  obtain s2 where 2: "bf_lsb_step 15 16 s1 = Inr s2" "lsb_inv val (2 * 4) s2"
    using bf_lsb_step_inv [OF 1(2), of 15] by auto
  obtain s3 where 3: "bf_lsb_step 7 8 s2 = Inr s3" "lsb_inv val (2 * 2) s3"
    using bf_lsb_step_inv [OF 2(2), of 7] by auto
  obtain s4 where 4: "bf_lsb_step 3 4 s3 = Inr s4" "lsb_inv val (2 * 1) s4"
    using bf_lsb_step_inv [OF 3(2), of 3] by auto
  obtain s5 where 5: "bf_lsb_step 1 2 s4 = Inr s5" "lsb_inv val 1 s5"
    using bf_lsb_step_inv [OF 4(2), of 1] by auto
  have i2: "i < 2 \<longleftrightarrow> i = 0 \<or> i = 1" for i :: nat by auto
  have b0: "snd s5 mod 2 = 0 \<longleftrightarrow> \<not> bit (snd s5) 0" by (simp add: bit_0 even_iff_mod_2_eq_zero)
  have "bit (snd s5) 0 \<or> bit (snd s5) 1" "\<forall>i < fst s5. \<not> bit val i" "bit (snd s5) i = bit val (fst s5 + i)" for i
    using 5(2) by (auto simp: lsb_inv_def i2 bit_simps)
  then show ?thesis using assms b0
    by (cases "bit (snd s5) 0") (auto simp: findLsbSet_def 1(1) 2(1) 3(1) 4(1) 5(1) [unfolded One_nat_def] bf_bits_eq less_Suc_eq)
qed

section \<open>Alignment to a power of two\<close>

definition smeared :: "nat \<Rightarrow> u64 \<Rightarrow> u64 \<Rightarrow> bool" where
  "smeared k v w \<longleftrightarrow> (\<forall>i. bit w i = (\<exists>d < k. bit v (i + d)))"

lemma smeared_step: "smeared k v w \<Longrightarrow> smeared (2 * k) v (w OR drop_bit k w)"
proof -
  assume "smeared k v w"
  moreover have "(\<exists>d < k. bit v (i + d)) \<or> (\<exists>d < k. bit v (k + i + d)) \<longleftrightarrow> (\<exists>d < 2 * k. bit v (i + d))" for i
  proof
    assume "\<exists>d < 2 * k. bit v (i + d)"
    then obtain d where "d < 2 * k" "bit v (i + d)" by blast
    then show "(\<exists>d < k. bit v (i + d)) \<or> (\<exists>d < k. bit v (k + i + d))"
      by (cases "d < k") (auto intro: exI [of _ "d - k"])
  next
    assume "(\<exists>d < k. bit v (i + d)) \<or> (\<exists>d < k. bit v (k + i + d))"
    then obtain d where "d < k" "bit v (i + d) \<or> bit v (i + (k + d))" by (auto simp: add_ac)
    then show "\<exists>d < 2 * k. bit v (i + d)" by (auto intro: exI [of _ d] exI [of _ "k + d"])
  qed
  ultimately show ?thesis by (auto simp: smeared_def bit_simps)
qed

lemma alignToPowerOfTwo_smear: "\<exists>w. alignToPowerOfTwo val = w + 1 \<and> smeared 64 (val - 1) w"
proof -
  have "smeared 1 (val - 1) (val - 1)" by (simp add: smeared_def)
  from smeared_step [OF smeared_step [OF smeared_step [OF smeared_step [OF smeared_step [OF smeared_step [OF this]]]]]]
  show ?thesis unfolding alignToPowerOfTwo_def Let_def by auto
qed

lemma bit_le_flog2: "bit (v :: u64) j \<Longrightarrow> j \<le> flog2 (unat v)"
proof -
  assume "bit v j"
  then have "bit (unat v) j" by (auto simp: bit_unsigned_iff dest: bit_imp_le_length)
  then have "odd (unat v div 2 ^ j)" by (simp add: bit_iff_odd)
  then have "unat v div 2 ^ j \<noteq> 0" by (auto intro: ccontr)
  then have "2 ^ j \<le> unat v" by (simp add: div_eq_0_iff)
  then show ?thesis by (rule flog2_ge)
qed

lemma bit_flog2: "v \<noteq> (0 :: u64) \<Longrightarrow> bit v (flog2 (unat v))"
proof -
  assume "v \<noteq> 0"
  then have "2 ^ flog2 (unat v) \<le> unat v" "unat v < 2 * 2 ^ flog2 (unat v)"
    using flog2_bounds [of "unat v"] by (auto simp: unat_gt_0)
  then have "unat v div 2 ^ flog2 (unat v) = 1" by (intro div_nat_eqI) auto
  then have "bit (unat v) (flog2 (unat v))" by (simp add: bit_iff_odd)
  then show ?thesis by (simp add: bit_unsigned_iff)
qed

lemma smeared_mask:
  assumes "smeared 64 v w" "v \<noteq> 0"
  shows "w = mask (Suc (flog2 (unat v)))"
proof (rule bit_word_eqI)
  fix i
  define m where "m = flog2 (unat v)"
  have m: "bit v m" "m < 64" using bit_flog2 [OF assms(2)] by (auto simp: m_def dest: bit_imp_le_length)
  have "bit w i \<longleftrightarrow> i \<le> m"
  proof
    assume "bit w i"
    then obtain d where "bit v (i + d)" using assms(1) by (auto simp: smeared_def)
    from bit_le_flog2 [OF this] show "i \<le> m" by (simp add: m_def)
  next
    assume "i \<le> m"
    then show "bit w i" using m assms(1) by (auto simp: smeared_def intro!: exI [of _ "m - i"])
  qed
  then show "bit w i = bit (mask (Suc (flog2 (unat v))) :: u64) i"
    using m(2) by (auto simp: bit_mask_iff m_def less_Suc_eq_le)
qed

lemma alignToPowerOfTwo_least:
  assumes "0 < val" "val \<le> 2 ^ 63"
  shows "\<exists>k < 64. alignToPowerOfTwo val = 2 ^ k \<and> unat val \<le> 2 ^ k \<and> (\<forall>j. unat val \<le> 2 ^ j \<longrightarrow> k \<le> j)"
proof -
  obtain w where w: "alignToPowerOfTwo val = w + 1" "smeared 64 (val - 1) w"
    using alignToPowerOfTwo_smear by blast
  have u: "unat (val - 1) = unat val - 1" using assms(1) by (simp add: unat_minus_one word_gt_0)
  show ?thesis
  proof (cases "val = 1")
    case True
    then have "smeared 64 0 w" using w(2) by simp
    then have "w = 0" by (intro bit_word_eqI) (simp add: smeared_def)
    then show ?thesis using w(1) True by (intro exI [of _ 0]) simp
  next
    case False
    define k where "k = Suc (flog2 (unat val - 1))"
    have pos: "0 < unat val - 1" using False assms(1) u by (metis diff_0 diff_eq_eq gr0I unat_eq_zero right_minus_eq)
    have "alignToPowerOfTwo val = 2 ^ k"
      using smeared_mask [OF w(2)] False w(1) u by (simp add: k_def mask_eq_exp_minus_1)
    moreover have "unat val - 1 < 2 ^ 63" using assms(2) pos by (simp add: word_le_nat_alt)
    then have "k < 64" using flog2_less [OF pos, of 63] by (simp add: k_def)
    moreover have "unat val \<le> 2 ^ k" using flog2_bounds [OF pos] unfolding k_def by linarith
    moreover have "k \<le> j" if "unat val \<le> 2 ^ j" for j
      using flog2_less [OF pos, of j] that pos unfolding k_def by linarith
    ultimately show ?thesis by blast
  qed
qed

text \<open>
  C22: Bit searches. On a non-zero value \<open>findMsbSet\<close> and \<open>findLsbSet\<close> return the positions of
  the highest and the lowest set bit, and up to \<open>2 ^ 63\<close> \<open>alignToPowerOfTwo\<close> returns the least
  power of two that is not below the value.
\<close>

theorem bit_searches:
  assumes "val \<noteq> 0"
  shows "(\<exists>m. findMsbSet val = Inr m \<and> bit val m \<and> (\<forall>i > m. \<not> bit val i)) \<and>
    (\<exists>r. findLsbSet val = Inr r \<and> bit val r \<and> (\<forall>i < r. \<not> bit val i)) \<and>
    (val \<le> 2 ^ 63 \<longrightarrow> (\<exists>k < 64. alignToPowerOfTwo val = 2 ^ k \<and> unat val \<le> 2 ^ k \<and>
       (\<forall>j. unat val \<le> 2 ^ j \<longrightarrow> k \<le> j)))"
proof (intro conjI impI)
  have "findMsbSet val = Inr (flog2 (unat val))"
    using assms unsigned_less [of val, where 'a = nat] by (simp add: findMsbSet_floorLog2 floorLog2_flog2 word_gt_0)
  moreover have "\<not> bit val i" if "flog2 (unat val) < i" for i using bit_le_flog2 [of val i] that by auto
  ultimately show "\<exists>m. findMsbSet val = Inr m \<and> bit val m \<and> (\<forall>i > m. \<not> bit val i)"
    using bit_flog2 [OF assms] by blast
  show "\<exists>r. findLsbSet val = Inr r \<and> bit val r \<and> (\<forall>i < r. \<not> bit val i)"
    by (rule findLsbSet_least [OF assms])
qed (use alignToPowerOfTwo_least [of val] assms in \<open>simp add: word_gt_0\<close>)

theorem bit_searches_witness:
  "findMsbSet 0x50 = Inr 6 \<and> findLsbSet 0x50 = Inr 4 \<and> alignToPowerOfTwo 0x50 = 0x80 \<and>
   (\<exists>m. findMsbSet 0x50 = Inr m \<and> bit (0x50 :: u64) m \<and> (\<forall>i > m. \<not> bit (0x50 :: u64) i))"
proof (intro conjI)
  show "findMsbSet 0x50 = Inr 6" "findLsbSet 0x50 = Inr 4" "alignToPowerOfTwo 0x50 = 0x80" by code_simp+
  show "\<exists>m. findMsbSet 0x50 = Inr m \<and> bit (0x50 :: u64) m \<and> (\<forall>i > m. \<not> bit (0x50 :: u64) i)"
    by (rule bit_searches [of "0x50", THEN conjunct1]) simp
qed

end
