(* ===== verification/MemPacket.thy ===== *)
theory MemPacket
  imports Prelude
begin

unbundle bit_operations_syntax

text \<open>
  Memory requests and packets: \<^verbatim>\<open>mem/request.hh\<close>, \<^verbatim>\<open>mem/packet.hh\<close> and
  \<^verbatim>\<open>mem/packet.cc\<close>, as far as a processor uses them, and the block arithmetic of
  \<^verbatim>\<open>cpu/utils.hh\<close>. The validity bits a request keeps beside its addresses and its size are
  \<open>option\<close>s; the atomic operation and the local accessor are kept as whether one is installed. A
  packet holds the request it was made from and a stack of sender states, each a reference to the
  object that sent it. A data pointer is an \<open>option\<close> of the bytes it owns; the contents of a fresh
  allocation are the argument \<open>junk\<close>.
\<close>

section \<open>Commands\<close>

datatype mem_cmd = InvalidCmd | ReadReq | ReadResp | ReadRespWithInvalidate | WriteReq
  | WriteResp | WriteCompleteResp | WritebackDirty | WritebackClean | WriteClean | CleanEvict
  | SoftPFReq | SoftPFExReq | HardPFReq | SoftPFResp | HardPFResp | WriteLineReq | UpgradeReq
  | SCUpgradeReq | UpgradeResp | SCUpgradeFailReq | UpgradeFailResp | ReadExReq | ReadExResp
  | ReadCleanReq | ReadSharedReq | LoadLockedReq | StoreCondReq | StoreCondFailReq
  | StoreCondResp | LockedRMWReadReq | LockedRMWReadResp | LockedRMWWriteReq | LockedRMWWriteResp
  | SwapReq | SwapResp | MemFenceReq | MemSyncReq | MemSyncResp | MemFenceResp | CleanSharedReq
  | CleanSharedResp | CleanInvalidReq | CleanInvalidResp | InvalidDestError | BadAddressError
  | FunctionalReadError | FunctionalWriteError | PrintReq | FlushReq | InvalidateReq
  | InvalidateResp | HTMReq | HTMReqResp | HTMAbort | TlbiExtSync

datatype mem_attribute = IsRead | IsWrite | IsUpgrade | IsInvalidate | IsClean | NeedsWritable
  | IsRequest | IsResponse | NeedsResponse | IsEviction | IsSWPrefetch | IsHWPrefetch | IsLlsc
  | IsLockedRMW | HasData | IsError | IsPrint | IsFlush | FromCache

text \<open>The rows of \<^verbatim>\<open>commandInfo\<close>, found by the value of the enumerator.\<close>

definition command_table :: "(mem_attribute list \<times> mem_cmd \<times> string) list" where
  "command_table = [
     ([], InvalidCmd, ''InvalidCmd''),
     ([IsRead, IsRequest, NeedsResponse], ReadResp, ''ReadReq''),
     ([IsRead, IsResponse, HasData], InvalidCmd, ''ReadResp''),
     ([IsRead, IsResponse, HasData, IsInvalidate], InvalidCmd, ''ReadRespWithInvalidate''),
     ([IsWrite, NeedsWritable, IsRequest, NeedsResponse, HasData], WriteResp, ''WriteReq''),
     ([IsWrite, IsResponse], InvalidCmd, ''WriteResp''),
     ([IsWrite, IsResponse], InvalidCmd, ''WriteCompleteResp''),
     ([IsWrite, IsRequest, IsEviction, HasData, FromCache], InvalidCmd, ''WritebackDirty''),
     ([IsWrite, IsRequest, IsEviction, HasData, FromCache], InvalidCmd, ''WritebackClean''),
     ([IsWrite, IsRequest, HasData, FromCache], InvalidCmd, ''WriteClean''),
     ([IsRequest, IsEviction, FromCache], InvalidCmd, ''CleanEvict''),
     ([IsRead, IsRequest, IsSWPrefetch, NeedsResponse], SoftPFResp, ''SoftPFReq''),
     ([IsRead, NeedsWritable, IsInvalidate, IsRequest, IsSWPrefetch, NeedsResponse], SoftPFResp, ''SoftPFExReq''),
     ([IsRead, IsRequest, IsHWPrefetch, NeedsResponse, FromCache], HardPFResp, ''HardPFReq''),
     ([IsRead, IsResponse, IsSWPrefetch, HasData], InvalidCmd, ''SoftPFResp''),
     ([IsRead, IsResponse, IsHWPrefetch, HasData], InvalidCmd, ''HardPFResp''),
     ([IsWrite, NeedsWritable, IsRequest, NeedsResponse, HasData], WriteResp, ''WriteLineReq''),
     ([IsInvalidate, NeedsWritable, IsUpgrade, IsRequest, NeedsResponse, FromCache], UpgradeResp, ''UpgradeReq''),
     ([IsInvalidate, NeedsWritable, IsUpgrade, IsLlsc, IsRequest, NeedsResponse, FromCache], UpgradeResp, ''SCUpgradeReq''),
     ([IsUpgrade, IsResponse], InvalidCmd, ''UpgradeResp''),
     ([IsRead, NeedsWritable, IsInvalidate, IsLlsc, IsRequest, NeedsResponse, FromCache], UpgradeFailResp, ''SCUpgradeFailReq''),
     ([IsRead, IsResponse, HasData], InvalidCmd, ''UpgradeFailResp''),
     ([IsRead, NeedsWritable, IsInvalidate, IsRequest, NeedsResponse, FromCache], ReadExResp, ''ReadExReq''),
     ([IsRead, IsResponse, HasData], InvalidCmd, ''ReadExResp''),
     ([IsRead, IsRequest, NeedsResponse, FromCache], ReadResp, ''ReadCleanReq''),
     ([IsRead, IsRequest, NeedsResponse, FromCache], ReadResp, ''ReadSharedReq''),
     ([IsRead, IsLlsc, IsRequest, NeedsResponse], ReadResp, ''LoadLockedReq''),
     ([IsWrite, NeedsWritable, IsLlsc, IsRequest, NeedsResponse, HasData], StoreCondResp, ''StoreCondReq''),
     ([IsWrite, NeedsWritable, IsLlsc, IsRequest, NeedsResponse, HasData], StoreCondResp, ''StoreCondFailReq''),
     ([IsWrite, IsLlsc, IsResponse], InvalidCmd, ''StoreCondResp''),
     ([IsRead, IsLockedRMW, NeedsWritable, IsRequest, NeedsResponse], LockedRMWReadResp, ''LockedRMWReadReq''),
     ([IsRead, IsLockedRMW, NeedsWritable, IsResponse, HasData], InvalidCmd, ''LockedRMWReadResp''),
     ([IsWrite, IsLockedRMW, NeedsWritable, IsRequest, NeedsResponse, HasData], LockedRMWWriteResp, ''LockedRMWWriteReq''),
     ([IsWrite, IsLockedRMW, NeedsWritable, IsResponse], InvalidCmd, ''LockedRMWWriteResp''),
     ([IsRead, IsWrite, NeedsWritable, IsRequest, HasData, NeedsResponse], SwapResp, ''SwapReq''),
     ([IsRead, IsWrite, IsResponse, HasData], InvalidCmd, ''SwapResp''),
     ([], InvalidCmd, ''Deprecated_MessageReq''),
     ([], InvalidCmd, ''Deprecated_MessageResp''),
     ([IsRequest, NeedsResponse], MemFenceResp, ''MemFenceReq''),
     ([IsRequest, NeedsResponse], MemSyncResp, ''MemSyncReq''),
     ([IsResponse], InvalidCmd, ''MemSyncResp''),
     ([IsResponse], InvalidCmd, ''MemFenceResp''),
     ([IsRequest, IsClean, NeedsResponse, FromCache], CleanSharedResp, ''CleanSharedReq''),
     ([IsResponse, IsClean], InvalidCmd, ''CleanSharedResp''),
     ([IsRequest, IsInvalidate, IsClean, NeedsResponse, FromCache], CleanInvalidResp, ''CleanInvalidReq''),
     ([IsResponse, IsInvalidate, IsClean], InvalidCmd, ''CleanInvalidResp''),
     ([IsResponse, IsError], InvalidCmd, ''InvalidDestError''),
     ([IsResponse, IsError], InvalidCmd, ''BadAddressError''),
     ([IsRead, IsResponse, IsError], InvalidCmd, ''FunctionalReadError''),
     ([IsWrite, IsResponse, IsError], InvalidCmd, ''FunctionalWriteError''),
     ([IsRequest, IsPrint], InvalidCmd, ''PrintReq''),
     ([IsRequest, IsFlush, NeedsWritable], InvalidCmd, ''FlushReq''),
     ([IsInvalidate, IsRequest, NeedsWritable, NeedsResponse, FromCache], InvalidateResp, ''InvalidateReq''),
     ([IsInvalidate, IsResponse], InvalidCmd, ''InvalidateResp''),
     ([IsRead, IsRequest, NeedsResponse], HTMReqResp, ''HTMReq''),
     ([IsRead, IsResponse], InvalidCmd, ''HTMReqResp''),
     ([IsRead, IsRequest], InvalidCmd, ''HTMAbort''),
     ([IsRequest], InvalidCmd, ''TlbiExtSync'')]"

primrec cmd_toInt :: "mem_cmd \<Rightarrow> nat" where
  "cmd_toInt InvalidCmd = 0" | "cmd_toInt ReadReq = 1" | "cmd_toInt ReadResp = 2"
| "cmd_toInt ReadRespWithInvalidate = 3" | "cmd_toInt WriteReq = 4" | "cmd_toInt WriteResp = 5"
| "cmd_toInt WriteCompleteResp = 6" | "cmd_toInt WritebackDirty = 7" | "cmd_toInt WritebackClean = 8"
| "cmd_toInt WriteClean = 9" | "cmd_toInt CleanEvict = 10" | "cmd_toInt SoftPFReq = 11"
| "cmd_toInt SoftPFExReq = 12" | "cmd_toInt HardPFReq = 13" | "cmd_toInt SoftPFResp = 14"
| "cmd_toInt HardPFResp = 15" | "cmd_toInt WriteLineReq = 16" | "cmd_toInt UpgradeReq = 17"
| "cmd_toInt SCUpgradeReq = 18" | "cmd_toInt UpgradeResp = 19" | "cmd_toInt SCUpgradeFailReq = 20"
| "cmd_toInt UpgradeFailResp = 21" | "cmd_toInt ReadExReq = 22" | "cmd_toInt ReadExResp = 23"
| "cmd_toInt ReadCleanReq = 24" | "cmd_toInt ReadSharedReq = 25" | "cmd_toInt LoadLockedReq = 26"
| "cmd_toInt StoreCondReq = 27" | "cmd_toInt StoreCondFailReq = 28" | "cmd_toInt StoreCondResp = 29"
| "cmd_toInt LockedRMWReadReq = 30" | "cmd_toInt LockedRMWReadResp = 31" | "cmd_toInt LockedRMWWriteReq = 32"
| "cmd_toInt LockedRMWWriteResp = 33" | "cmd_toInt SwapReq = 34" | "cmd_toInt SwapResp = 35"
| "cmd_toInt MemFenceReq = 38" | "cmd_toInt MemSyncReq = 39" | "cmd_toInt MemSyncResp = 40"
| "cmd_toInt MemFenceResp = 41" | "cmd_toInt CleanSharedReq = 42" | "cmd_toInt CleanSharedResp = 43"
| "cmd_toInt CleanInvalidReq = 44" | "cmd_toInt CleanInvalidResp = 45" | "cmd_toInt InvalidDestError = 46"
| "cmd_toInt BadAddressError = 47" | "cmd_toInt FunctionalReadError = 48"
| "cmd_toInt FunctionalWriteError = 49" | "cmd_toInt PrintReq = 50" | "cmd_toInt FlushReq = 51"
| "cmd_toInt InvalidateReq = 52" | "cmd_toInt InvalidateResp = 53" | "cmd_toInt HTMReq = 54"
| "cmd_toInt HTMReqResp = 55" | "cmd_toInt HTMAbort = 56" | "cmd_toInt TlbiExtSync = 57"

definition testCmdAttrib :: "mem_cmd \<Rightarrow> mem_attribute \<Rightarrow> bool" where
  "testCmdAttrib cmd attrib \<longleftrightarrow> attrib \<in> set (fst (command_table ! cmd_toInt cmd))"

definition responseCommand :: "mem_cmd \<Rightarrow> mem_cmd" where
  "responseCommand cmd = fst (snd (command_table ! cmd_toInt cmd))"

definition cmd_toString :: "mem_cmd \<Rightarrow> string" where
  "cmd_toString cmd = snd (snd (command_table ! cmd_toInt cmd))"

section \<open>Requests\<close>

record mem_request =
  rq_paddr :: "u64 option"
  rq_vaddr :: "u64 option"
  rq_size :: "u32 option"
  rq_byteEnable :: "bool list"
  rq_requestorId :: u16
  rq_flags :: u64
  rq_contextId :: "int option"
  rq_pc :: u64
  rq_extraData :: "u64 option"
  rq_atomicOp :: bool
  rq_localAccessor :: bool
  use_CVU_value :: bool

definition request_new :: mem_request where
  "request_new = \<lparr>rq_paddr = None, rq_vaddr = None, rq_size = None, rq_byteEnable = [],
     rq_requestorId = 0xffff, rq_flags = 0, rq_contextId = None, rq_pc = - 1, rq_extraData = None,
     rq_atomicOp = False, rq_localAccessor = False, use_CVU_value = False\<rparr>"

definition rq_isSet :: "u64 \<Rightarrow> mem_request \<Rightarrow> bool" where
  "rq_isSet m r \<longleftrightarrow> rq_flags r AND m \<noteq> 0"

datatype request_flag = ARCH_BITS | INST_FETCH | PHYSICAL | UNCACHEABLE | STRICT_ORDER | PRIVILEGED
  | CACHE_BLOCK_ZERO | NO_ACCESS | LOCKED_RMW | LLSC | MEM_SWAP | MEM_SWAP_COND | READ_MODIFY_WRITE
  | PREFETCH | PF_EXCLUSIVE | EVICT_NEXT | ACQUIRE | RELEASE | ATOMIC_RETURN_OP
  | ATOMIC_NO_RETURN_OP | KERNEL | SECURE | PT_WALK | INVALIDATE | CLEAN | DST_POU | DST_POC
  | DST_BITS | HTM_START | HTM_COMMIT | HTM_CANCEL | HTM_ABORT | TLBI | TLBI_SYNC | TLBI_EXT_SYNC
  | TLBI_EXT_SYNC_COMP | STICKY_FLAGS | STORE_NO_DATA | HTM_CMD

primrec flag_bits :: "request_flag \<Rightarrow> u64" where
  "flag_bits ARCH_BITS = 0xff"
| "flag_bits INST_FETCH = 0x100"
| "flag_bits PHYSICAL = 0x200"
| "flag_bits UNCACHEABLE = 0x400"
| "flag_bits STRICT_ORDER = 0x800"
| "flag_bits PRIVILEGED = 0x8000"
| "flag_bits CACHE_BLOCK_ZERO = 0x10000"
| "flag_bits NO_ACCESS = 0x80000"
| "flag_bits LOCKED_RMW = 0x100000"
| "flag_bits LLSC = 0x200000"
| "flag_bits MEM_SWAP = 0x400000"
| "flag_bits MEM_SWAP_COND = 0x800000"
| "flag_bits READ_MODIFY_WRITE = 0x20000"
| "flag_bits PREFETCH = 0x1000000"
| "flag_bits PF_EXCLUSIVE = 0x2000000"
| "flag_bits EVICT_NEXT = 0x4000000"
| "flag_bits ACQUIRE = 0x20000"
| "flag_bits RELEASE = 0x40000"
| "flag_bits ATOMIC_RETURN_OP = 0x40000000"
| "flag_bits ATOMIC_NO_RETURN_OP = 0x80000000"
| "flag_bits KERNEL = 0x1000"
| "flag_bits SECURE = 0x10000000"
| "flag_bits PT_WALK = 0x20000000"
| "flag_bits INVALIDATE = 0x100000000"
| "flag_bits CLEAN = 0x200000000"
| "flag_bits DST_POU = 0x1000000000"
| "flag_bits DST_POC = 0x2000000000"
| "flag_bits DST_BITS = 0x3000000000"
| "flag_bits HTM_START = 0x10000000000"
| "flag_bits HTM_COMMIT = 0x20000000000"
| "flag_bits HTM_CANCEL = 0x40000000000"
| "flag_bits HTM_ABORT = 0x80000000000"
| "flag_bits TLBI = 0x100000000000"
| "flag_bits TLBI_SYNC = 0x200000000000"
| "flag_bits TLBI_EXT_SYNC = 0x400000000000"
| "flag_bits TLBI_EXT_SYNC_COMP = 0x800000000000"
| "flag_bits STICKY_FLAGS = 0x100"
| "flag_bits STORE_NO_DATA = 0x10000 OR 0x200000000 OR 0x100000000"
| "flag_bits HTM_CMD = 0x10000000000 OR 0x20000000000 OR 0x40000000000 OR 0x80000000000"

definition rq_isStrictlyOrdered :: "mem_request \<Rightarrow> bool" where "rq_isStrictlyOrdered = rq_isSet (flag_bits STRICT_ORDER)"
definition rq_isUncacheable :: "mem_request \<Rightarrow> bool" where "rq_isUncacheable = rq_isSet (flag_bits UNCACHEABLE)"
definition rq_isPrefetch :: "mem_request \<Rightarrow> bool" where "rq_isPrefetch = rq_isSet (flag_bits PREFETCH OR flag_bits PF_EXCLUSIVE)"
definition rq_isPrefetchEx :: "mem_request \<Rightarrow> bool" where "rq_isPrefetchEx = rq_isSet (flag_bits PF_EXCLUSIVE)"
definition rq_isLLSC :: "mem_request \<Rightarrow> bool" where "rq_isLLSC = rq_isSet (flag_bits LLSC)"
definition rq_isLockedRMW :: "mem_request \<Rightarrow> bool" where "rq_isLockedRMW = rq_isSet (flag_bits LOCKED_RMW)"
definition rq_isSwap :: "mem_request \<Rightarrow> bool" where "rq_isSwap = rq_isSet (flag_bits MEM_SWAP OR flag_bits MEM_SWAP_COND)"
definition rq_isSecure :: "mem_request \<Rightarrow> bool" where "rq_isSecure = rq_isSet (flag_bits SECURE)"
definition rq_isRelease :: "mem_request \<Rightarrow> bool" where "rq_isRelease = rq_isSet (flag_bits RELEASE)"
definition rq_isHTMAbort :: "mem_request \<Rightarrow> bool" where "rq_isHTMAbort = rq_isSet (flag_bits HTM_ABORT)"
definition rq_isHTMCmd :: "mem_request \<Rightarrow> bool" where
  "rq_isHTMCmd r \<longleftrightarrow> rq_isSet (flag_bits HTM_START) r \<or> rq_isSet (flag_bits HTM_COMMIT) r \<or> rq_isSet (flag_bits HTM_CANCEL) r \<or> rq_isHTMAbort r"
definition rq_isAtomic :: "mem_request \<Rightarrow> bool" where
  "rq_isAtomic r \<longleftrightarrow> rq_isSet (flag_bits ATOMIC_RETURN_OP) r \<or> rq_isSet (flag_bits ATOMIC_NO_RETURN_OP) r"
definition rq_isCacheClean :: "mem_request \<Rightarrow> bool" where "rq_isCacheClean = rq_isSet (flag_bits CLEAN)"
definition rq_isCacheInvalidate :: "mem_request \<Rightarrow> bool" where "rq_isCacheInvalidate = rq_isSet (flag_bits INVALIDATE)"
definition rq_isCacheMaintenance :: "mem_request \<Rightarrow> bool" where
  "rq_isCacheMaintenance = rq_isSet (flag_bits CLEAN OR flag_bits INVALIDATE)"
definition rq_isMasked :: "mem_request \<Rightarrow> bool" where "rq_isMasked r \<longleftrightarrow> False \<in> set (rq_byteEnable r)"

definition rq_getPaddr :: "mem_request \<Rightarrow> u64 result" where
  "rq_getPaddr r = (case rq_paddr r of None \<Rightarrow> Inl AssertFailed | Some a \<Rightarrow> Inr a)"

definition rq_getVaddr :: "mem_request \<Rightarrow> u64 result" where
  "rq_getVaddr r = (case rq_vaddr r of None \<Rightarrow> Inl AssertFailed | Some a \<Rightarrow> Inr a)"

definition rq_getSize :: "mem_request \<Rightarrow> u32 result" where
  "rq_getSize r = (case rq_size r of None \<Rightarrow> Inl AssertFailed | Some n \<Rightarrow> Inr n)"

definition rq_getFlags :: "mem_request \<Rightarrow> u64 result" where
  "rq_getFlags r = rbind (rassert (rq_paddr r \<noteq> None \<or> rq_vaddr r \<noteq> None)) (\<lambda>_. Inr (rq_flags r))"

definition rq_setContext :: "int \<Rightarrow> mem_request \<Rightarrow> mem_request" where
  "rq_setContext cid r = r\<lparr>rq_contextId := Some cid\<rparr>"

text \<open>\<^verbatim>\<open>setVirt\<close> keeps the sticky flag and the context, and invalidates the physical address.\<close>

definition rq_setVirt :: "u64 \<Rightarrow> u32 \<Rightarrow> u64 \<Rightarrow> u16 \<Rightarrow> u64 \<Rightarrow> bool \<Rightarrow> mem_request \<Rightarrow> mem_request" where
  "rq_setVirt vaddr sz flags rid pc amo_op r =
     r\<lparr>rq_vaddr := Some vaddr, rq_size := Some sz, rq_requestorId := rid, rq_pc := pc,
       rq_flags := rq_flags r AND flag_bits STICKY_FLAGS OR flags, rq_paddr := None, rq_extraData := None,
       rq_atomicOp := amo_op, rq_localAccessor := False\<rparr>"

definition rq_setPaddr :: "u64 \<Rightarrow> mem_request \<Rightarrow> mem_request" where
  "rq_setPaddr paddr r = r\<lparr>rq_paddr := Some paddr\<rparr>"

definition rq_setFlags :: "u64 \<Rightarrow> mem_request \<Rightarrow> mem_request result" where
  "rq_setFlags flags r = rbind (rassert (rq_paddr r \<noteq> None \<or> rq_vaddr r \<noteq> None)) (\<lambda>_.
     Inr (r\<lparr>rq_flags := rq_flags r OR flags\<rparr>))"

definition rq_size_or_zero :: "mem_request \<Rightarrow> u32" where
  "rq_size_or_zero r = (case rq_size r of None \<Rightarrow> 0 | Some n \<Rightarrow> n)"

definition rq_setByteEnable :: "bool list \<Rightarrow> mem_request \<Rightarrow> mem_request result" where
  "rq_setByteEnable be r = rbind (rassert (length be = unat (rq_size_or_zero r))) (\<lambda>_.
     Inr (r\<lparr>rq_byteEnable := be\<rparr>))"

section \<open>Blocks\<close>

definition addrBlockOffset :: "u64 \<Rightarrow> u64 \<Rightarrow> u64" where
  "addrBlockOffset addr block_size = addr AND (block_size - 1)"

definition addrBlockAlign :: "u64 \<Rightarrow> u64 \<Rightarrow> u64" where
  "addrBlockAlign addr block_size = addr AND NOT (block_size - 1)"

definition transferNeedsBurst :: "u64 \<Rightarrow> u32 \<Rightarrow> u32 \<Rightarrow> bool" where
  "transferNeedsBurst addr sz block_size \<longleftrightarrow>
     addrBlockOffset addr (ucast block_size) + ucast sz > ucast block_size"

definition isAnyActiveElement :: "bool list \<Rightarrow> bool" where
  "isAnyActiveElement be \<longleftrightarrow> True \<in> set be"

section \<open>Packets\<close>

record mem_packet =
  pk_cmd :: mem_cmd
  pk_req :: mem_request
  pk_data :: "u8 list option"
  pk_addr :: "u64 option"
  pk_isSecure :: bool
  pk_size :: "u32 option"
  pk_bytesValid :: "bool list"
  pk_expressSnoop :: bool
  pk_senderState :: "nat list"

definition packet_new :: "mem_request \<Rightarrow> mem_cmd \<Rightarrow> mem_packet result" where
  "packet_new req cmd =
     rbind (rassert (rq_isHTMCmd req \<longrightarrow> rq_paddr req = None \<or> rq_paddr req = Some 0)) (\<lambda>_.
     Inr \<lparr>pk_cmd = cmd, pk_req = req, pk_data = None,
          pk_addr = (if rq_paddr req = None \<and> rq_isHTMCmd req then Some 0 else rq_paddr req),
          pk_isSecure = (rq_paddr req \<noteq> None \<and> rq_isSecure req), pk_size = rq_size req,
          pk_bytesValid = [], pk_expressSnoop = False, pk_senderState = []\<rparr>)"

definition makeReadCmd :: "mem_request \<Rightarrow> mem_cmd" where
  "makeReadCmd req =
     (if rq_isHTMCmd req then if rq_isHTMAbort req then HTMAbort else HTMReq
      else if rq_isLLSC req then LoadLockedReq
      else if rq_isPrefetchEx req then SoftPFExReq
      else if rq_isPrefetch req then SoftPFReq
      else if rq_isLockedRMW req then LockedRMWReadReq
      else ReadReq)"

definition makeWriteCmd :: "mem_request \<Rightarrow> mem_cmd" where
  "makeWriteCmd req =
     (if rq_isLLSC req then StoreCondReq
      else if rq_isSwap req \<or> rq_isAtomic req then SwapReq
      else if rq_isCacheInvalidate req then if rq_isCacheClean req then CleanInvalidReq else InvalidateReq
      else if rq_isCacheClean req then CleanSharedReq
      else if rq_isLockedRMW req then LockedRMWWriteReq
      else WriteReq)"

definition packet_createRead :: "mem_request \<Rightarrow> mem_packet result" where
  "packet_createRead req = packet_new req (makeReadCmd req)"

definition packet_createWrite :: "mem_request \<Rightarrow> mem_packet result" where
  "packet_createWrite req = packet_new req (makeWriteCmd req)"

definition pk_getAddr :: "mem_packet \<Rightarrow> u64 result" where
  "pk_getAddr p = (case pk_addr p of None \<Rightarrow> Inl AssertFailed | Some a \<Rightarrow> Inr a)"

definition pk_getSize :: "mem_packet \<Rightarrow> u32 result" where
  "pk_getSize p = (case pk_size p of None \<Rightarrow> Inl AssertFailed | Some n \<Rightarrow> Inr n)"

definition pk_is :: "mem_attribute \<Rightarrow> mem_packet \<Rightarrow> bool" where
  "pk_is a p = testCmdAttrib (pk_cmd p) a"

definition pk_hasRespData :: "mem_packet \<Rightarrow> bool" where
  "pk_hasRespData p = testCmdAttrib (responseCommand (pk_cmd p)) HasData"

definition pk_isMaskedWrite :: "mem_packet \<Rightarrow> bool" where
  "pk_isMaskedWrite p \<longleftrightarrow> pk_cmd p = WriteReq \<and> rq_isMasked (pk_req p)"

definition pk_makeResponse :: "mem_packet \<Rightarrow> mem_packet result" where
  "pk_makeResponse p =
     rbind (rassert (pk_is NeedsResponse p)) (\<lambda>_.
     rbind (rassert (pk_is IsRequest p)) (\<lambda>_.
     Inr (p\<lparr>pk_cmd := responseCommand (pk_cmd p), pk_expressSnoop := False\<rparr>)))"

definition pk_copyError :: "mem_packet \<Rightarrow> mem_packet \<Rightarrow> mem_packet result" where
  "pk_copyError p pkt = rbind (rassert (pk_is IsError pkt)) (\<lambda>_. Inr (p\<lparr>pk_cmd := pk_cmd pkt\<rparr>))"

definition pk_allocate :: "(nat \<Rightarrow> u8) \<Rightarrow> mem_packet \<Rightarrow> mem_packet result" where
  "pk_allocate junk p =
     (if pk_is HasData p \<or> pk_hasRespData p then
        rbind (rassert (pk_data p = None)) (\<lambda>_.
        rbind (pk_getSize p) (\<lambda>n. Inr (p\<lparr>pk_data := Some (map junk [0..<unat n])\<rparr>)))
      else Inr p)"

definition pk_dataDynamic :: "u8 list \<Rightarrow> mem_packet \<Rightarrow> mem_packet result" where
  "pk_dataDynamic d p = rbind (rassert (pk_data p = None)) (\<lambda>_. Inr (p\<lparr>pk_data := Some d\<rparr>))"

definition pk_getConstPtr :: "mem_packet \<Rightarrow> u8 list result" where
  "pk_getConstPtr p = (case pk_data p of None \<Rightarrow> Inl AssertFailed | Some d \<Rightarrow> Inr d)"

definition pk_getPtr :: "mem_packet \<Rightarrow> u8 list result" where
  "pk_getPtr p = rbind (pk_getConstPtr p) (\<lambda>d. rbind (rassert (\<not> pk_isMaskedWrite p)) (\<lambda>_. Inr d))"

definition pk_pushSenderState :: "nat \<Rightarrow> mem_packet \<Rightarrow> mem_packet" where
  "pk_pushSenderState st p = p\<lparr>pk_senderState := st # pk_senderState p\<rparr>"

definition pk_popSenderState :: "mem_packet \<Rightarrow> (nat \<times> mem_packet) result" where
  "pk_popSenderState p =
     (case pk_senderState p of [] \<Rightarrow> Inl AssertFailed | st # r \<Rightarrow> Inr (st, p\<lparr>pk_senderState := r\<rparr>))"

text \<open>
  \<^verbatim>\<open>memcpy\<close> of \<open>n\<close> bytes between two buffers: reading or writing past the end of either is
  undefined.
\<close>

definition memcpy :: "u8 list \<Rightarrow> nat \<Rightarrow> u8 list \<Rightarrow> nat \<Rightarrow> nat \<Rightarrow> u8 list result" where
  "memcpy dst doff src soff n =
     (if doff + n \<le> length dst \<and> soff + n \<le> length src then
        Inr (take doff dst @ take n (drop soff src) @ drop (doff + n) dst)
      else Inl Undefined)"

text \<open>\<^verbatim>\<open>writeData\<close>: the enabled bytes of a masked write, all bytes of any other packet.\<close>

definition pk_writeData :: "mem_packet \<Rightarrow> u8 list \<Rightarrow> u8 list result" where
  "pk_writeData p buf =
     rbind (pk_getSize p) (\<lambda>n. rbind (pk_getConstPtr p) (\<lambda>d.
     if \<not> pk_isMaskedWrite p then memcpy buf 0 d 0 (unat n)
     else rbind (rassert (length (rq_byteEnable (pk_req p)) = unat n)) (\<lambda>_.
          rfold (\<lambda>b i. if rq_byteEnable (pk_req p) ! i then rbind (vec_at d i) (\<lambda>x. vec_set b i x) else Inr b)
            buf [0..<unat n])))"

section \<open>The command table\<close>

text \<open>The name of an enumerator.\<close>

primrec cmd_ident :: "mem_cmd \<Rightarrow> string" where
  "cmd_ident InvalidCmd = ''InvalidCmd''" | "cmd_ident ReadReq = ''ReadReq''"
| "cmd_ident ReadResp = ''ReadResp''" | "cmd_ident ReadRespWithInvalidate = ''ReadRespWithInvalidate''"
| "cmd_ident WriteReq = ''WriteReq''" | "cmd_ident WriteResp = ''WriteResp''"
| "cmd_ident WriteCompleteResp = ''WriteCompleteResp''" | "cmd_ident WritebackDirty = ''WritebackDirty''"
| "cmd_ident WritebackClean = ''WritebackClean''" | "cmd_ident WriteClean = ''WriteClean''"
| "cmd_ident CleanEvict = ''CleanEvict''" | "cmd_ident SoftPFReq = ''SoftPFReq''"
| "cmd_ident SoftPFExReq = ''SoftPFExReq''" | "cmd_ident HardPFReq = ''HardPFReq''"
| "cmd_ident SoftPFResp = ''SoftPFResp''" | "cmd_ident HardPFResp = ''HardPFResp''"
| "cmd_ident WriteLineReq = ''WriteLineReq''" | "cmd_ident UpgradeReq = ''UpgradeReq''"
| "cmd_ident SCUpgradeReq = ''SCUpgradeReq''" | "cmd_ident UpgradeResp = ''UpgradeResp''"
| "cmd_ident SCUpgradeFailReq = ''SCUpgradeFailReq''" | "cmd_ident UpgradeFailResp = ''UpgradeFailResp''"
| "cmd_ident ReadExReq = ''ReadExReq''" | "cmd_ident ReadExResp = ''ReadExResp''"
| "cmd_ident ReadCleanReq = ''ReadCleanReq''" | "cmd_ident ReadSharedReq = ''ReadSharedReq''"
| "cmd_ident LoadLockedReq = ''LoadLockedReq''" | "cmd_ident StoreCondReq = ''StoreCondReq''"
| "cmd_ident StoreCondFailReq = ''StoreCondFailReq''" | "cmd_ident StoreCondResp = ''StoreCondResp''"
| "cmd_ident LockedRMWReadReq = ''LockedRMWReadReq''" | "cmd_ident LockedRMWReadResp = ''LockedRMWReadResp''"
| "cmd_ident LockedRMWWriteReq = ''LockedRMWWriteReq''"
| "cmd_ident LockedRMWWriteResp = ''LockedRMWWriteResp''" | "cmd_ident SwapReq = ''SwapReq''"
| "cmd_ident SwapResp = ''SwapResp''" | "cmd_ident MemFenceReq = ''MemFenceReq''"
| "cmd_ident MemSyncReq = ''MemSyncReq''" | "cmd_ident MemSyncResp = ''MemSyncResp''"
| "cmd_ident MemFenceResp = ''MemFenceResp''" | "cmd_ident CleanSharedReq = ''CleanSharedReq''"
| "cmd_ident CleanSharedResp = ''CleanSharedResp''" | "cmd_ident CleanInvalidReq = ''CleanInvalidReq''"
| "cmd_ident CleanInvalidResp = ''CleanInvalidResp''" | "cmd_ident InvalidDestError = ''InvalidDestError''"
| "cmd_ident BadAddressError = ''BadAddressError''"
| "cmd_ident FunctionalReadError = ''FunctionalReadError''"
| "cmd_ident FunctionalWriteError = ''FunctionalWriteError''" | "cmd_ident PrintReq = ''PrintReq''"
| "cmd_ident FlushReq = ''FlushReq''" | "cmd_ident InvalidateReq = ''InvalidateReq''"
| "cmd_ident InvalidateResp = ''InvalidateResp''" | "cmd_ident HTMReq = ''HTMReq''"
| "cmd_ident HTMReqResp = ''HTMReqResp''" | "cmd_ident HTMAbort = ''HTMAbort''"
| "cmd_ident TlbiExtSync = ''TlbiExtSync''"



lemma response_of_request: "testCmdAttrib c NeedsResponse \<Longrightarrow> testCmdAttrib (responseCommand c) IsResponse"
  by (induction c; code_simp)

end
