(* ===== verification/LSQReq.thy ===== *)
theory LSQReq
  imports MemPacket DynInst
begin

unbundle bit_operations_syntax

text \<open>
  The requests of the load/store queue: class \<^verbatim>\<open>LSQRequest\<close> of \<^verbatim>\<open>cpu/myminor/lsq.hh\<close> and
  \<^verbatim>\<open>lsq.cc\<close> with its four kinds. A request that cannot be split (\<open>SingleDataRequest\<close>), one that
  crosses a cache line and is sent as fragments (\<open>SplitDataRequest\<close>), and the two that never visit
  memory (\<open>FailedDataRequest\<close>, \<open>BarrierDataRequest\<close>) are one record with the fields of all kinds;
  virtual methods dispatch on \<open>lr_class\<close>. The theory holds what concerns one request: address
  coverage, fragmentation, packets and the retirement of responses. The queues are in \<open>LSQ\<close>.
\<close>

datatype MemoryState = MemoryRunning | MemoryNeedsRetry

datatype AddrRangeCoverage = PartialAddrRangeCoverage | FullAddrRangeCoverage | NoAddrRangeCoverage

datatype LSQRequestState = NotIssued | InTranslation | Translated | Failed | RequestIssuing
  | StoreToStoreBuffer | RequestNeedsRetry | StoreInStoreBuffer | StoreBufferIssuing
  | StoreBufferNeedsRetry | Complete

datatype lsq_class = SingleDataRequest | SplitDataRequest | FailedDataRequest | BarrierDataRequest

record lsq_req =
  lr_class :: lsq_class
  lr_inst :: nat
  lr_isLoad :: bool
  lr_data :: "u8 list option"
  lr_packet :: "mem_packet option"
  lr_request :: mem_request
  skipped :: bool
  issuedToMemory :: bool
  isTranslationDelayed :: bool
  lr_state :: LSQRequestState
  packetInFlight :: bool
  packetSent :: bool
  translationEvent :: bool
  numFragments :: u32
  numInTranslationFragments :: u32
  numTranslatedFragments :: u32
  numIssuedFragments :: u32
  numRetiredFragments :: u32
  fragmentRequests :: "mem_request list"
  fragmentPackets :: "mem_packet list"

definition lr_new :: "lsq_class \<Rightarrow> nat \<Rightarrow> bool \<Rightarrow> u8 list option \<Rightarrow> lsq_req" where
  "lr_new cls inst isLoad data =
     \<lparr>lr_class = cls, lr_inst = inst, lr_isLoad = isLoad, lr_data = data, lr_packet = None,
      lr_request = request_new, skipped = False, issuedToMemory = False,
      isTranslationDelayed = False, lr_state = NotIssued, packetInFlight = False,
      packetSent = False, translationEvent = False, numFragments = 0,
      numInTranslationFragments = 0, numTranslatedFragments = 0, numIssuedFragments = 0,
      numRetiredFragments = 0, fragmentRequests = [], fragmentPackets = []\<rparr>"

definition failedDataRequest :: "nat \<Rightarrow> lsq_req" where
  "failedDataRequest inst = (lr_new FailedDataRequest inst True None)\<lparr>lr_state := Failed\<rparr>"

definition barrierDataRequest :: "nat \<Rightarrow> lsq_req" where
  "barrierDataRequest inst = (lr_new BarrierDataRequest inst True None)\<lparr>lr_state := Complete\<rparr>"

section \<open>Address ranges\<close>

definition addr_coverage :: "u64 \<Rightarrow> u32 \<Rightarrow> u64 \<Rightarrow> u32 \<Rightarrow> AddrRangeCoverage" where
  "addr_coverage req1_addr req1_size req2_addr req2_size =
     (let req2_end_addr = req2_addr + ucast req2_size;
          req1_end_addr = req1_addr + ucast req1_size in
      if req1_addr \<ge> req2_end_addr \<or> req1_end_addr \<le> req2_addr then NoAddrRangeCoverage
      else if req1_addr \<le> req2_addr \<and> req1_end_addr \<ge> req2_end_addr then FullAddrRangeCoverage
      else PartialAddrRangeCoverage)"

definition containsAddrRangeOf :: "lsq_req \<Rightarrow> lsq_req \<Rightarrow> AddrRangeCoverage result" where
  "containsAddrRangeOf r other =
     rbind (rq_getPaddr (lr_request r)) (\<lambda>a1. rbind (rq_getSize (lr_request r)) (\<lambda>s1.
     rbind (rq_getPaddr (lr_request other)) (\<lambda>a2. rbind (rq_getSize (lr_request other)) (\<lambda>s2.
     let ret = addr_coverage a1 s1 a2 s2 in
     Inr (if ret = FullAddrRangeCoverage \<and> rq_isMasked (lr_request r) then PartialAddrRangeCoverage
          else ret)))))"

definition lr_isBarrier :: "lsq_req \<Rightarrow> dyn_inst \<Rightarrow> bool result" where
  "lr_isBarrier r inst =
     (if lr_class r = BarrierDataRequest then Inr True
      else if di_isInst inst then rbind (di_static inst) (\<lambda>si. Inr (isFullMemBarrier si))
      else Inr False)"

definition lr_isComplete :: "lsq_req \<Rightarrow> bool" where
  "lr_isComplete r \<longleftrightarrow> lr_state r = Complete"

definition needsToBeSentToStoreBuffer :: "lsq_req \<Rightarrow> bool" where
  "needsToBeSentToStoreBuffer r \<longleftrightarrow> lr_state r = StoreToStoreBuffer"

definition lr_setState :: "LSQRequestState \<Rightarrow> lsq_req \<Rightarrow> lsq_req" where
  "lr_setState st r = r\<lparr>lr_state := st\<rparr>"

definition lr_setSkipped :: "lsq_req \<Rightarrow> lsq_req" where
  "lr_setSkipped r = r\<lparr>skipped := True\<rparr>"

primrec show_request_state :: "LSQRequestState \<Rightarrow> string" where
  "show_request_state NotIssued = ''NotIssued''"
| "show_request_state InTranslation = ''InTranslation''"
| "show_request_state Translated = ''Translated''"
| "show_request_state Failed = ''Failed''"
| "show_request_state RequestIssuing = ''RequestIssuing''"
| "show_request_state StoreToStoreBuffer = ''StoreToStoreBuffer''"
| "show_request_state RequestNeedsRetry = ''RequestNeedsRetry''"
| "show_request_state StoreInStoreBuffer = ''StoreInStoreBuffer''"
| "show_request_state StoreBufferIssuing = ''StoreBufferIssuing''"
| "show_request_state StoreBufferNeedsRetry = ''StoreBufferNeedsRetry''"
| "show_request_state Complete = ''Complete''"

definition lr_reportData :: "lsq_req \<Rightarrow> dyn_inst \<Rightarrow> string" where
  "lr_reportData r inst =
     (if lr_isLoad r then ''R'' else ''W'') @ '';'' @ di_reportData inst @ '';'' @
     show_request_state (lr_state r)"

section \<open>Packets\<close>

definition makePacketForRequest ::
  "(nat \<Rightarrow> u8) \<Rightarrow> mem_request \<Rightarrow> bool \<Rightarrow> nat option \<Rightarrow> u8 list option \<Rightarrow> mem_packet result" where
  "makePacketForRequest junk request isLoad sender_state data =
     rbind (if isLoad then packet_createRead request else packet_createWrite request) (\<lambda>ret.
     let ret = (case sender_state of None \<Rightarrow> ret | Some st \<Rightarrow> pk_pushSenderState st ret) in
     if isLoad then pk_allocate junk ret
     else if \<not> rq_isCacheMaintenance request then
       (case data of None \<Rightarrow> Inr ret | Some d \<Rightarrow> pk_dataDynamic d ret)
     else Inr ret)"

definition makePacket :: "(nat \<Rightarrow> u8) \<Rightarrow> nat \<Rightarrow> dyn_inst \<Rightarrow> lsq_req \<Rightarrow> lsq_req result" where
  "makePacket junk self inst r =
     rbind (rassert (translationFault inst = NoFault)) (\<lambda>_.
     if lr_packet r \<noteq> None then Inr r
     else rbind (makePacketForRequest junk (lr_request r) (lr_isLoad r) (Some self) (lr_data r)) (\<lambda>p.
          Inr (r\<lparr>lr_packet := Some p, lr_data := None\<rparr>)))"

section \<open>Fragments\<close>

text \<open>
  One iteration of the loop of \<^verbatim>\<open>makeFragmentRequests\<close>. The loop's state is the address of the
  next fragment, the requests made so far and the number of fragments with no enabled byte.
\<close>

definition make_fragment :: "u64 \<Rightarrow> u64 \<Rightarrow> u32 \<Rightarrow> u32 \<Rightarrow> mem_request \<Rightarrow>
  u64 \<times> mem_request list \<times> u32 \<Rightarrow> nat \<Rightarrow> (u64 \<times> mem_request list \<times> u32) result" where
  "make_fragment base_addr end_addr line_width first_fragment_size request s fragment_index =
     (case s of (fragment_addr, fragments, num_disabled) \<Rightarrow>
      let fragment_size =
            (if fragment_addr = base_addr then first_fragment_size
             else if fragment_addr + ucast line_width > end_addr then ucast (end_addr - fragment_addr)
             else line_width);
          byte_enable = rq_byteEnable request;
          it_start = unat (fragment_addr - base_addr);
          it_end = it_start + unat fragment_size in
      rbind (if it_end \<le> length byte_enable then Inr (drop it_start (take it_end byte_enable))
             else Inl Undefined) (\<lambda>be.
      rbind (case rq_contextId request of None \<Rightarrow> Inl AssertFailed | Some c \<Rightarrow> Inr c) (\<lambda>cid.
      let fragment = rq_setContext cid request_new in
      if isAnyActiveElement be then
        rbind (rq_getFlags request) (\<lambda>flags.
        rbind (rq_setByteEnable be (rq_setVirt fragment_addr fragment_size flags
                 (rq_requestorId request) (rq_pc request) False fragment)) (\<lambda>fragment.
        Inr (fragment_addr + ucast fragment_size, fragments @ [fragment], num_disabled)))
      else Inr (fragment_addr + ucast fragment_size, fragments, num_disabled + 1))))"

definition makeFragmentRequests :: "u32 \<Rightarrow> lsq_req \<Rightarrow> lsq_req result" where
  "makeFragmentRequests line_width r =
     rbind (rq_getVaddr (lr_request r)) (\<lambda>base_addr.
     rbind (rq_getSize (lr_request r)) (\<lambda>whole_size.
     let first_fragment_offset = ucast (addrBlockOffset base_addr (ucast line_width)) :: u32;
         last_fragment_size =
           ucast (addrBlockOffset (base_addr + ucast whole_size) (ucast line_width)) :: u32;
         first_fragment_size = line_width - first_fragment_offset;
         middle_fragments_total_size = whole_size - (first_fragment_size + last_fragment_size) in
     rbind (rassert (addrBlockOffset (ucast middle_fragments_total_size) (ucast line_width) = 0)) (\<lambda>_.
     if line_width = 0 then Inl Undefined else
     let middle_fragment_count = middle_fragments_total_size div line_width;
         num_fragments = 1 + middle_fragment_count + (if last_fragment_size = 0 then 0 else 1) in
     rbind (rassert (middle_fragment_count * line_width + first_fragment_size + last_fragment_size =
                     whole_size)) (\<lambda>_.
     let end_addr = base_addr + ucast whole_size in
     rbind (rfold (make_fragment base_addr end_addr line_width first_fragment_size (lr_request r))
              (base_addr, fragmentRequests r, 0) [0..<unat num_fragments])
       (\<lambda>(_, fragments, num_disabled_fragments).
     rbind (rassert (num_fragments \<ge> num_disabled_fragments)) (\<lambda>_.
     Inr (r\<lparr>numFragments := num_fragments - num_disabled_fragments,
            fragmentRequests := fragments\<rparr>)))))))"

definition make_fragment_packet ::
  "(nat \<Rightarrow> u8) \<Rightarrow> nat \<Rightarrow> u64 \<Rightarrow> lsq_req \<Rightarrow> nat \<Rightarrow> lsq_req result" where
  "make_fragment_packet junk self base_addr r fragment_index =
     rbind (vec_at (fragmentRequests r) fragment_index) (\<lambda>fragment.
     rbind (rq_getVaddr fragment) (\<lambda>fragment_addr.
     rbind (rq_getSize fragment) (\<lambda>fragment_size.
     rbind (if lr_isLoad r then Inr None
            else rbind (case lr_data r of None \<Rightarrow> Inl Undefined | Some d \<Rightarrow>
                          memcpy (map junk [0..<unat fragment_size]) 0 d (unat (fragment_addr - base_addr))
                            (unat fragment_size)) (\<lambda>d. Inr (Some d))) (\<lambda>request_data.
     rbind (rassert (rq_paddr fragment \<noteq> None)) (\<lambda>_.
     rbind (makePacketForRequest junk fragment (lr_isLoad r) (Some self) request_data) (\<lambda>fragment_packet.
     rbind (rq_getFlags fragment) (\<lambda>flags. rbind (rq_setFlags flags (lr_request r)) (\<lambda>request.
     Inr (r\<lparr>fragmentPackets := fragmentPackets r @ [fragment_packet], lr_request := request\<rparr>)))))))))"

definition makeFragmentPackets :: "(nat \<Rightarrow> u8) \<Rightarrow> nat \<Rightarrow> dyn_inst \<Rightarrow> lsq_req \<Rightarrow> lsq_req result" where
  "makeFragmentPackets junk self inst r =
     rbind (rassert (numTranslatedFragments r > 0)) (\<lambda>_.
     rbind (rq_getVaddr (lr_request r)) (\<lambda>base_addr.
     rbind (rfold (make_fragment_packet junk self base_addr) r [0..<unat (numTranslatedFragments r)]) (\<lambda>r.
     rbind (vec_at (fragmentRequests r) 0) (\<lambda>f0. rbind (rq_getPaddr f0) (\<lambda>paddr.
     makePacket junk self inst (r\<lparr>lr_request := rq_setPaddr paddr (lr_request r)\<rparr>))))))"

section \<open>Issue and retirement\<close>

definition getHeadPacket :: "lsq_req \<Rightarrow> mem_packet option result" where
  "getHeadPacket r =
     (case lr_class r of
        SingleDataRequest \<Rightarrow> Inr (lr_packet r)
      | SplitDataRequest \<Rightarrow>
          rbind (rassert (numIssuedFragments r < numTranslatedFragments r)) (\<lambda>_.
          rbind (vec_at (fragmentPackets r) (unat (numIssuedFragments r))) (\<lambda>p. Inr (Some p)))
      | _ \<Rightarrow> Inl Fatal)"

definition stepToNextPacket :: "lsq_req \<Rightarrow> lsq_req result" where
  "stepToNextPacket r =
     (case lr_class r of
        SingleDataRequest \<Rightarrow> Inr (r\<lparr>packetInFlight := True, packetSent := True\<rparr>)
      | SplitDataRequest \<Rightarrow>
          rbind (rassert (numIssuedFragments r < numTranslatedFragments r)) (\<lambda>_.
          Inr (r\<lparr>numIssuedFragments := numIssuedFragments r + 1\<rparr>))
      | _ \<Rightarrow> Inr r)"

definition sentAllPackets :: "lsq_req \<Rightarrow> bool" where
  "sentAllPackets r =
     (case lr_class r of
        SingleDataRequest \<Rightarrow> packetSent r
      | SplitDataRequest \<Rightarrow> numIssuedFragments r = numTranslatedFragments r
      | _ \<Rightarrow> True)"

definition hasPacketsInMemSystem :: "lsq_req \<Rightarrow> bool" where
  "hasPacketsInMemSystem r =
     (case lr_class r of
        SingleDataRequest \<Rightarrow> packetInFlight r
      | SplitDataRequest \<Rightarrow> numIssuedFragments r \<noteq> numRetiredFragments r
      | _ \<Rightarrow> False)"

text \<open>The dereference of the request's packet, which may be null.\<close>

definition lr_pkt :: "lsq_req \<Rightarrow> mem_packet result" where
  "lr_pkt r = (case lr_packet r of None \<Rightarrow> Inl NullDeref | Some p \<Rightarrow> Inr p)"

definition single_retireResponse :: "mem_packet \<Rightarrow> lsq_req \<Rightarrow> lsq_req" where
  "single_retireResponse packet r = r\<lparr>lr_packet := Some packet, packetInFlight := False, lr_state := Complete\<rparr>"

text \<open>The data of the whole transfer with the bytes of a fragment's response pasted in.\<close>

definition split_paste :: "(nat \<Rightarrow> u8) \<Rightarrow> mem_packet \<Rightarrow> lsq_req \<Rightarrow> lsq_req result" where
  "split_paste junk response r =
     rbind (rq_getSize (lr_request r)) (\<lambda>sz.
     let data = (case lr_data r of None \<Rightarrow> map junk [0..<unat sz] | Some d \<Rightarrow> d) in
     rbind (rq_getVaddr (pk_req response)) (\<lambda>va. rbind (rq_getVaddr (lr_request r)) (\<lambda>base.
     rbind (pk_getConstPtr response) (\<lambda>src. rbind (rq_getSize (pk_req response)) (\<lambda>n.
     rbind (memcpy data (unat (va - base)) src 0 (unat n)) (\<lambda>data.
     Inr (r\<lparr>lr_data := Some data\<rparr>)))))))"

definition split_complete :: "(nat \<Rightarrow> u8) \<Rightarrow> lsq_req \<Rightarrow> lsq_req result" where
  "split_complete junk r =
     rbind (rq_getSize (lr_request r)) (\<lambda>sz.
     let data = (case lr_data r of None \<Rightarrow> map junk [0..<unat sz] | Some d \<Rightarrow> d) in
     rbind (lr_pkt r) (\<lambda>p.
     rbind (if lr_isLoad r then
              rbind (pk_getPtr p) (\<lambda>dst. rbind (memcpy dst 0 data 0 (unat sz)) (\<lambda>d. Inr (p\<lparr>pk_data := Some d\<rparr>)))
            else Inr p) (\<lambda>p.
     rbind (pk_makeResponse p) (\<lambda>p. Inr (r\<lparr>lr_data := Some data, lr_packet := Some p\<rparr>)))))"

definition split_retireResponse :: "(nat \<Rightarrow> u8) \<Rightarrow> dyn_inst \<Rightarrow> mem_packet \<Rightarrow> lsq_req \<Rightarrow> lsq_req result" where
  "split_retireResponse junk inst response r =
     rbind (rassert (translationFault inst = NoFault)) (\<lambda>_.
     rbind (rassert (numRetiredFragments r < numTranslatedFragments r)) (\<lambda>_.
     let r = r\<lparr>numRetiredFragments := numRetiredFragments r + 1\<rparr> in
     rbind (if skipped r then Inr r
            else if pk_is IsError response then
              rbind (lr_pkt r) (\<lambda>p. rbind (pk_copyError p response) (\<lambda>p.
              Inr ((lr_setSkipped r)\<lparr>lr_packet := Some p\<rparr>)))
            else if lr_isLoad r then split_paste junk response r
            else Inr r) (\<lambda>r.
     rbind (if skipped r \<and> \<not> hasPacketsInMemSystem r then
              let r = lr_setState Complete r in
              rbind (lr_pkt r) (\<lambda>p.
              if pk_is NeedsResponse p then rbind (pk_makeResponse p) (\<lambda>p. Inr (r\<lparr>lr_packet := Some p\<rparr>))
              else Inr r)
            else Inr r) (\<lambda>r.
     let r = (if numRetiredFragments r = numTranslatedFragments r then lr_setState Complete r else r) in
     if \<not> skipped r \<and> lr_isComplete r then split_complete junk r else Inr r))))"

definition retireResponse :: "(nat \<Rightarrow> u8) \<Rightarrow> dyn_inst \<Rightarrow> mem_packet \<Rightarrow> lsq_req \<Rightarrow> lsq_req result" where
  "retireResponse junk inst response r =
     (case lr_class r of
        SingleDataRequest \<Rightarrow> Inr (single_retireResponse response r)
      | SplitDataRequest \<Rightarrow> split_retireResponse junk inst response r
      | _ \<Rightarrow> Inr r)"

end
