(* ===== verification/LSQSplit.thy ===== *)
theory LSQSplit
  imports LSQReq "HOL-Library.Multiset"
begin

unbundle bit_operations_syntax

text \<open>
  Correctness of single requests: address coverage against sets of bytes, the fragments of a
  split transfer against a reference that cuts a range at cache lines, and the reassembly of the
  responses to a split load.
\<close>

section \<open>Coverage\<close>

definition addr_bytes :: "u64 \<Rightarrow> u32 \<Rightarrow> nat set" where
  "addr_bytes a n = {unat a ..< unat a + unat n}"

lemma unat_end: "unat (a :: u64) + unat (n :: u32) < 2 ^ 64 \<Longrightarrow> unat (a + ucast n) = unat a + unat n"
  by (subst unat_add_small) (simp_all add: unat_ucast_32_64)

text \<open>
  For two non-empty ranges that do not run past the end of the address space, the three answers
  mean that the ranges share no byte, that the first contains every byte of the second, and that
  they share some but not all bytes of the second.
\<close>

lemma coverage_exact:
  assumes "0 < s1" "0 < s2" "unat a1 + unat s1 < 2 ^ 64" "unat a2 + unat s2 < 2 ^ 64"
  shows "(addr_coverage a1 s1 a2 s2 = NoAddrRangeCoverage \<longleftrightarrow> addr_bytes a1 s1 \<inter> addr_bytes a2 s2 = {}) \<and>
    (addr_coverage a1 s1 a2 s2 = FullAddrRangeCoverage \<longleftrightarrow> addr_bytes a2 s2 \<subseteq> addr_bytes a1 s1) \<and>
    (addr_coverage a1 s1 a2 s2 = PartialAddrRangeCoverage \<longleftrightarrow>
       addr_bytes a1 s1 \<inter> addr_bytes a2 s2 \<noteq> {} \<and> \<not> addr_bytes a2 s2 \<subseteq> addr_bytes a1 s1)"
proof -
  have pos: "0 < unat s1" "0 < unat s2" using assms by (simp_all add: unat_gt_0 word_gt_0)
  note e = unat_end [OF assms(3)] unat_end [OF assms(4)]
  have d: "addr_bytes a1 s1 \<inter> addr_bytes a2 s2 = {} \<longleftrightarrow>
      a1 \<ge> a2 + ucast s2 \<or> a1 + ucast s1 \<le> a2"
    using pos unfolding addr_bytes_def word_le_nat_alt e by (auto simp: max_def min_def)
  have s: "addr_bytes a2 s2 \<subseteq> addr_bytes a1 s1 \<longleftrightarrow> a1 \<le> a2 \<and> a2 + ucast s2 \<le> a1 + ucast s1"
    using pos unfolding addr_bytes_def word_le_nat_alt e by (simp add: ivl_subset)
  have ne: "\<not> (a1 \<ge> a2 + ucast s2 \<or> a1 + ucast s1 \<le> a2)" if "a1 \<le> a2 \<and> a2 + ucast s2 \<le> a1 + ucast s1"
    using that pos unfolding word_le_nat_alt e by linarith
  show ?thesis unfolding d s addr_coverage_def Let_def using ne by auto
qed

lemma coverage_sets:
  assumes "0 < s1" "0 < s2" "unat a1 + unat s1 < 2 ^ 64" "unat a2 + unat s2 < 2 ^ 64"
  shows "addr_coverage a1 s1 a2 s2 = NoAddrRangeCoverage \<Longrightarrow> addr_bytes a1 s1 \<inter> addr_bytes a2 s2 = {}"
    "addr_coverage a1 s1 a2 s2 = FullAddrRangeCoverage \<Longrightarrow> addr_bytes a2 s2 \<subseteq> addr_bytes a1 s1"
  using coverage_exact [OF assms] by blast+

section \<open>Cutting a range at cache lines\<close>

function pieces :: "nat \<Rightarrow> nat \<Rightarrow> nat \<Rightarrow> (nat \<times> nat) list" where
  "pieces w a e =
     (if w = 0 \<or> e \<le> a then []
      else let n = min (w - a mod w) (e - a) in (a, n) # pieces w (a + n) e)"
  by auto
termination
  by (relation "measure (\<lambda>(w, a, e). e - a)") (auto intro!: diff_less_mono2)

declare pieces.simps [simp del]

lemma pieces_Nil [simp]: "e \<le> a \<Longrightarrow> pieces w a e = []"
  by (subst pieces.simps) simp

lemma pieces_empty_iff: "pieces w a e = [] \<longleftrightarrow> w = 0 \<or> e \<le> a"
  by (subst pieces.simps) (simp add: Let_def)

lemma pieces_step:
  "0 < w \<Longrightarrow> a < e \<Longrightarrow>
    pieces w a e = (a, min (w - a mod w) (e - a)) # pieces w (a + min (w - a mod w) (e - a)) e"
  by (subst pieces.simps) (simp add: Let_def)

lemma pieces_aligned:
  "0 < w \<Longrightarrow> a mod w = 0 \<Longrightarrow> rem < w \<Longrightarrow>
    length (pieces w a (a + (k * w + rem))) = k + (if rem = 0 then 0 else 1)"
proof (induction k arbitrary: a)
  case 0
  then show ?case by (cases "rem = 0") (simp_all add: pieces_step)
next
  case (Suc k)
  have "pieces w a (a + (Suc k * w + rem)) = (a, w) # pieces w (a + w) (a + w + (k * w + rem))"
    using pieces_step [of w a "a + (Suc k * w + rem)"] Suc.prems by (simp add: add_ac)
  then show ?case using Suc.IH [of "a + w"] Suc.prems by simp
qed

lemma pieces_mem:
  "(b, n) \<in> set (pieces w a e) \<Longrightarrow> a \<le> b \<and> 0 < n \<and> b + n \<le> e \<and> b div w = (b + n - 1) div w"
proof (induction w a e rule: pieces.induct)
  case (1 w a e)
  then have "pieces w a e \<noteq> []" by auto
  then have *: "0 < w" "a < e" by (simp_all add: pieces_empty_iff)
  define m where "m = min (w - a mod w) (e - a)"
  have m: "0 < m" "m \<le> w - a mod w" "m \<le> e - a" using * by (auto simp: m_def)
  have "a div w = (a + m - 1) div w"
  proof -
    have "a mod w + (m - 1) < w" using m * by (auto simp: less_diff_conv)
    moreover have "w * (a div w) + a mod w = a" by simp
    ultimately have "w * (a div w) \<le> a + m - 1" "a + m - 1 < w * Suc (a div w)"
      using m(1) unfolding mult_Suc_right by linarith+
    then show ?thesis by (simp add: div_nat_eqI)
  qed
  then show ?case using 1 * m by (auto simp: pieces_step m_def [symmetric])
qed

lemma pieces_next:
  assumes "i < length (pieces w a e)"
  shows "fst (pieces w a e ! i) + snd (pieces w a e ! i) =
    (if Suc i < length (pieces w a e) then fst (pieces w a e ! Suc i) else e)"
  using assms
proof (induction w a e arbitrary: i rule: pieces.induct)
  case (1 w a e)
  then have "pieces w a e \<noteq> []" by auto
  then have *: "0 < w" "a < e" by (simp_all add: pieces_empty_iff)
  define m where "m = min (w - a mod w) (e - a)"
  have p: "pieces w a e = (a, m) # pieces w (a + m) e" using * by (simp add: pieces_step m_def)
  show ?case
  proof (cases i)
    case 0
    show ?thesis
    proof (cases "a + m < e")
      case True
      then show ?thesis using 0 * by (simp add: p pieces_step [of w "a + m" e])
    next
      case False
      then have "a + m = e" using * unfolding m_def by linarith
      then show ?thesis using 0 by (simp add: p)
    qed
  next
    case (Suc j)
    then show ?thesis using 1(1)[OF _ m_def] 1(2) * by (simp add: p)
  qed
qed

lemma pieces_head_aligned:
  assumes "0 < w" "0 < i" "i < length (pieces w a e)"
  shows "fst (pieces w a e ! i) mod w = 0"
  using assms(2,3)
proof (induction w a e arbitrary: i rule: pieces.induct)
  case (1 w a e)
  then have "pieces w a e \<noteq> []" by auto
  then have *: "0 < w" "a < e" by (simp_all add: pieces_empty_iff)
  define m where "m = min (w - a mod w) (e - a)"
  have p: "pieces w a e = (a, m) # pieces w (a + m) e" using * by (simp add: pieces_step m_def)
  have l: "i - 1 < length (pieces w (a + m) e)" using 1 p by (cases i) auto
  show ?case
  proof (cases "i = 1")
    case True
    then have "a + m < e" using l by (cases "e \<le> a + m") auto
    then have "m = w - a mod w" unfolding m_def by linarith
    then have "(a + m) mod w = 0" using * by (metis add_diff_cancel_left' less_imp_le mod_less_divisor le_add_diff_inverse mod_add_left_eq mod_self)
    then show ?thesis using True \<open>a + m < e\<close> * by (simp add: p pieces_step [of w "a + m" e])
  next
    case False
    then have "0 < i - 1" using 1 by linarith
    from 1(1) [OF _ m_def this l] * show ?thesis using False 1 by (cases i) (auto simp: p)
  qed
qed

lemma pieces_enabled:
  "concat (map (\<lambda>(a, n). map ((+) a) (filter (\<lambda>i. E (a + i)) [0..<n])) (pieces w a e)) =
    (if w = 0 then [] else map ((+) a) (filter (\<lambda>i. E (a + i)) [0..<e - a]))"
proof (induction w a e rule: pieces.induct)
  case (1 w a e)
  show ?case
  proof (cases "w = 0 \<or> e \<le> a")
    case True
    then have "pieces w a e = []" by (simp add: pieces_empty_iff)
    then show ?thesis using True by auto
  next
    case False
    define m where "m = min (w - a mod w) (e - a)"
    have p: "pieces w a e = (a, m) # pieces w (a + m) e" using False by (simp add: pieces_step m_def)
    have "m + (e - (a + m)) = e - a" using False unfolding m_def by linarith
    then have "[0..<e - a] = [0..<m] @ [m..<m + (e - (a + m))]"
      using upt_add_eq_append [of 0 m "e - (a + m)"] by simp
    also have "[m..<m + (e - (a + m))] = map ((+) m) [0..<e - (a + m)]"
      by (rule nth_equalityI) auto
    finally have "[0..<e - a] = [0..<m] @ map ((+) m) [0..<e - (a + m)]" .
    then have "map ((+) a) (filter (\<lambda>i. E (a + i)) [0..<e - a]) =
        map ((+) a) (filter (\<lambda>i. E (a + i)) [0..<m]) @
        map ((+) (a + m)) (filter (\<lambda>i. E (a + m + i)) [0..<e - (a + m)])"
      by (simp add: filter_map o_def add.assoc)
    then show ?thesis using 1(1) [OF False m_def] False by (simp add: p)
  qed
qed

section \<open>Fragmentation\<close>

definition piece_enable :: "mem_request \<Rightarrow> nat \<Rightarrow> nat \<times> nat \<Rightarrow> bool list" where
  "piece_enable req base p = take (snd p) (drop (fst p - base) (rq_byteEnable req))"

definition fragment_of :: "mem_request \<Rightarrow> nat \<Rightarrow> nat \<times> nat \<Rightarrow> mem_request" where
  "fragment_of req base p =
     request_new\<lparr>rq_contextId := rq_contextId req, rq_vaddr := Some (of_nat (fst p)),
       rq_size := Some (of_nat (snd p)), rq_requestorId := rq_requestorId req, rq_pc := rq_pc req,
       rq_flags := rq_flags req, rq_byteEnable := piece_enable req base p\<rparr>"

definition active_piece :: "mem_request \<Rightarrow> nat \<Rightarrow> nat \<times> nat \<Rightarrow> bool" where
  "active_piece req base p \<longleftrightarrow> isAnyActiveElement (piece_enable req base p)"

lemma make_fragment_step:
  assumes req: "rq_contextId req \<noteq> None" "rq_vaddr req \<noteq> None" "length (rq_byteEnable req) = e - base"
    and a: "base \<le> a" "a + n \<le> e" "e + unat lw < 2 ^ 64" "n < 2 ^ 32"
    and n: "n = (if a = base then unat ffs else if a + unat lw > e then e - a else unat lw)"
  shows "make_fragment (of_nat base) (of_nat e) lw ffs req (of_nat a, frs, nd) i =
    Inr (of_nat (a + n), if active_piece req base (a, n) then frs @ [fragment_of req base (a, n)] else frs,
         if active_piece req base (a, n) then nd else nd + 1)"
proof -
  have u: "unat (of_nat m :: u64) = m" if "m \<le> e" for m using that a by (simp add: unat_of_nat take_bit_nat_eq_self)
  have eqs: "(of_nat a :: u64) = of_nat base \<longleftrightarrow> a = base" using u [of a] u [of base] a by (metis le_add1 le_trans)
  have gt: "(of_nat e :: u64) < of_nat a + ucast lw \<longleftrightarrow> e < a + unat lw"
  proof -
    have "unat (of_nat a + ucast lw :: u64) = a + unat lw"
      using unat_end [of "of_nat a" lw] u [of a] a by simp
    then show ?thesis using u [of e] by (simp add: word_less_nat_alt)
  qed
  have sub: "unat (of_nat x - of_nat y :: u64) = x - y" if "y \<le> x" "x \<le> e" for x y
    using that u by (subst unat_sub) (simp_all add: word_le_nat_alt)
  have sz: "(if (of_nat a :: u64) = of_nat base then ffs
      else if of_nat a + ucast lw > (of_nat e :: u64) then ucast (of_nat e - of_nat a :: u64) else lw) = (of_nat n :: u32)"
  proof (cases "a = base \<or> \<not> a + unat lw > e")
    case True
    then show ?thesis using n eqs gt by auto
  next
    case False
    have "unat (ucast (of_nat e - of_nat a :: u64) :: u32) = e - a"
      using sub [of a e] a False n by (simp add: unsigned_ucast_eq take_bit_nat_eq_self)
    then have "ucast (of_nat e - of_nat a :: u64) = (of_nat (e - a) :: u32)" by (metis of_nat_unat ucast_id)
    then have "ucast (of_nat e - of_nat a :: u64) = (of_nat n :: u32)" using False n by simp
    then show ?thesis using False eqs gt by simp
  qed
  have un: "unat (of_nat n :: u32) = n" using a by (simp add: unat_of_nat take_bit_nat_eq_self)
  have uc: "(ucast (of_nat n :: u32) :: u64) = of_nat n" using un by (metis unat_ucast_32_64 word_unat_eq_iff u a(2) add_leD2)
  have be: "drop (a - base) (take (a - base + n) (rq_byteEnable req)) = piece_enable req base (a, n)"
    by (simp add: piece_enable_def drop_take)
  have len: "length (piece_enable req base (a, n)) = n" using req a by (simp add: piece_enable_def)
  obtain c where c: "rq_contextId req = Some c" using req by auto
  have frag: "rq_setByteEnable (piece_enable req base (a, n)) (rq_setVirt (of_nat a) (of_nat n) (rq_flags req)
      (rq_requestorId req) (rq_pc req) False (rq_setContext c request_new)) = Inr (fragment_of req base (a, n))"
    using len un c by (simp add: rq_setByteEnable_def rq_setVirt_def rq_setContext_def request_new_def
        fragment_of_def rq_size_or_zero_def)
  show ?thesis
    unfolding make_fragment_def prod.case Let_def sz sub [OF a(1), OF le_trans [OF le_add1 a(2)]] un be
    using req a c frag by (simp add: active_piece_def rq_getFlags_def uc un be)
qed

lemma pieces_snd:
  "i < length (pieces w a e) \<Longrightarrow>
    snd (pieces w a e ! i) = min (w - fst (pieces w a e ! i) mod w) (e - fst (pieces w a e ! i)) \<and>
    (0 < i \<longrightarrow> a < fst (pieces w a e ! i))"
proof (induction w a e arbitrary: i rule: pieces.induct)
  case (1 w a e)
  then have "pieces w a e \<noteq> []" by auto
  then have *: "0 < w" "a < e" by (simp_all add: pieces_empty_iff)
  define m where "m = min (w - a mod w) (e - a)"
  have m: "0 < m" using * by (simp add: m_def)
  have p: "pieces w a e = (a, m) # pieces w (a + m) e" using * by (simp add: pieces_step m_def)
  show ?case
  proof (cases i)
    case 0
    then show ?thesis using p m_def by simp
  next
    case (Suc j)
    then have j: "j < length (pieces w (a + m) e)" using 1(2) p by simp
    then have "pieces w (a + m) e ! j \<in> set (pieces w (a + m) e)" by (rule nth_mem)
    then have "a + m \<le> fst (pieces w (a + m) e ! j)"
      using pieces_mem [of _ _ w "a + m" e] by (metis prod.collapse)
    then show ?thesis using 1(1) [OF _ m_def j] * Suc p m by auto
  qed
qed

lemma of_nat_unat_eq: "unat w = n \<Longrightarrow> w = of_nat n" for w :: "'a::len word"
  by (metis of_nat_unat ucast_id)

text \<open>A request for the bytes from \<open>base\<close> to \<open>e\<close> that crosses a line of \<open>2 ^ k\<close> bytes.\<close>

definition split_ok :: "mem_request \<Rightarrow> nat \<Rightarrow> nat \<Rightarrow> u32 \<Rightarrow> nat \<Rightarrow> bool" where
  "split_ok req base e lw k \<longleftrightarrow>
     rq_contextId req \<noteq> None \<and> rq_vaddr req = Some (of_nat base) \<and>
     rq_size req = Some (of_nat (e - base)) \<and> length (rq_byteEnable req) = e - base \<and>
     base < e \<and> e - base < 2 ^ 32 \<and> e + unat lw < 2 ^ 64 \<and> lw = 2 ^ k \<and> k < 32 \<and>
     transferNeedsBurst (of_nat base) (of_nat (e - base)) lw"

lemma split_okD:
  assumes "split_ok req base e lw k"
  shows "rq_contextId req \<noteq> None" "rq_vaddr req = Some (of_nat base)"
    "rq_size req = Some (of_nat (e - base))" "length (rq_byteEnable req) = e - base"
    "base < e" "e - base < 2 ^ 32" "e + unat lw < 2 ^ 64" "unat lw = 2 ^ k"
    "(ucast lw :: u64) = 2 ^ k" "base mod 2 ^ k + (e - base) > 2 ^ k"
    "unat (addrBlockOffset x (ucast lw)) = unat x mod 2 ^ k"
proof -
  have lw: "lw = 2 ^ k" "k < 32" and b: "transferNeedsBurst (of_nat base) (of_nat (e - base)) lw"
    and r: "base < e" "e - base < 2 ^ 32" "e + unat lw < 2 ^ 64"
    using assms unfolding split_ok_def by blast+
  show u: "unat lw = 2 ^ k" unfolding lw(1) by (rule unat_pow2) (simp add: lw(2))
  show l: "(ucast lw :: u64) = 2 ^ k"
    unfolding word_unat_eq_iff unat_ucast_32_64 u using lw(2) by (subst unat_pow2) simp_all
  show off: "unat (addrBlockOffset x (ucast lw)) = unat x mod 2 ^ k" for x
    unfolding addrBlockOffset_def l by (simp add: unat_and_mask flip: mask_eq_exp_minus_1)
  have ub: "unat (of_nat base :: u64) = base" using r by (intro unat_of_nat64) linarith
  have "base mod 2 ^ k < 2 ^ k" by simp
  then have lt: "base mod 2 ^ k + (e - base) < 2 ^ 64" using r u by linarith
  have "unat (addrBlockOffset (of_nat base) (ucast lw) + ucast (of_nat (e - base) :: u32)) = base mod 2 ^ k + (e - base)"
    by (rule unat_end [of "addrBlockOffset (of_nat base) (ucast lw)" "of_nat (e - base)",
        unfolded off ub unat_of_nat32 [OF r(2)], OF lt])
  then show "base mod 2 ^ k + (e - base) > 2 ^ k"
    using b unfolding transferNeedsBurst_def word_less_nat_alt unat_ucast_32_64 [of lw] u by simp
qed (use assms in \<open>unfold split_ok_def, blast+\<close>)

definition first_size :: "nat \<Rightarrow> nat \<Rightarrow> nat" where
  "first_size k base = 2 ^ k - base mod 2 ^ k"

definition middle_count :: "nat \<Rightarrow> nat \<Rightarrow> nat \<Rightarrow> nat" where
  "middle_count k base e = (e - (base + first_size k base)) div 2 ^ k"

lemma split_cut:
  assumes "split_ok req base e lw k"
  shows "e - base = first_size k base + (middle_count k base e * 2 ^ k + e mod 2 ^ k)"
    "(base + first_size k base) mod 2 ^ k = 0" "base + first_size k base < e"
proof -
  let ?f = "first_size k base"
  have m: "base mod 2 ^ k < 2 ^ k" by simp
  have "base + ?f = base div 2 ^ k * 2 ^ k + 2 ^ k"
    using m unfolding first_size_def by (metis add.assoc div_mult_mod_eq le_add_diff_inverse less_imp_le_nat)
  then show al: "(base + ?f) mod 2 ^ k = 0" by simp
  show lt: "base + ?f < e" using split_okD(5,10) [OF assms] m unfolding first_size_def by linarith
  have "(base + ?f + (e - (base + ?f))) mod 2 ^ k = (e - (base + ?f)) mod 2 ^ k"
    using al by (simp add: mod_add_left_eq [symmetric, of "base + ?f"])
  then have "(e - (base + ?f)) mod 2 ^ k = e mod 2 ^ k" using lt by simp
  then have "e - (base + ?f) = middle_count k base e * 2 ^ k + e mod 2 ^ k"
    unfolding middle_count_def by (metis div_mult_mod_eq)
  then show "e - base = ?f + (middle_count k base e * 2 ^ k + e mod 2 ^ k)" using lt by linarith
qed

lemma split_pieces_length:
  assumes "split_ok req base e lw k"
  shows "length (pieces (2 ^ k) base e) = 1 + middle_count k base e + (if e mod 2 ^ k = 0 then 0 else 1)"
proof -
  note c = split_cut [OF assms] and le = split_okD(5) [OF assms]
  have "min (2 ^ k - base mod 2 ^ k) (e - base) = first_size k base"
    using c(1) unfolding first_size_def [symmetric] by simp
  then have "pieces (2 ^ k) base e = (base, first_size k base) # pieces (2 ^ k) (base + first_size k base) e"
    using le by (simp add: pieces_step)
  moreover have "e = base + first_size k base + (middle_count k base e * 2 ^ k + e mod 2 ^ k)" using c(1) le by linarith
  ultimately show ?thesis
    using pieces_aligned [of "2 ^ k" "base + first_size k base" "e mod 2 ^ k" "middle_count k base e"] c(2) by simp
qed

lemma fragment_loop:
  assumes ok: "split_ok req base e lw k" and ffs: "unat ffs = first_size k base"
  shows "rfold (make_fragment (of_nat base) (of_nat e) lw ffs req) (of_nat base, frs, 0)
      [0..<length (pieces (2 ^ k) base e)] =
    Inr (of_nat e, frs @ map (fragment_of req base) (filter (active_piece req base) (pieces (2 ^ k) base e)),
         of_nat (length (filter (Not \<circ> active_piece req base) (pieces (2 ^ k) base e))))"
proof -
  let ?ps = "pieces (2 ^ k) base e"
  note le = split_okD(5-7) [OF ok] and ulw = split_okD(8) [OF ok]
  define ad where "ad i = (if i < length ?ps then fst (?ps ! i) else e)" for i
  define P where "P i s \<longleftrightarrow> s = (of_nat (ad i) :: u64, frs @ map (fragment_of req base) (filter (active_piece req base) (take i ?ps)),
         of_nat (length (filter (Not \<circ> active_piece req base) (take i ?ps))) :: u32)" for i s
  have "\<exists>s'. rfold (make_fragment (of_nat base) (of_nat e) lw ffs req) (of_nat base, frs, 0) [0..<length ?ps] = Inr s' \<and>
      P (length [0..<length ?ps]) s'"
  proof (rule rfold_invariant [where P = P])
    show "P 0 (of_nat base, frs, 0)" using le pieces_step [of "2 ^ k" base e] by (simp add: P_def ad_def)
  next
    fix i s assume "i < length [0..<length ?ps]" and Pi: "P i s"
    then have i: "i < length ?ps" by simp
    obtain a n where an: "?ps ! i = (a, n)" by (cases "?ps ! i")
    then have mem: "(a, n) \<in> set ?ps" using i nth_mem by fastforce
    note pm = pieces_mem [OF mem] and ps = pieces_snd [OF i, unfolded an fst_conv snd_conv]
    have n: "n = (if a = base then unat ffs else if a + unat lw > e then e - a else unat lw)"
    proof (cases "i = 0")
      case True
      then have "a = base" using an le pieces_step [of "2 ^ k" base e] by simp
      then show ?thesis using ps ffs split_cut(3) [OF ok] by (simp add: first_size_def)
    next
      case False
      then have "a mod 2 ^ k = 0" using pieces_head_aligned [of "2 ^ k" i base e] i an by simp
      then show ?thesis using ps pm False by (auto simp: ulw min_def)
    qed
    have "ad (Suc i) = a + n" using pieces_next [OF i] an by (simp add: ad_def)
    moreover have "ad i = a" using i an by (simp add: ad_def)
    moreover define F where "F = frs @ map (fragment_of req base) (filter (active_piece req base) (take i ?ps))"
    moreover define D where "D = (of_nat (length (filter (Not \<circ> active_piece req base) (take i ?ps))) :: u32)"
    moreover have "make_fragment (of_nat base) (of_nat e) lw ffs req (of_nat a, F, D) j =
        Inr (of_nat (a + n), if active_piece req base (a, n) then F @ [fragment_of req base (a, n)] else F,
             if active_piece req base (a, n) then D else D + 1)" for j
    proof (rule make_fragment_step [OF split_okD(1) [OF ok] _ split_okD(4) [OF ok] _ _ le(3) _ n])
      show "rq_vaddr req \<noteq> None" using split_okD(2) [OF ok] by simp
      show "base \<le> a" "a + n \<le> e" "n < 2 ^ 32" using pm le(2) by linarith+
    qed
    moreover have "s = (of_nat a, F, D)" using Pi \<open>ad i = a\<close> by (simp add: P_def F_def D_def)
    ultimately show "\<exists>s'. make_fragment (of_nat base) (of_nat e) lw ffs req s ([0..<length ?ps] ! i) = Inr s' \<and> P (Suc i) s'"
      using i an by (simp add: P_def take_Suc_conv_app_nth)
  qed
  then show ?thesis by (simp add: P_def ad_def)
qed

lemma of_nat32_eq_0: "n < 2 ^ 32 \<Longrightarrow> (of_nat n :: u32) = 0 \<longleftrightarrow> n = 0"
  using unat_of_nat32 [of n] by (simp only: unat_eq_zero [symmetric])

lemma split_offsets:
  assumes ok: "split_ok req base e lw k"
  shows "(ucast (addrBlockOffset (of_nat base) (ucast lw)) :: u32) = of_nat (base mod 2 ^ k)"
    "of_nat base + ucast (of_nat (e - base) :: u32) = (of_nat e :: u64)"
    "(ucast (addrBlockOffset (of_nat e) (ucast lw)) :: u32) = of_nat (e mod 2 ^ k)"
    "lw = of_nat (2 ^ k)" "lw \<noteq> 0"
proof -
  note d = split_okD [OF ok]
  have b64: "base < 2 ^ 64" "e < 2 ^ 64" using d(5,7) by linarith+
  have "0 < (2::nat) ^ k" by simp
  moreover from d(8) have p32: "2 ^ k < (2::nat) ^ 32" using unat32_less [of lw] by (simp only:)
  ultimately have m32: "x mod 2 ^ k < 2 ^ 32" for x :: nat by (rule less_trans [OF mod_less_divisor])
  show "lw = of_nat (2 ^ k)" using d(8) by (rule of_nat_unat_eq)
  show "lw \<noteq> 0" using d(8) by (auto simp: unat_eq_zero [symmetric])
  show "(ucast (addrBlockOffset (of_nat base) (ucast lw)) :: u32) = of_nat (base mod 2 ^ k)"
    by (rule of_nat_unat_eq)
      (simp add: unsigned_ucast_eq d(11) unat_of_nat64 [OF b64(1)] take_bit_nat_eq_self m32 [simplified])
  show "(ucast (addrBlockOffset (of_nat e) (ucast lw)) :: u32) = of_nat (e mod 2 ^ k)"
    by (rule of_nat_unat_eq)
      (simp add: unsigned_ucast_eq d(11) unat_of_nat64 [OF b64(2)] take_bit_nat_eq_self m32 [simplified])
  show "of_nat base + ucast (of_nat (e - base) :: u32) = (of_nat e :: u64)"
  proof (rule of_nat_unat_eq)
    show "unat (of_nat base + ucast (of_nat (e - base) :: u32) :: u64) = e"
      using unat_end [of "of_nat base" "of_nat (e - base)", unfolded unat_of_nat32 [OF d(6)] unat_of_nat64 [OF b64(1)]]
        d(5) b64 by (simp del: of_nat_diff)
  qed
qed

lemma split_counts:
  assumes ok: "split_ok req base e lw k"
  defines "f \<equiv> first_size k base" and "m \<equiv> middle_count k base e" and "l \<equiv> e mod 2 ^ k"
  shows "lw - of_nat (base mod 2 ^ k) = of_nat f"
    "(of_nat (e - base) :: u32) - (of_nat f + of_nat l) = of_nat (m * 2 ^ k)"
    "addrBlockOffset (ucast (of_nat (m * 2 ^ k) :: u32)) (ucast lw) = 0"
    "(of_nat (m * 2 ^ k) :: u32) div lw = of_nat m"
    "(1 + of_nat m + (if (of_nat l :: u32) = 0 then 0 else 1) :: u32) = of_nat (length (pieces (2 ^ k) base e))"
    "of_nat m * lw + of_nat f + of_nat l = (of_nat (e - base) :: u32)"
    "length (pieces (2 ^ k) base e) < 2 ^ 32" "unat (of_nat f :: u32) = f"
proof -
  note d = split_okD [OF ok] and c = split_cut [OF ok, folded f_def m_def l_def] and o = split_offsets [OF ok]
  have sz: "f + (m * 2 ^ k + l) < 2 ^ 32" using c(1) d(6) by simp
  then have m32: "m * 2 ^ k < 2 ^ 32" and l32: "l < 2 ^ 32" by linarith+
  show "lw - of_nat (base mod 2 ^ k) = of_nat f"
    unfolding o(4) f_def first_size_def by (subst of_nat_diff) simp_all
  show "(of_nat (e - base) :: u32) - (of_nat f + of_nat l) = of_nat (m * 2 ^ k)" unfolding c(1) by simp
  show "of_nat m * lw + of_nat f + of_nat l = (of_nat (e - base) :: u32)" unfolding o(4) c(1) by simp
  show "unat (of_nat f :: u32) = f" using sz by (intro unat_of_nat32) linarith
  have "unat (addrBlockOffset (ucast (of_nat (m * 2 ^ k) :: u32)) (ucast lw)) = 0"
    unfolding d(11) unat_ucast_32_64 unat_of_nat32 [OF m32] by simp
  then show "addrBlockOffset (ucast (of_nat (m * 2 ^ k) :: u32)) (ucast lw) = 0" by (simp only: unat_eq_zero)
  show "(of_nat (m * 2 ^ k) :: u32) div lw = of_nat m"
    by (rule of_nat_unat_eq) (simp only: unat_div unat_of_nat32 [OF m32] d(8), simp)
  have len: "length (pieces (2 ^ k) base e) = 1 + m + (if l = 0 then 0 else 1)"
    using split_pieces_length [OF ok] unfolding m_def l_def .
  then show "(1 + of_nat m + (if (of_nat l :: u32) = 0 then 0 else 1) :: u32) = of_nat (length (pieces (2 ^ k) base e))"
    by (simp add: of_nat32_eq_0 [OF l32])
  have "m \<le> m * 2 ^ k" "0 < f" by (simp_all add: f_def first_size_def)
  then have "1 + m + (if l = 0 then 0 else 1) \<le> f + (m * 2 ^ k + l)"
    by (split if_split, intro conjI impI; linarith)
  then show "length (pieces (2 ^ k) base e) < 2 ^ 32" using len sz by linarith
qed

lemma makeFragmentRequests_eq:
  assumes ok: "split_ok (lr_request r) base e lw k"
  shows "makeFragmentRequests lw r =
    Inr (r\<lparr>numFragments := of_nat (length (filter (active_piece (lr_request r) base) (pieces (2 ^ k) base e))),
           fragmentRequests := fragmentRequests r @
             map (fragment_of (lr_request r) base) (filter (active_piece (lr_request r) base) (pieces (2 ^ k) base e))\<rparr>)"
proof -
  let ?act = "active_piece (lr_request r) base" and ?ps = "pieces (2 ^ k) base e"
  note d = split_okD [OF ok] and o = split_offsets [OF ok] and c = split_counts [OF ok]
  have AD: "length (filter ?act ?ps) + length (filter (Not \<circ> ?act) ?ps) = length ?ps"
    using sum_length_filter_compl [of ?act ?ps] by (simp add: comp_def)
  have le: "(of_nat (length (filter (Not \<circ> ?act) ?ps)) :: u32) \<le> of_nat (length ?ps)"
    unfolding word_le_nat_alt using AD c(7) by (simp add: unat_of_nat32 del: length_filter_le)
  have "(of_nat (length ?ps) :: u32) = of_nat (length (filter ?act ?ps)) + of_nat (length (filter (Not \<circ> ?act) ?ps))"
    unfolding AD [symmetric] by simp
  then have df: "(of_nat (length ?ps) :: u32) - of_nat (length (filter (Not \<circ> ?act) ?ps)) = of_nat (length (filter ?act ?ps))"
    by simp
  show ?thesis
    unfolding makeFragmentRequests_def rq_getVaddr_def rq_getSize_def d(2,3) option.case rbind_simps Let_def
      o(1-3) c(1-6) fragment_loop [OF ok c(8)] unat_of_nat32 [OF c(7)] prod.case df
    using o(5) le by simp
qed

definition enabled_bytes :: "mem_request \<Rightarrow> nat list" where
  "enabled_bytes q =
     (case rq_vaddr q of None \<Rightarrow> [] | Some a \<Rightarrow> case rq_size q of None \<Rightarrow> [] | Some n \<Rightarrow>
        map ((+) (unat a)) (filter (\<lambda>i. rq_byteEnable q ! i) [0..<unat n]))"

lemma piece_fields:
  assumes ok: "split_ok req base e lw k" and p: "(a, n) \<in> set (pieces (2 ^ k) base e)"
  shows "base \<le> a" "0 < n" "a + n \<le> e" "a div 2 ^ k = (a + n - 1) div 2 ^ k"
    "unat (of_nat a :: u64) = a" "unat (of_nat n :: u32) = n"
    "length (piece_enable req base (a, n)) = n"
    "i < n \<Longrightarrow> piece_enable req base (a, n) ! i = rq_byteEnable req ! (a + i - base)"
proof -
  note m = pieces_mem [OF p] and d = split_okD [OF ok]
  show "base \<le> a" "0 < n" "a + n \<le> e" "a div 2 ^ k = (a + n - 1) div 2 ^ k" using m by auto
  show "unat (of_nat a :: u64) = a" using m d(7) by (intro unat_of_nat64) linarith
  show "unat (of_nat n :: u32) = n" using m d(6) by (intro unat_of_nat32) linarith
  show "length (piece_enable req base (a, n)) = n" using m d(4) by (auto simp: piece_enable_def)
  show "piece_enable req base (a, n) ! i = rq_byteEnable req ! (a + i - base)" if "i < n"
    using m d(4) that by (auto simp: piece_enable_def nth_drop)
qed

lemma enabled_fragment:
  assumes ok: "split_ok req base e lw k" and p: "(a, n) \<in> set (pieces (2 ^ k) base e)"
  shows "enabled_bytes (fragment_of req base (a, n)) =
    map ((+) a) (filter (\<lambda>i. rq_byteEnable req ! (a + i - base)) [0..<n])"
  using piece_fields [OF ok p] by (auto simp: enabled_bytes_def fragment_of_def intro: filter_cong)

lemma inactive_fragment:
  assumes ok: "split_ok req base e lw k" and p: "(a, n) \<in> set (pieces (2 ^ k) base e)"
    and "\<not> active_piece req base (a, n)"
  shows "enabled_bytes (fragment_of req base (a, n)) = []"
proof -
  have "\<not> piece_enable req base (a, n) ! i" if "i < n" for i
    using assms(3) piece_fields(7) [OF ok p] that
    by (metis active_piece_def isAnyActiveElement_def nth_mem)
  then show ?thesis using piece_fields(8) [OF ok p] by (simp add: enabled_fragment [OF ok p] filter_empty_conv)
qed

lemma fragments_concat:
  assumes ok: "split_ok req base e lw k"
  shows "concat (map enabled_bytes (map (fragment_of req base) (filter (active_piece req base) (pieces (2 ^ k) base e)))) =
    enabled_bytes req"
proof -
  let ?ps = "pieces (2 ^ k) base e"
  have "concat (map enabled_bytes (map (fragment_of req base) (filter (active_piece req base) qs))) =
      concat (map (\<lambda>(a, n). map ((+) a) (filter (\<lambda>i. rq_byteEnable req ! (a + i - base)) [0..<n])) qs)"
    if "set qs \<subseteq> set ?ps" for qs
    using that
  proof (induction qs)
    case (Cons q qs)
    obtain a n where q: "q = (a, n)" by (cases q)
    then have p: "(a, n) \<in> set ?ps" using Cons.prems by simp
    show ?case using Cons q enabled_fragment [OF ok p] inactive_fragment [OF ok p] by auto
  qed simp
  from this [of ?ps] have "concat (map enabled_bytes (map (fragment_of req base) (filter (active_piece req base) ?ps))) =
      map ((+) base) (filter (\<lambda>i. rq_byteEnable req ! (base + i - base)) [0..<e - base])"
    using pieces_enabled [of "\<lambda>x. rq_byteEnable req ! (x - base)" "2 ^ k" base e] by simp
  also have "\<dots> = enabled_bytes req"
  proof -
    have "base < 2 ^ 64" using split_okD(5,7) [OF ok] by linarith
    then show ?thesis using split_okD(2,3) [OF ok] unat_of_nat32 [OF split_okD(6) [OF ok]]
      by (simp add: enabled_bytes_def unat_of_nat64 del: of_nat_diff)
  qed
  finally show ?thesis .
qed

text \<open>
  C19: A transfer that crosses a cache line is partitioned. \<^verbatim>\<open>makeFragmentRequests\<close> trips none of its
  assertions; read in order, the enabled bytes of the fragments are exactly the enabled bytes of the
  whole request, each once; every fragment has an enabled byte and lies within one line; and
  \<^verbatim>\<open>numFragments\<close> counts them.
\<close>

theorem fragments_partition:
  assumes ok: "split_ok (lr_request r) base e lw k" and new: "fragmentRequests r = []"
  shows "\<exists>r'. makeFragmentRequests lw r = Inr r' \<and> unat (numFragments r') = length (fragmentRequests r') \<and>
    concat (map enabled_bytes (fragmentRequests r')) = enabled_bytes (lr_request r) \<and>
    (\<forall>q \<in> set (fragmentRequests r'). \<exists>a n. rq_vaddr q = Some a \<and> rq_size q = Some n \<and> 0 < n \<and>
       enabled_bytes q \<noteq> [] \<and> unat a div unat lw = (unat a + unat n - 1) div unat lw)"
proof -
  let ?fs = "map (fragment_of (lr_request r) base) (filter (active_piece (lr_request r) base) (pieces (2 ^ k) base e))"
  have len: "length (filter (active_piece (lr_request r) base) (pieces (2 ^ k) base e)) < 2 ^ 32"
    using split_counts(7) [OF ok] length_filter_le le_less_trans by blast
  have "\<exists>a n. rq_vaddr q = Some a \<and> rq_size q = Some n \<and> 0 < n \<and> enabled_bytes q \<noteq> [] \<and>
      unat a div unat lw = (unat a + unat n - 1) div unat lw" if "q \<in> set ?fs" for q
  proof -
    from that obtain a n where p: "(a, n) \<in> set (pieces (2 ^ k) base e)" and act: "active_piece (lr_request r) base (a, n)"
      and q: "q = fragment_of (lr_request r) base (a, n)" by auto
    note f = piece_fields [OF ok p]
    from act obtain i where "i < n" "piece_enable (lr_request r) base (a, n) ! i"
      using f(7) by (auto simp: active_piece_def isAnyActiveElement_def in_set_conv_nth)
    then have "enabled_bytes q \<noteq> []" using f(8) unfolding q enabled_fragment [OF ok p] by (auto simp: filter_empty_conv)
    moreover have "0 < (of_nat n :: u32)" using f(2,6) by (simp add: word_less_nat_alt)
    ultimately show ?thesis using f(4-6) split_okD(8) [OF ok]
      by (intro exI [of _ "of_nat a"] exI [of _ "of_nat n"]) (simp add: q fragment_of_def)
  qed
  then show ?thesis using makeFragmentRequests_eq [OF ok] fragments_concat [OF ok] new
    by (auto simp: unat_of_nat32 [OF len])
qed

text \<open>A load of sixteen bytes, eight on each side of a boundary between lines of 64 bytes.\<close>

definition ex_split :: lsq_req where
  "ex_split = (lr_new SplitDataRequest 0 True None)\<lparr>lr_request :=
     (rq_setVirt 0x38 16 0 3 0x80 False (rq_setContext 0 request_new))\<lparr>rq_byteEnable := replicate 16 True\<rparr>\<rparr>"

lemma ex_split_ok: "split_ok (lr_request ex_split) 0x38 0x48 64 6"
  by (simp add: split_ok_def ex_split_def lr_new_def rq_setVirt_def rq_setContext_def request_new_def
      transferNeedsBurst_def addrBlockOffset_def)

theorem fragments_partition_witness:
  "\<exists>r'. makeFragmentRequests 64 ex_split = Inr r' \<and> unat (numFragments r') = length (fragmentRequests r') \<and>
    concat (map enabled_bytes (fragmentRequests r')) = enabled_bytes (lr_request ex_split)"
  using fragments_partition [OF ex_split_ok] by (auto simp: ex_split_def lr_new_def)

section \<open>Reassembly\<close>

lemma rbind_Inr_right: "rbind m Inr = m"
  by (cases m) simp_all

lemma memcpy_nth:
  assumes "memcpy dst doff src soff n = Inr d"
  shows "length d = length dst" "i < length dst \<Longrightarrow> d ! i = (if doff \<le> i \<and> i < doff + n then src ! (soff + (i - doff)) else dst ! i)"
    "doff + n \<le> length dst" "soff + n \<le> length src"
proof -
  define x where "x = take n (drop soff src)"
  show b: "doff + n \<le> length dst" "soff + n \<le> length src" using assms by (auto simp: memcpy_def split: if_splits)
  then have d: "d = take doff dst @ x @ drop (doff + n) dst" using assms by (simp add: memcpy_def x_def)
  have x: "length x = n" "\<And>j. j < n \<Longrightarrow> x ! j = src ! (soff + j)" using b by (simp_all add: x_def)
  show "length d = length dst" using b x by (simp add: d)
  show "d ! i = (if doff \<le> i \<and> i < doff + n then src ! (soff + (i - doff)) else dst ! i)" if "i < length dst"
    using that b x by (auto simp: d nth_append)
qed

lemma memcpy_all: "length dst = n \<Longrightarrow> length src = n \<Longrightarrow> memcpy dst 0 src 0 n = Inr src"
  by (simp add: memcpy_def)

definition request_bytes :: "(nat \<Rightarrow> u8) \<Rightarrow> mem_request \<Rightarrow> u8 list" where
  "request_bytes mem q =
     (case rq_vaddr q of None \<Rightarrow> [] | Some a \<Rightarrow> case rq_size q of None \<Rightarrow> [] | Some n \<Rightarrow>
        map (\<lambda>i. mem (unat a + i)) [0..<unat n])"

text \<open>A successful response to a fragment: it carries what memory holds at the fragment's addresses.\<close>

definition answers :: "(nat \<Rightarrow> u8) \<Rightarrow> mem_packet \<Rightarrow> mem_request \<Rightarrow> bool" where
  "answers mem p q \<longleftrightarrow> rq_vaddr (pk_req p) = rq_vaddr q \<and> rq_size (pk_req p) = rq_size q \<and>
     \<not> pk_is IsError p \<and> pk_data p = Some (request_bytes mem q)"

text \<open>A split load all of whose bytes are enabled, translated and sent, with nothing retired.\<close>

definition split_sent :: "nat \<Rightarrow> nat \<Rightarrow> mem_packet \<Rightarrow> lsq_req \<Rightarrow> bool" where
  "split_sent base e p r \<longleftrightarrow>
     base < e \<and> e < 2 ^ 64 \<and> e - base < 2 ^ 32 \<and>
     rq_vaddr (lr_request r) = Some (of_nat base) \<and> rq_size (lr_request r) = Some (of_nat (e - base)) \<and>
     concat (map enabled_bytes (fragmentRequests r)) = [base..<e] \<and>
     length (fragmentRequests r) < 2 ^ 32 \<and>
     (\<forall>q \<in> set (fragmentRequests r). \<exists>a n. rq_vaddr q = Some a \<and> rq_size q = Some n \<and>
        base \<le> unat a \<and> unat a + unat n \<le> e) \<and>
     lr_isLoad r \<and> \<not> skipped r \<and> lr_state r \<noteq> Complete \<and> lr_data r = None \<and>
     numTranslatedFragments r = of_nat (length (fragmentRequests r)) \<and> numRetiredFragments r = 0 \<and>
     lr_packet r = Some p \<and> pk_is NeedsResponse p \<and> pk_is IsRequest p \<and> \<not> pk_isMaskedWrite p \<and>
     (\<exists>d. pk_data p = Some d \<and> length d = e - base)"

definition data_held :: "(nat \<Rightarrow> u8) \<Rightarrow> nat \<Rightarrow> nat \<Rightarrow> mem_request list \<Rightarrow> nat \<Rightarrow> u8 list option \<Rightarrow> bool" where
  "data_held mem base e qs i d \<longleftrightarrow>
     (case d of None \<Rightarrow> i = 0 | Some bs \<Rightarrow> length bs = e - base \<and>
        (\<forall>q \<in> set (take i qs). \<forall>x \<in> set (enabled_bytes q). bs ! (x - base) = mem x))"

lemma split_paste_held:
  assumes sent: "split_sent base e p r0" and d: "data_held mem base e qs i d"
    and qs: "set qs \<subseteq> set (fragmentRequests r0)" and i: "i < length qs" and ans: "answers mem resp (qs ! i)"
  shows "\<exists>bs. split_paste junk resp (r0\<lparr>numRetiredFragments := m, lr_data := d\<rparr>) =
      Inr (r0\<lparr>numRetiredFragments := m, lr_data := Some bs\<rparr>) \<and> data_held mem base e qs (Suc i) (Some bs)"
proof -
  note sent = sent [unfolded split_sent_def]
  have "qs ! i \<in> set (fragmentRequests r0)" using qs i nth_mem by blast
  then obtain a n where an: "rq_vaddr (qs ! i) = Some a" "rq_size (qs ! i) = Some n" "base \<le> unat a" "unat a + unat n \<le> e"
    using sent by meson
  have ub: "unat (of_nat base :: u64) = base" using sent by (intro unat_of_nat64) linarith
  have us: "unat (of_nat (e - base) :: u32) = e - base" using sent by (intro unat_of_nat32) blast
  have off: "unat (a - of_nat base) = unat a - base" using an(3) ub by (subst unat_sub) (simp_all add: word_le_nat_alt)
  define d0 where "d0 = (case d of None \<Rightarrow> map junk [0..<e - base] | Some bs \<Rightarrow> bs)"
  have d0: "length d0 = e - base" "\<forall>q \<in> set (take i qs). \<forall>x \<in> set (enabled_bytes q). d0 ! (x - base) = mem x"
    using d by (auto simp: d0_def data_held_def split: option.splits)
  define src where "src = map (\<lambda>j. mem (unat a + j)) [0..<unat n]"
  have "\<exists>bs. memcpy d0 (unat a - base) src 0 (unat n) = Inr bs" using an d0(1) by (simp add: memcpy_def src_def)
  then obtain bs where bs: "memcpy d0 (unat a - base) src 0 (unat n) = Inr bs" by blast
  note nth = memcpy_nth [OF bs]
  have dd: "(case d of None \<Rightarrow> map junk [0..<unat (of_nat (e - base) :: u32)] | Some bs \<Rightarrow> bs) = d0"
    unfolding d0_def us ..
  have "split_paste junk resp (r0\<lparr>numRetiredFragments := m, lr_data := d\<rparr>) =
      Inr (r0\<lparr>numRetiredFragments := m, lr_data := Some bs\<rparr>)"
    using sent ans an bs off
    by (simp add: split_paste_def rq_getSize_def rq_getVaddr_def answers_def request_bytes_def pk_getConstPtr_def
        dd src_def del: of_nat_diff)
  moreover have "bs ! (x - base) = mem x" if q: "q \<in> set (take (Suc i) qs)" and x: "x \<in> set (enabled_bytes q)" for q x
  proof -
    have xr: "base \<le> x" "x < e"
    proof -
      have "q \<in> set (fragmentRequests r0)" using q qs by (meson in_set_takeD subsetD)
      then have "x \<in> set (concat (map enabled_bytes (fragmentRequests r0)))" using x by auto
      then show "base \<le> x" "x < e" using sent by simp_all
    qed
    show ?thesis
    proof (cases "unat a \<le> x \<and> x < unat a + unat n")
      case True
      then show ?thesis using nth(2) [of "x - base"] d0(1) xr an(3) by (auto simp: src_def)
    next
      case False
      have "q \<noteq> qs ! i" using False x an by (auto simp: enabled_bytes_def)
      then have "q \<in> set (take i qs)" using q i by (auto simp: take_Suc_conv_app_nth)
      then show ?thesis using nth(2) [of "x - base"] d0 xr False x an(3) by auto
    qed
  qed
  ultimately show ?thesis using nth(1) d0(1) by (intro exI [of _ bs]) (simp add: data_held_def)
qed

lemma split_retire_step:
  assumes sent: "split_sent base e p r0" and d: "data_held mem base e qs i d"
    and qs: "set qs \<subseteq> set (fragmentRequests r0)" and i: "i < length qs" "length qs = length (fragmentRequests r0)"
    and ans: "answers mem resp (qs ! i)" and nf: "translationFault inst = NoFault"
  shows "\<exists>bs. data_held mem base e qs (Suc i) (Some bs) \<and>
    split_retireResponse junk inst resp (r0\<lparr>numRetiredFragments := of_nat i, lr_data := d\<rparr>) =
      (if Suc i < length qs then Inr (r0\<lparr>numRetiredFragments := of_nat (Suc i), lr_data := Some bs\<rparr>)
       else split_complete junk (r0\<lparr>numRetiredFragments := of_nat (Suc i), lr_data := Some bs, lr_state := Complete\<rparr>))"
proof -
  note s = sent [unfolded split_sent_def]
  have n32: "length qs < 2 ^ 32" using s i(2) by simp
  have u: "unat (of_nat j :: u32) = j" if "j \<le> length qs" for j using that n32 by (intro unat_of_nat32) linarith
  have lt: "(of_nat i :: u32) < numTranslatedFragments r0"
    using s i u [of i] u [of "length qs"] by (simp add: word_less_nat_alt)
  have eq: "(of_nat (Suc i) :: u32) = numTranslatedFragments r0 \<longleftrightarrow> \<not> Suc i < length qs"
    using s i u [of "Suc i"] u [of "length qs"] by (auto simp: word_unat_eq_iff simp del: of_nat_Suc)
  obtain bs where bs: "split_paste junk resp (r0\<lparr>numRetiredFragments := of_nat (Suc i), lr_data := d\<rparr>) =
      Inr (r0\<lparr>numRetiredFragments := of_nat (Suc i), lr_data := Some bs\<rparr>)" "data_held mem base e qs (Suc i) (Some bs)"
    using split_paste_held [OF sent d qs i(1) ans] by blast
  have inc: "r0\<lparr>lr_data := d, numRetiredFragments := 1 + of_nat i\<rparr> = r0\<lparr>numRetiredFragments := of_nat (Suc i), lr_data := d\<rparr>"
    by simp
  show ?thesis
  proof (intro exI [of _ bs] conjI bs(2))
    have "\<not> pk_is IsError resp" using ans by (simp add: answers_def)
    then show "split_retireResponse junk inst resp (r0\<lparr>numRetiredFragments := of_nat i, lr_data := d\<rparr>) =
      (if Suc i < length qs then Inr (r0\<lparr>numRetiredFragments := of_nat (Suc i), lr_data := Some bs\<rparr>)
       else split_complete junk (r0\<lparr>numRetiredFragments := of_nat (Suc i), lr_data := Some bs, lr_state := Complete\<rparr>))"
      using s nf lt eq bs(1)
      by (simp add: split_retireResponse_def inc Let_def lr_setState_def lr_isComplete_def add.commute del: of_nat_Suc)
  qed
qed

lemma data_held_all:
  assumes sent: "split_sent base e p r0" and d: "data_held mem base e qs (length qs) (Some bs)"
    and qs: "set qs = set (fragmentRequests r0)"
  shows "bs = map mem [base..<e]"
proof (rule nth_equalityI)
  note s = sent [unfolded split_sent_def]
  show len: "length bs = length (map mem [base..<e])" using d by (simp add: data_held_def)
  fix i assume "i < length bs"
  then have x: "base + i < e" using len by simp
  then have "base + i \<in> set (concat (map enabled_bytes (fragmentRequests r0)))" using s by simp
  then obtain q where "q \<in> set qs" "base + i \<in> set (enabled_bytes q)" using qs by auto
  moreover have "\<forall>q \<in> set qs. \<forall>x \<in> set (enabled_bytes q). bs ! (x - base) = mem x"
    using d by (simp add: data_held_def)
  ultimately have "bs ! (base + i - base) = mem (base + i)" by blast
  then show "bs ! i = map mem [base..<e] ! i" using x by simp
qed

lemma split_complete_data:
  assumes sent: "split_sent base e p r0" and len: "length bs = e - base"
  shows "\<exists>r'. split_complete junk (r0\<lparr>numRetiredFragments := m, lr_data := Some bs, lr_state := Complete\<rparr>) = Inr r' \<and>
    lr_state r' = Complete \<and>
    lr_packet r' = Some (p\<lparr>pk_cmd := responseCommand (pk_cmd p), pk_data := Some bs, pk_expressSnoop := False\<rparr>)"
proof -
  note s = sent [unfolded split_sent_def]
  have us: "unat (of_nat (e - base) :: u32) = e - base" using s by (intro unat_of_nat32) blast
  obtain d where d: "pk_data p = Some d" "length d = e - base" using s by blast
  have cp: "memcpy d 0 bs 0 (unat (of_nat (e - base) :: u32)) = Inr bs" unfolding us using d len by (simp add: memcpy_all)
  have q: "pk_is NeedsResponse (p\<lparr>pk_data := Some bs\<rparr>)" "pk_is IsRequest (p\<lparr>pk_data := Some bs\<rparr>)"
    using s by (simp_all add: pk_is_def)
  show ?thesis using s d cp q
    by (simp add: split_complete_def rq_getSize_def lr_pkt_def pk_getPtr_def pk_getConstPtr_def pk_makeResponse_def
        del: of_nat_diff)
qed

text \<open>
  C20: A split load returns memory. Whatever the order in which the responses to its fragments
  arrive, retiring all of them succeeds, completes the request, and leaves in its packet, now a
  response, the bytes memory holds at the addresses of the whole transfer.
\<close>

theorem split_load_reassembly:
  assumes sent: "split_sent base e p r" and perm: "mset qs = mset (fragmentRequests r)"
    and ans: "list_all2 (answers mem) resps qs" and nf: "translationFault inst = NoFault"
  shows "\<exists>r'. rfold (\<lambda>r resp. split_retireResponse junk inst resp r) r resps = Inr r' \<and> lr_state r' = Complete \<and>
    lr_packet r' = Some (p\<lparr>pk_cmd := responseCommand (pk_cmd p), pk_data := Some (map mem [base..<e]), pk_expressSnoop := False\<rparr>)"
proof -
  have qs: "set qs = set (fragmentRequests r)" "length qs = length (fragmentRequests r)"
    using perm by (auto dest: mset_eq_setD mset_eq_length)
  have len: "length resps = length qs" using ans by (rule list_all2_lengthD)
  have "concat (map enabled_bytes (fragmentRequests r)) = [base..<e]" "base < e" using sent unfolding split_sent_def by blast+
  then have ne: "length qs \<noteq> 0" using qs(2) by (cases "fragmentRequests r") (auto dest: arg_cong [where f = length])
  define n where "n = length qs - 1"
  have n: "n < length qs" "Suc n = length qs" using ne by (auto simp: n_def)
  note step = split_retire_step [OF sent _ equalityD1 [OF qs(1)] _ qs(2) _ nf]
  define P where "P i s \<longleftrightarrow> (\<exists>d. s = r\<lparr>numRetiredFragments := of_nat i, lr_data := d\<rparr> \<and> data_held mem base e qs i d)" for i s
  have "\<exists>s'. rfold (\<lambda>r resp. split_retireResponse junk inst resp r) r (take n resps) = Inr s' \<and> P (length (take n resps)) s'"
  proof (rule rfold_invariant [where P = P])
    have "r = r\<lparr>numRetiredFragments := 0, lr_data := None\<rparr>" using sent by (simp add: split_sent_def)
    then show "P 0 r" unfolding P_def data_held_def by (intro exI [of _ None]) simp
  next
    fix i s assume i: "i < length (take n resps)" and "P i s"
    then obtain d where d: "s = r\<lparr>numRetiredFragments := of_nat i, lr_data := d\<rparr>" "data_held mem base e qs i d" by (auto simp: P_def)
    from i n len have "i < length qs" "Suc i < length qs" by auto
    moreover from this ans have "answers mem (resps ! i) (qs ! i)" using len by (simp add: list_all2_nthD)
    ultimately show "\<exists>s'. split_retireResponse junk inst (take n resps ! i) s = Inr s' \<and> P (Suc i) s'"
      using step [OF d(2)] i d(1) unfolding P_def by fastforce
  qed
  then obtain d where d: "data_held mem base e qs n d" and
    run: "rfold (\<lambda>r resp. split_retireResponse junk inst resp r) r (take n resps) = Inr (r\<lparr>numRetiredFragments := of_nat n, lr_data := d\<rparr>)"
    using n len by (auto simp: P_def)
  have "answers mem (resps ! n) (qs ! n)" using ans n len by (simp add: list_all2_nthD)
  from step [OF d n(1) this] obtain bs where bs: "data_held mem base e qs (length qs) (Some bs)"
    and last: "split_retireResponse junk inst (resps ! n) (r\<lparr>numRetiredFragments := of_nat n, lr_data := d\<rparr>) =
      split_complete junk (r\<lparr>numRetiredFragments := of_nat (Suc n), lr_data := Some bs, lr_state := Complete\<rparr>)"
    using n(2) by auto
  have "resps = take n resps @ [resps ! n]" using n len by (metis take_Suc_conv_app_nth take_all_iff le_refl)
  then have "rfold (\<lambda>r resp. split_retireResponse junk inst resp r) r resps =
      rfold (\<lambda>r resp. split_retireResponse junk inst resp r) r (take n resps @ [resps ! n])"
    by (rule arg_cong)
  also have "\<dots> = split_complete junk (r\<lparr>numRetiredFragments := of_nat (Suc n), lr_data := Some bs, lr_state := Complete\<rparr>)"
    unfolding rfold_append run rbind_simps rfold.simps last by (rule rbind_Inr_right)
  finally have "rfold (\<lambda>r resp. split_retireResponse junk inst resp r) r resps =
      split_complete junk (r\<lparr>numRetiredFragments := of_nat (Suc n), lr_data := Some bs, lr_state := Complete\<rparr>)" .
  then show ?thesis
    using split_complete_data [OF sent] bs data_held_all [OF sent bs qs(1)] by (simp add: data_held_def)
qed

definition ex_fragment :: "nat \<Rightarrow> mem_request" where
  "ex_fragment a = fragment_of (lr_request ex_split) 0x38 (a, 8)"

definition ex_packet :: "mem_request \<Rightarrow> mem_cmd \<Rightarrow> u8 list \<Rightarrow> mem_packet" where
  "ex_packet q c d = \<lparr>pk_cmd = c, pk_req = q, pk_data = Some d, pk_addr = Some 0, pk_isSecure = False,
     pk_size = rq_size q, pk_bytesValid = [], pk_expressSnoop = False, pk_senderState = [0]\<rparr>"

definition ex_sent :: lsq_req where
  "ex_sent = ex_split\<lparr>fragmentRequests := [ex_fragment 0x38, ex_fragment 0x40], numFragments := 2,
     numTranslatedFragments := 2, numIssuedFragments := 2, lr_state := RequestIssuing,
     lr_packet := Some (ex_packet (lr_request ex_split) ReadReq (replicate 16 0))\<rparr>"

lemma ex_packet_attributes:
  "testCmdAttrib ReadReq NeedsResponse" "testCmdAttrib ReadReq IsRequest" "\<not> testCmdAttrib ReadResp IsError"
  by code_simp+

lemma ex_sent_ok: "split_sent 0x38 0x48 (ex_packet (lr_request ex_split) ReadReq (replicate 16 0)) ex_sent"
proof -
  have e: "enabled_bytes (ex_fragment 0x38) @ enabled_bytes (ex_fragment 0x40) = [0x38..<0x48]"
    by code_simp
  show ?thesis using e
    by (simp add: split_sent_def ex_sent_def ex_split_def lr_new_def rq_setVirt_def rq_setContext_def request_new_def
        ex_packet_def ex_packet_attributes pk_is_def pk_isMaskedWrite_def ex_fragment_def fragment_of_def)
qed

theorem split_load_reassembly_witness:
  "\<exists>r'. rfold (\<lambda>r resp. split_retireResponse (\<lambda>_. 0) di_bubble resp r) ex_sent
      [ex_packet (ex_fragment 0x40) ReadResp (request_bytes of_nat (ex_fragment 0x40)),
       ex_packet (ex_fragment 0x38) ReadResp (request_bytes of_nat (ex_fragment 0x38))] = Inr r' \<and>
    lr_state r' = Complete \<and> (\<exists>p. lr_packet r' = Some p \<and> pk_data p = Some (map of_nat [0x38..<0x48]))"
proof -
  have "list_all2 (answers of_nat)
      [ex_packet (ex_fragment 0x40) ReadResp (request_bytes of_nat (ex_fragment 0x40)),
       ex_packet (ex_fragment 0x38) ReadResp (request_bytes of_nat (ex_fragment 0x38))]
      [ex_fragment 0x40, ex_fragment 0x38]"
    by (simp add: answers_def ex_packet_def pk_is_def ex_packet_attributes)
  moreover have "mset [ex_fragment 0x40, ex_fragment 0x38] = mset (fragmentRequests ex_sent)"
    by (simp add: ex_sent_def)
  moreover have "translationFault di_bubble = NoFault" by (simp add: di_bubble_def dyn_inst_new_def)
  ultimately obtain r' where "rfold (\<lambda>r resp. split_retireResponse (\<lambda>_. 0) di_bubble resp r) ex_sent
      [ex_packet (ex_fragment 0x40) ReadResp (request_bytes of_nat (ex_fragment 0x40)),
       ex_packet (ex_fragment 0x38) ReadResp (request_bytes of_nat (ex_fragment 0x38))] = Inr r'" "lr_state r' = Complete"
    "lr_packet r' = Some ((ex_packet (lr_request ex_split) ReadReq (replicate 16 0))\<lparr>pk_cmd :=
       responseCommand (pk_cmd (ex_packet (lr_request ex_split) ReadReq (replicate 16 0))),
       pk_data := Some (map of_nat [0x38..<0x48]), pk_expressSnoop := False\<rparr>)"
    using split_load_reassembly [OF ex_sent_ok] by blast
  then show ?thesis by (intro exI [of _ r'] conjI) (assumption+, simp)
qed

end
