(* ===== verification/LSQ.thy ===== *)
theory LSQ
  imports LSQSplit Buffers CVU
begin

unbundle bit_operations_syntax

text \<open>
  The load/store queue, class \<^verbatim>\<open>LSQ\<close> of \<^verbatim>\<open>cpu/myminor/lsq.hh\<close> and \<^verbatim>\<open>lsq.cc\<close>. Requests
  and instructions are shared between queues through pointers, so the state has a store for each:
  \<open>lq_heap\<close> maps a pointer to a live request, \<open>lq_insts\<close> to an instruction; \<^verbatim>\<open>new\<close> takes the next
  address and \<^verbatim>\<open>delete\<close> removes it, after which a dereference is \<open>Undefined\<close>. The queues hold
  pointers. \<open>lq_sent\<close> are the packets the data cache has accepted, oldest first, and \<open>lq_wakeups\<close>
  counts the calls that wake the pipeline.

  \<open>lsq_env\<close> is what the queue calls and does not own: the stream and head tests of the Execute
  stage, whether the cache accepts a packet (given those accepted before), the effect of a local
  accessor on a packet, the answer of the address translation (\<open>None\<close> when it is delayed; the
  response is then a later call of \<open>lsq_finish\<close>), the instruction set's \<^verbatim>\<open>initiateAcc\<close> and
  \<^verbatim>\<open>completeAcc\<close> with the predicates they leave in the thread, and the contents of fresh memory.
\<close>

section \<open>State\<close>

record addr_monitor =
  mon_armed :: bool
  mon_waiting :: bool
  mon_pAddr :: u64

record lsq_thread =
  th_predicate :: bool
  th_memAccPredicate :: bool
  th_reservation :: u64
  th_stCondFailures :: nat
  th_monitor :: addr_monitor

record store_buffer =
  numSlots :: u32
  storeLimitPerCycle :: u32
  slots :: "nat list"
  numUnissuedAccesses :: u32

record lsq =
  lq_heap :: "nat \<rightharpoonup> lsq_req"
  lq_fresh :: nat
  lq_insts :: "nat \<rightharpoonup> dyn_inst"
  lq_threads :: "lsq_thread list"
  lastMemBarrier :: "u64 list"
  lq_state :: MemoryState
  inMemorySystemLimit :: u32
  lineWidth :: u32
  requests :: "nat mqueue"
  transfers :: "nat mqueue"
  storeBuffer :: store_buffer
  numAccessesInMemorySystem :: u32
  numAccessesInDTLB :: u32
  numStoresInTransfers :: u32
  numAccessesIssuedToMemory :: u32
  retryRequest :: "nat option"
  cacheBlockMask :: u64
  lq_cvu :: cvu
  CvuConstUse :: nat
  lq_sent :: "mem_packet list"
  lq_wakeups :: nat
  lq_woken :: "nat list"

record lsq_env =
  le_rightStream :: "dyn_inst \<Rightarrow> bool"
  le_headInst :: "dyn_inst \<Rightarrow> bool"
  le_sendTimingReq :: "mem_packet list \<Rightarrow> mem_packet \<Rightarrow> bool"
  le_localAccessor :: "mem_packet \<Rightarrow> mem_packet"
  le_translate :: "mem_request \<Rightarrow> (fault \<times> mem_request) option"
  le_initiateAcc :: "dyn_inst \<Rightarrow> fault \<times> bool \<times> bool"
  le_completeAcc :: "dyn_inst \<Rightarrow> bool \<times> bool"
  le_contextId :: "int \<Rightarrow> int"
  le_dataRequestorId :: u16
  le_junk :: "nat \<Rightarrow> u8"

definition lsq_new :: "nat \<Rightarrow> u32 \<Rightarrow> u32 \<Rightarrow> u32 \<Rightarrow> u32 \<Rightarrow> u32 \<Rightarrow> u32 \<Rightarrow> u32 \<Rightarrow> cvu \<Rightarrow> lsq result" where
  "lsq_new numThreads cacheLineSize in_memory_system_limit line_width requests_queue_size
     transfers_queue_size store_buffer_size store_buffer_cycle_store_limit c =
     (let lw = (if line_width = 0 then cacheLineSize else line_width);
          s = \<lparr>lq_heap = Map.empty, lq_fresh = 0, lq_insts = Map.empty,
               lq_threads = replicate numThreads \<lparr>th_predicate = True, th_memAccPredicate = True,
                 th_reservation = - 1, th_stCondFailures = 0,
                 th_monitor = \<lparr>mon_armed = False, mon_waiting = False, mon_pAddr = 0\<rparr>\<rparr>,
               lastMemBarrier = replicate numThreads 0, lq_state = MemoryRunning,
               inMemorySystemLimit = in_memory_system_limit, lineWidth = lw,
               requests = queue_new requests_queue_size, transfers = queue_new transfers_queue_size,
               storeBuffer = \<lparr>numSlots = store_buffer_size,
                 storeLimitPerCycle = store_buffer_cycle_store_limit, slots = [], numUnissuedAccesses = 0\<rparr>,
               numAccessesInMemorySystem = 0, numAccessesInDTLB = 0, numStoresInTransfers = 0,
               numAccessesIssuedToMemory = 0, retryRequest = None,
               cacheBlockMask = ucast (NOT (cacheLineSize - 1)), lq_cvu = c, CvuConstUse = 0,
               lq_sent = [], lq_wakeups = 0, lq_woken = []\<rparr> in
      if in_memory_system_limit < 1 \<or> store_buffer_cycle_store_limit < 1 \<or> requests_queue_size < 1 \<or>
         transfers_queue_size < 1 \<or> store_buffer_size < 1 \<or> lw AND (lw - 1) \<noteq> 0
      then Inl Fatal else Inr s)"

section \<open>Pointers\<close>

definition lsq_at :: "lsq \<Rightarrow> nat \<Rightarrow> lsq_req result" where
  "lsq_at s p = (case lq_heap s p of None \<Rightarrow> Inl Undefined | Some r \<Rightarrow> Inr r)"

definition lsq_put :: "nat \<Rightarrow> lsq_req \<Rightarrow> lsq \<Rightarrow> lsq" where
  "lsq_put p r s = s\<lparr>lq_heap := (lq_heap s)(p \<mapsto> r)\<rparr>"

definition lsq_upd :: "nat \<Rightarrow> (lsq_req \<Rightarrow> lsq_req) \<Rightarrow> lsq \<Rightarrow> lsq result" where
  "lsq_upd p f s = rbind (lsq_at s p) (\<lambda>r. Inr (lsq_put p (f r) s))"

definition lsq_alloc :: "lsq_req \<Rightarrow> lsq \<Rightarrow> nat \<times> lsq" where
  "lsq_alloc r s = (lq_fresh s, lsq_put (lq_fresh s) r (s\<lparr>lq_fresh := Suc (lq_fresh s)\<rparr>))"

definition lsq_delete :: "nat \<Rightarrow> lsq \<Rightarrow> lsq" where
  "lsq_delete p s = s\<lparr>lq_heap := (lq_heap s)(p := None)\<rparr>"

definition lsq_inst :: "lsq \<Rightarrow> nat \<Rightarrow> dyn_inst result" where
  "lsq_inst s ip = (case lq_insts s ip of None \<Rightarrow> Inl Undefined | Some i \<Rightarrow> Inr i)"

definition lsq_set_inst :: "nat \<Rightarrow> dyn_inst \<Rightarrow> lsq \<Rightarrow> lsq" where
  "lsq_set_inst ip i s = s\<lparr>lq_insts := (lq_insts s)(ip \<mapsto> i)\<rparr>"

definition lsq_wakeup :: "lsq \<Rightarrow> lsq" where
  "lsq_wakeup s = s\<lparr>lq_wakeups := Suc (lq_wakeups s)\<rparr>"

text \<open>
  A run of instruction-set code under an \<^verbatim>\<open>ExecContext\<close>: the context takes the predicates of the
  instruction into the thread and back when it is destroyed. \<open>pr\<close> are the predicates the code leaves.
\<close>

definition lsq_exec_context :: "nat \<Rightarrow> bool \<times> bool \<Rightarrow> lsq \<Rightarrow> lsq result" where
  "lsq_exec_context ip pr s =
     rbind (lsq_inst s ip) (\<lambda>i.
     rbind (arr_at (lq_threads s) (threadId (di_id i))) (\<lambda>th.
     rbind (arr_set (lq_threads s) (threadId (di_id i))
              (th\<lparr>th_predicate := fst pr, th_memAccPredicate := snd pr\<rparr>)) (\<lambda>ths.
     Inr (lsq_set_inst ip (i\<lparr>predicate := fst pr, memAccPredicate := snd pr\<rparr>) (s\<lparr>lq_threads := ths\<rparr>)))))"

definition tryToSuppressFault :: "lsq_env \<Rightarrow> nat \<Rightarrow> lsq \<Rightarrow> lsq result" where
  "tryToSuppressFault env ip s =
     rbind (lsq_inst s ip) (\<lambda>i.
     let (f, pr) = le_initiateAcc env i in
     rbind (lsq_exec_context ip pr s) (\<lambda>s. rbind (lsq_inst s ip) (\<lambda>i'.
     rbind (rassert (f = NoFault \<or> f = translationFault i)) (\<lambda>_.
     Inr (lsq_set_inst ip (i'\<lparr>translationFault := f\<rparr>) s)))))"

definition completeDisabledMemAccess :: "lsq_env \<Rightarrow> nat \<Rightarrow> lsq \<Rightarrow> lsq result" where
  "completeDisabledMemAccess env ip s =
     rbind (lsq_inst s ip) (\<lambda>i. lsq_exec_context ip (le_completeAcc env (i\<lparr>memAccPredicate := False\<rparr>)) s)"

definition disableMemAccess :: "nat \<Rightarrow> lsq \<Rightarrow> lsq result" where
  "disableMemAccess ip s =
     rbind (lsq_inst s ip) (\<lambda>i.
     rbind (arr_at (lq_threads s) (threadId (di_id i))) (\<lambda>th.
     rbind (arr_set (lq_threads s) (threadId (di_id i)) (th\<lparr>th_memAccPredicate := False\<rparr>)) (\<lambda>ths.
     Inr (s\<lparr>lq_threads := ths\<rparr>))))"

section \<open>Locked accesses and monitors\<close>

definition handleLockedSnoop :: "u64 \<Rightarrow> mem_packet \<Rightarrow> lsq_thread \<Rightarrow> lsq_thread result" where
  "handleLockedSnoop block_mask pkt th =
     (if th_reservation th = - 1 then Inr th
      else rbind (pk_getAddr pkt) (\<lambda>a.
           Inr (if th_reservation th AND block_mask = a AND block_mask then th\<lparr>th_reservation := - 1\<rparr> else th)))"

definition handleLockedRead :: "mem_request \<Rightarrow> lsq_thread \<Rightarrow> lsq_thread result" where
  "handleLockedRead req th = rbind (rq_getPaddr req) (\<lambda>a. Inr (th\<lparr>th_reservation := a AND NOT 0xF\<rparr>))"

definition handleLockedWrite :: "mem_request \<Rightarrow> lsq_thread \<Rightarrow> (bool \<times> mem_request \<times> lsq_thread) result" where
  "handleLockedWrite req th =
     (if th_reservation th = - 1 then
        Inr (False, req\<lparr>rq_extraData := Some 0\<rparr>, th\<lparr>th_stCondFailures := Suc (th_stCondFailures th)\<rparr>)
      else rbind (rq_getPaddr req) (\<lambda>a.
        if th_reservation th \<noteq> a AND NOT 0xF then
          Inr (False, req\<lparr>rq_extraData := Some 0\<rparr>, th\<lparr>th_stCondFailures := Suc (th_stCondFailures th)\<rparr>)
        else Inr (True, if rq_isUncacheable req then req\<lparr>rq_extraData := Some 2\<rparr> else req, th)))"

definition doMonitor :: "mem_packet \<Rightarrow> addr_monitor \<Rightarrow> (bool \<times> addr_monitor) result" where
  "doMonitor pkt m =
     rbind (rassert (rq_paddr (pk_req pkt) \<noteq> None)) (\<lambda>_.
     if mon_armed m \<and> mon_waiting m then
       rbind (pk_getAddr pkt) (\<lambda>a. Inr (if mon_pAddr m = a then (True, m\<lparr>mon_waiting := False\<rparr>) else (False, m)))
     else Inr (False, m))"

text \<open>The body of the loops over the threads in \<^verbatim>\<open>threadSnoop\<close> and \<^verbatim>\<open>recvTimingSnoopReq\<close>.\<close>

definition lsq_monitor_thread :: "mem_packet \<Rightarrow> lsq \<Rightarrow> nat \<Rightarrow> lsq result" where
  "lsq_monitor_thread pkt s tid =
     rbind (vec_at (lq_threads s) tid) (\<lambda>th.
     rbind (doMonitor pkt (th_monitor th)) (\<lambda>(wake, m).
     Inr (s\<lparr>lq_threads := (lq_threads s)[tid := th\<lparr>th_monitor := m\<rparr>],
            lq_woken := lq_woken s @ (if wake then [tid] else [])\<rparr>)))"

definition lsq_snoop_thread :: "mem_packet \<Rightarrow> lsq \<Rightarrow> nat \<Rightarrow> lsq result" where
  "lsq_snoop_thread pkt s tid =
     (if pk_is IsInvalidate pkt \<or> pk_is IsWrite pkt then
        rbind (vec_at (lq_threads s) tid) (\<lambda>th.
        rbind (handleLockedSnoop (cacheBlockMask s) pkt th) (\<lambda>th.
        Inr (s\<lparr>lq_threads := (lq_threads s)[tid := th]\<rparr>)))
      else Inr s)"

definition threadSnoop :: "nat \<Rightarrow> lsq \<Rightarrow> lsq result" where
  "threadSnoop p s =
     rbind (lsq_at s p) (\<lambda>r. rbind (lsq_inst s (lr_inst r)) (\<lambda>i.
     rfold (\<lambda>s tid.
       if int tid \<noteq> threadId (di_id i) then
         rbind (lr_pkt r) (\<lambda>pkt. rbind (lsq_monitor_thread pkt s tid) (\<lambda>s. lsq_snoop_thread pkt s tid))
       else Inr s) s [0..<length (lq_threads s)]))"

definition recvTimingSnoopReq :: "mem_packet \<Rightarrow> lsq \<Rightarrow> lsq result" where
  "recvTimingSnoopReq pkt s =
     rbind (rfold (lsq_monitor_thread pkt) s [0..<length (lq_threads s)]) (\<lambda>s.
     rfold (lsq_snoop_thread pkt) s [0..<length (lq_threads s)])"

section \<open>The store buffer\<close>

definition sb_canInsert :: "store_buffer \<Rightarrow> bool" where
  "sb_canInsert b \<longleftrightarrow> length (slots b) < unat (numSlots b)"

definition sb_isDrained :: "store_buffer \<Rightarrow> bool" where
  "sb_isDrained b \<longleftrightarrow> slots b = []"

definition sb_deleteRequest :: "nat \<Rightarrow> lsq \<Rightarrow> lsq" where
  "sb_deleteRequest p s =
     (if p \<in> set (slots (storeBuffer s)) then
        lsq_delete p (s\<lparr>storeBuffer := (storeBuffer s)\<lparr>slots := remove1 p (slots (storeBuffer s))\<rparr>\<rparr>)
      else s)"

definition sb_insert :: "nat \<Rightarrow> lsq \<Rightarrow> lsq result" where
  "sb_insert p s =
     rbind (lsq_at s p) (\<lambda>r.
     let s = (if lr_state r \<noteq> Complete then lsq_put p (lr_setState StoreInStoreBuffer r) s else s);
         b = storeBuffer s in
     Inr (lsq_wakeup (s\<lparr>storeBuffer := b\<lparr>numUnissuedAccesses := numUnissuedAccesses b + 1,
                                         slots := slots b @ [p]\<rparr>\<rparr>)))"

text \<open>
  The search of \<^verbatim>\<open>canForwardDataToLoad\<close>, over the slots from the most recent one with their
  indices: the coverage and the slot found.
\<close>

fun sb_search :: "lsq \<Rightarrow> lsq_req \<Rightarrow> dyn_inst \<Rightarrow> (nat \<times> nat) list \<Rightarrow> (AddrRangeCoverage \<times> nat) result" where
  "sb_search s request inst [] = Inr (NoAddrRangeCoverage, 0)"
| "sb_search s request inst ((slot_index, p) # rest) =
     rbind (lsq_at s p) (\<lambda>slot.
     rbind (case lr_packet slot of None \<Rightarrow> Inr NoAddrRangeCoverage | Some pkt \<Rightarrow>
              rbind (lsq_inst s (lr_inst slot)) (\<lambda>slot_inst.
              if threadId (di_id slot_inst) = threadId (di_id inst) \<and> \<not> rq_isCacheMaintenance (pk_req pkt)
              then containsAddrRangeOf slot request else Inr NoAddrRangeCoverage)) (\<lambda>coverage.
     if coverage \<noteq> NoAddrRangeCoverage then Inr (coverage, slot_index)
     else sb_search s request inst rest))"

definition canForwardDataToLoad :: "lsq \<Rightarrow> nat \<Rightarrow> (AddrRangeCoverage \<times> nat) result" where
  "canForwardDataToLoad s p =
     rbind (lsq_at s p) (\<lambda>r. rbind (lsq_inst s (lr_inst r)) (\<lambda>i.
     sb_search s r i (rev (enumerate 0 (slots (storeBuffer s))))))"

definition forwardStoreData :: "nat \<Rightarrow> nat \<Rightarrow> lsq \<Rightarrow> lsq result" where
  "forwardStoreData p slot_number s =
     rbind (rassert (slot_number < length (slots (storeBuffer s)))) (\<lambda>_.
     rbind (lsq_at s p) (\<lambda>ld.
     rbind (rassert (lr_packet ld \<noteq> None)) (\<lambda>_. rbind (rassert (lr_isLoad ld)) (\<lambda>_.
     rbind (vec_at (slots (storeBuffer s)) slot_number) (\<lambda>sp. rbind (lsq_at s sp) (\<lambda>st.
     rbind (rassert (lr_packet st \<noteq> None)) (\<lambda>_.
     rbind (containsAddrRangeOf st ld) (\<lambda>cov. rbind (rassert (cov = FullAddrRangeCoverage)) (\<lambda>_.
     rbind (rq_getPaddr (lr_request ld)) (\<lambda>load_addr. rbind (rq_getPaddr (lr_request st)) (\<lambda>store_addr.
     rbind (rq_getSize (lr_request ld)) (\<lambda>load_size.
     rbind (lr_pkt ld) (\<lambda>lp. rbind (pk_getPtr lp) (\<lambda>dst.
     rbind (lr_pkt st) (\<lambda>sp. rbind (pk_getPtr sp) (\<lambda>src.
     rbind (memcpy dst 0 src (unat (load_addr - store_addr)) (unat load_size)) (\<lambda>d.
     Inr (lsq_put p (ld\<lparr>lr_packet := Some (lp\<lparr>pk_data := Some d\<rparr>)\<rparr>) s))))))))))))))))))"

definition sb_countIssuedStore :: "nat \<Rightarrow> lsq \<Rightarrow> lsq result" where
  "sb_countIssuedStore p s =
     rbind (lsq_at s p) (\<lambda>r. rbind (lsq_inst s (lr_inst r)) (\<lambda>i. rbind (lr_isBarrier r i) (\<lambda>bar.
     Inr (if \<not> bar then s\<lparr>storeBuffer := (storeBuffer s)\<lparr>numUnissuedAccesses :=
            numUnissuedAccesses (storeBuffer s) - 1\<rparr>\<rparr> else s))))"

definition clearMemBarrier :: "nat \<Rightarrow> lsq \<Rightarrow> lsq result" where
  "clearMemBarrier ip s =
     rbind (lsq_inst s ip) (\<lambda>i.
     rbind (arr_at (lastMemBarrier s) (threadId (di_id i))) (\<lambda>lst.
     if execSeqNum (di_id i) \<ge> lst then
       rbind (arr_set (lastMemBarrier s) (threadId (di_id i)) 0) (\<lambda>l. Inr (s\<lparr>lastMemBarrier := l\<rparr>))
     else Inr s))"

section \<open>Sending to memory\<close>

definition canSendToMemorySystem :: "lsq \<Rightarrow> bool" where
  "canSendToMemorySystem s \<longleftrightarrow>
     lq_state s = MemoryRunning \<and> numAccessesInMemorySystem s < inMemorySystemLimit s"

definition moveFromRequestsToTransfers :: "nat \<Rightarrow> lsq \<Rightarrow> lsq result" where
  "moveFromRequestsToTransfers p s =
     rbind (if queue_empty (requests s) then Inl AssertFailed else queue_front (requests s)) (\<lambda>h.
     rbind (rassert (h = p)) (\<lambda>_.
     rbind (rassert (queue_unreservedRemainingSpace (transfers s) \<noteq> 0)) (\<lambda>_.
     rbind (lsq_at s p) (\<lambda>r.
     rbind (queue_pop (requests s)) (\<lambda>q.
     Inr (s\<lparr>numStoresInTransfers := (if lr_isLoad r then numStoresInTransfers s else numStoresInTransfers s + 1),
            requests := q, transfers := fst (queue_push (\<lambda>_. False) (transfers s) p)\<rparr>))))))"

text \<open>The next packet of a request, changed in place by a local accessor.\<close>

definition lr_set_head_packet :: "mem_packet \<Rightarrow> lsq_req \<Rightarrow> lsq_req" where
  "lr_set_head_packet p r =
     (if lr_class r = SplitDataRequest
      then r\<lparr>fragmentPackets := (fragmentPackets r)[unat (numIssuedFragments r) := p]\<rparr>
      else r\<lparr>lr_packet := Some p\<rparr>)"

definition lr_sent_state :: "LSQRequestState \<Rightarrow> LSQRequestState result" where
  "lr_sent_state st =
     (case st of Translated \<Rightarrow> Inr RequestIssuing | RequestIssuing \<Rightarrow> Inr RequestIssuing
      | StoreInStoreBuffer \<Rightarrow> Inr StoreBufferIssuing | StoreBufferIssuing \<Rightarrow> Inr StoreBufferIssuing
      | _ \<Rightarrow> Inl Panic)"

definition lr_retry_state :: "LSQRequestState \<Rightarrow> LSQRequestState result" where
  "lr_retry_state st =
     (case st of Translated \<Rightarrow> Inr RequestNeedsRetry | RequestIssuing \<Rightarrow> Inr RequestNeedsRetry
      | StoreInStoreBuffer \<Rightarrow> Inr StoreBufferNeedsRetry | StoreBufferIssuing \<Rightarrow> Inr StoreBufferNeedsRetry
      | _ \<Rightarrow> Inl Panic)"

text \<open>The three ways to send a packet: a local access, one the cache accepts, one it refuses.\<close>

definition lsq_send_packet :: "lsq_env \<Rightarrow> nat \<Rightarrow> lsq_req \<Rightarrow> mem_packet \<Rightarrow> lsq \<Rightarrow> (bool \<times> lsq) result" where
  "lsq_send_packet env p r pkt s =
     (if rq_localAccessor (lr_request r) then
        rbind (stepToNextPacket (lr_set_head_packet (le_localAccessor env pkt) r)) (\<lambda>r.
        let ret = sentAllPackets r in
        Inr (ret, lsq_put p (lr_setState (if ret then Complete else RequestIssuing) r) s))
      else if le_sendTimingReq env (lq_sent s) pkt then
        let s = s\<lparr>numAccessesInMemorySystem := numAccessesInMemorySystem s + 1, lq_sent := lq_sent s @ [pkt]\<rparr> in
        rbind (stepToNextPacket r) (\<lambda>r.
        rbind (lr_sent_state (lr_state r)) (\<lambda>st.
        Inr (sentAllPackets r, (lsq_put p (lr_setState st r) s)\<lparr>lq_state := MemoryRunning\<rparr>)))
      else
        rbind (lr_retry_state (lr_state r)) (\<lambda>st.
        Inr (False, (lsq_put p (lr_setState st r) s)\<lparr>lq_state := MemoryNeedsRetry, retryRequest := Some p\<rparr>)))"

definition tryToSend :: "lsq_env \<Rightarrow> nat \<Rightarrow> lsq \<Rightarrow> (bool \<times> lsq) result" where
  "tryToSend env p s =
     (if \<not> canSendToMemorySystem s then Inr (False, s)
      else rbind (lsq_at s p) (\<lambda>r. rbind (getHeadPacket r) (\<lambda>pkt.
      rbind (case pkt of None \<Rightarrow> Inl NullDeref | Some k \<Rightarrow> Inr k) (\<lambda>pkt.
      rbind (rassert (pk_senderState pkt \<noteq> [])) (\<lambda>_.
      rbind (lsq_send_packet env p r pkt s) (\<lambda>(ret, s).
      if ret then rbind (threadSnoop p s) (\<lambda>s. Inr (True, s)) else Inr (False, s)))))))"

section \<open>From the requests queue to the transfers queue\<close>

definition lsq_bufferable :: "mem_request \<Rightarrow> bool" where
  "lsq_bufferable q \<longleftrightarrow>
     \<not> (rq_isStrictlyOrdered q \<or> rq_isLLSC q \<or> rq_isSwap q \<or> rq_isAtomic q \<or> rq_isRelease q)"

text \<open>Passing on a request that makes no access: it completes as skipped.\<close>

definition lsq_skip :: "nat \<Rightarrow> lsq \<Rightarrow> lsq result" where
  "lsq_skip p s =
     rbind (lsq_upd p (\<lambda>r. lr_setSkipped (lr_setState Complete r)) s) (\<lambda>s. moveFromRequestsToTransfers p s)"

text \<open>The last part of \<^verbatim>\<open>tryToSendToTransfers\<close>: make the access, or complete without one.\<close>

definition lsq_do_access :: "lsq_env \<Rightarrow> nat \<Rightarrow> bool \<Rightarrow> lsq \<Rightarrow> lsq result" where
  "lsq_do_access env p do_access s =
     (if do_access then
        if \<not> canSendToMemorySystem s then Inr s
        else rbind (lsq_at s p) (\<lambda>r.
          let s = (if \<not> lsq_bufferable (lr_request r) \<and> \<not> issuedToMemory r
                   then (lsq_put p (r\<lparr>issuedToMemory := True\<rparr>) s)
                          \<lparr>numAccessesIssuedToMemory := numAccessesIssuedToMemory s + 1\<rparr>
                   else s) in
          rbind (tryToSend env p s) (\<lambda>(sent, s). if sent then moveFromRequestsToTransfers p s else Inr s))
      else rbind (lsq_upd p (lr_setState Complete) s) (\<lambda>s. moveFromRequestsToTransfers p s))"

text \<open>A load locked takes a reservation, a store conditional needs one.\<close>

definition lsq_locked_access :: "nat \<Rightarrow> lsq_req \<Rightarrow> lsq \<Rightarrow> (bool \<times> lsq) result" where
  "lsq_locked_access p r s =
     rbind (lsq_inst s (lr_inst r)) (\<lambda>i.
     rbind (lsq_exec_context (lr_inst r) (predicate i, memAccPredicate i) s) (\<lambda>s.
     rbind (arr_at (lq_threads s) (threadId (di_id i))) (\<lambda>th.
     if lr_isLoad r then
       rbind (handleLockedRead (lr_request r) th) (\<lambda>th.
       rbind (arr_set (lq_threads s) (threadId (di_id i)) th) (\<lambda>ths. Inr (True, s\<lparr>lq_threads := ths\<rparr>)))
     else
       rbind (handleLockedWrite (lr_request r) th) (\<lambda>(do_access, req, th).
       rbind (arr_set (lq_threads s) (threadId (di_id i)) th) (\<lambda>ths.
       Inr (do_access, lsq_put p (r\<lparr>lr_request := req,
              lr_packet := map_option (\<lambda>k. k\<lparr>pk_req := req\<rparr>) (lr_packet r)\<rparr>) (s\<lparr>lq_threads := ths\<rparr>)))))))"

text \<open>
  The middle part: a load looks into the store buffer, a locked access at the reservation. \<open>None\<close>
  is the early return of a request that has to wait.
\<close>

definition lsq_check_access :: "nat \<Rightarrow> lsq \<Rightarrow> (bool \<times> lsq) option result" where
  "lsq_check_access p s =
     rbind (lsq_at s p) (\<lambda>r.
     if \<not> rq_isLLSC (lr_request r) then
       if lr_isLoad r then
         rbind (canForwardDataToLoad s p) (\<lambda>(coverage, slot).
         case coverage of
           FullAddrRangeCoverage \<Rightarrow>
             rbind (forwardStoreData p slot s) (\<lambda>s. rbind (lsq_at s p) (\<lambda>r. rbind (lr_pkt r) (\<lambda>pkt.
             rbind (pk_makeResponse pkt) (\<lambda>pkt. Inr (Some (False, lsq_put p (r\<lparr>lr_packet := Some pkt\<rparr>) s))))))
         | PartialAddrRangeCoverage \<Rightarrow> Inr None
         | NoAddrRangeCoverage \<Rightarrow> Inr (Some (True, s)))
       else Inr (Some (True, s))
     else if \<not> canSendToMemorySystem s then Inr None
     else rbind (lsq_locked_access p r s) (\<lambda>res. Inr (Some res)))"

text \<open>The part between: ordering against the stores and the head of the pipeline.\<close>

definition lsq_may_access :: "lsq_env \<Rightarrow> nat \<Rightarrow> lsq \<Rightarrow> bool result" where
  "lsq_may_access env p s =
     rbind (lsq_at s p) (\<lambda>r. rbind (lsq_inst s (lr_inst r)) (\<lambda>i.
     let q = lr_request r in
     if (\<not> lr_isLoad r \<and> rq_isLLSC q \<or> rq_isRelease q) \<and> \<not> sb_isDrained (storeBuffer s) then Inr False
     else if \<not> lsq_bufferable q then
       if \<not> le_headInst env i then Inr False
       else rbind (canForwardDataToLoad s p) (\<lambda>(coverage, _). Inr (coverage = NoAddrRangeCoverage))
     else Inr True))"

definition tryToSendToTransfers :: "lsq_env \<Rightarrow> nat \<Rightarrow> lsq \<Rightarrow> lsq result" where
  "tryToSendToTransfers env p s =
     (if lq_state s = MemoryNeedsRetry then Inr s
      else rbind (lsq_at s p) (\<lambda>r.
      if lr_state r = InTranslation then Inr s
      else rbind (rassert (lr_state r \<in> {Translated, RequestIssuing, Failed, Complete})) (\<lambda>_.
      rbind (if queue_empty (requests s) then Inr False
             else rbind (queue_front (requests s)) (\<lambda>h. Inr (h = p))) (\<lambda>at_front.
      if \<not> at_front then Inr s
      else if queue_unreservedRemainingSpace (transfers s) = 0 then Inr s
      else if lr_isComplete r \<or> lr_state r = Failed then lsq_skip p s
      else rbind (lsq_inst s (lr_inst r)) (\<lambda>i.
      if \<not> le_rightStream env i then
        if hasPacketsInMemSystem r then Inr s else lsq_skip p s
      else if translationFault i \<noteq> NoFault then rbind (di_static i) (\<lambda>_. lsq_skip p s)
      else if lr_isLoad r \<and> numStoresInTransfers s \<noteq> 0 then Inr s
      else if \<not> lr_isLoad r \<and> lsq_bufferable (lr_request r) \<and> \<not> rq_localAccessor (lr_request r) then
        rbind (lsq_upd p (lr_setState StoreToStoreBuffer) s) (\<lambda>s. moveFromRequestsToTransfers p s)
      else rbind (lsq_may_access env p s) (\<lambda>may.
      if \<not> may then Inr s
      else rbind (lsq_check_access p s) (\<lambda>chk.
      case chk of None \<Rightarrow> Inr s | Some (do_access, s) \<Rightarrow> lsq_do_access env p do_access s)))))))"

section \<open>Translation\<close>

definition lsq_translated_single :: "lsq_env \<Rightarrow> nat \<Rightarrow> fault \<Rightarrow> mem_request \<Rightarrow> lsq \<Rightarrow> lsq result" where
  "lsq_translated_single env p f req s =
     (let s = s\<lparr>numAccessesInDTLB := numAccessesInDTLB s - 1\<rparr> in
      rbind (lsq_at s p) (\<lambda>r.
      let r = r\<lparr>lr_request := req\<rparr>; s = lsq_put p r s in
      rbind (lsq_inst s (lr_inst r)) (\<lambda>i.
      rbind (if f \<noteq> NoFault then
               let s = lsq_set_inst (lr_inst r) (i\<lparr>translationFault := f\<rparr>) s in
               rbind (if isTranslationDelayed r then
                        rbind (tryToSuppressFault env (lr_inst r) s) (\<lambda>s.
                        rbind (lsq_inst s (lr_inst r)) (\<lambda>i.
                        if translationFault i = NoFault then
                          rbind (completeDisabledMemAccess env (lr_inst r) s) (\<lambda>s.
                          lsq_upd p (lr_setState Complete) s)
                        else Inr s))
                      else Inr s) (\<lambda>s.
               lsq_upd p (lr_setState Translated) s)
             else
               rbind (makePacket (le_junk env) p i (lr_setState Translated r)) (\<lambda>r. Inr (lsq_put p r s))) (\<lambda>s.
      rbind (tryToSendToTransfers env p s) (\<lambda>s. Inr (lsq_wakeup s))))))"

text \<open>The response to the fragment \<open>k\<close> of a split request.\<close>

definition lsq_translated_split :: "lsq_env \<Rightarrow> nat \<Rightarrow> nat \<Rightarrow> fault \<Rightarrow> mem_request \<Rightarrow> lsq \<Rightarrow> lsq result" where
  "lsq_translated_split env p k f req s =
     (let s = s\<lparr>numAccessesInDTLB := numAccessesInDTLB s - 1\<rparr> in
      rbind (lsq_at s p) (\<lambda>r.
      let expected = numTranslatedFragments r;
          r = r\<lparr>numInTranslationFragments := numInTranslationFragments r - 1,
                numTranslatedFragments := numTranslatedFragments r + 1\<rparr> in
      rbind (rassert (k = unat expected)) (\<lambda>_.
      rbind (vec_set (fragmentRequests r) k req) (\<lambda>fs.
      let r = r\<lparr>fragmentRequests := fs\<rparr>; s = lsq_wakeup (lsq_put p r s) in
      rbind (lsq_inst s (lr_inst r)) (\<lambda>i.
      if f \<noteq> NoFault then
        let s = lsq_set_inst (lr_inst r) (i\<lparr>translationFault := f\<rparr>) s in
        rbind (if expected > 0 \<or> isTranslationDelayed r then tryToSuppressFault env (lr_inst r) s else Inr s) (\<lambda>s.
        rbind (lsq_inst s (lr_inst r)) (\<lambda>i.
        rbind (if expected = 0 then
                 if isTranslationDelayed r \<and> translationFault i = NoFault then
                   rbind (completeDisabledMemAccess env (lr_inst r) s) (\<lambda>s. lsq_upd p (lr_setState Complete) s)
                 else lsq_upd p (lr_setState Translated) s
               else if translationFault i = NoFault then
                 rbind (makeFragmentPackets (le_junk env) p i
                          (lr_setState Translated (r\<lparr>numTranslatedFragments := numTranslatedFragments r - 1\<rparr>))) (\<lambda>r.
                 Inr (lsq_put p r s))
               else lsq_upd p (lr_setState Translated) s) (\<lambda>s.
        tryToSendToTransfers env p s)))
      else if numTranslatedFragments r = numFragments r then
        rbind (makeFragmentPackets (le_junk env) p i r) (\<lambda>r.
        tryToSendToTransfers env p (lsq_put p (lr_setState Translated r) s))
      else rbind (rassert (\<not> translationEvent r)) (\<lambda>_.
           Inr (lsq_put p (r\<lparr>translationEvent := True\<rparr>) s)))))))"

text \<open>
  A response from the translation that was delayed; \<open>k\<close> is the fragment it is for. A translation
  that is not answered at once has been marked delayed.
\<close>

definition lsq_finish :: "lsq_env \<Rightarrow> nat \<Rightarrow> nat \<Rightarrow> fault \<Rightarrow> mem_request \<Rightarrow> lsq \<Rightarrow> lsq result" where
  "lsq_finish env p k f req s =
     rbind (lsq_at s p) (\<lambda>r.
     case lr_class r of
       SingleDataRequest \<Rightarrow> lsq_translated_single env p f req s
     | SplitDataRequest \<Rightarrow> lsq_translated_split env p k f req s
     | _ \<Rightarrow> Inr s)"

definition lsq_translateTiming :: "lsq_env \<Rightarrow> nat \<Rightarrow> nat \<Rightarrow> mem_request \<Rightarrow> lsq \<Rightarrow> lsq result" where
  "lsq_translateTiming env p k req s =
     (case le_translate env req of
        None \<Rightarrow> lsq_upd p (\<lambda>r. r\<lparr>isTranslationDelayed := True\<rparr>) s
      | Some (f, req') \<Rightarrow> lsq_finish env p k f req' s)"

definition sendNextFragmentToTranslation :: "lsq_env \<Rightarrow> nat \<Rightarrow> lsq \<Rightarrow> lsq result" where
  "sendNextFragmentToTranslation env p s =
     rbind (lsq_at s p) (\<lambda>r.
     let k = unat (numTranslatedFragments r);
         s = (lsq_put p (r\<lparr>numInTranslationFragments := numInTranslationFragments r + 1,
                           translationEvent := False\<rparr>) s)\<lparr>numAccessesInDTLB := numAccessesInDTLB s + 1\<rparr> in
     rbind (vec_at (fragmentRequests r) k) (\<lambda>req. lsq_translateTiming env p k req s))"

definition startAddrTranslation :: "lsq_env \<Rightarrow> nat \<Rightarrow> lsq \<Rightarrow> lsq result" where
  "startAddrTranslation env p s =
     rbind (lsq_at s p) (\<lambda>r.
     case lr_class r of
       SingleDataRequest \<Rightarrow>
         if isAnyActiveElement (rq_byteEnable (lr_request r)) then
           lsq_translateTiming env p 0 (lr_request r)
             ((lsq_put p (lr_setState InTranslation r) s)\<lparr>numAccessesInDTLB := numAccessesInDTLB s + 1\<rparr>)
         else rbind (disableMemAccess (lr_inst r) s) (\<lambda>s. lsq_upd p (lr_setState Complete) s)
     | SplitDataRequest \<Rightarrow>
         rbind (makeFragmentRequests (lineWidth s) r) (\<lambda>r.
         if numFragments r > 0 then
           sendNextFragmentToTranslation env p (lsq_put p
             ((lr_setState InTranslation r)\<lparr>numInTranslationFragments := 0, numTranslatedFragments := 0\<rparr>) s)
         else rbind (disableMemAccess (lr_inst r) (lsq_put p r s)) (\<lambda>s. lsq_upd p (lr_setState Complete) s))
     | _ \<Rightarrow> Inr s)"

section \<open>Stepping the store buffer\<close>

text \<open>The loop that clears the leading barriers, over the slots.\<close>

fun sb_clear_barriers :: "nat list \<Rightarrow> lsq \<Rightarrow> lsq result" where
  "sb_clear_barriers [] s = Inr s"
| "sb_clear_barriers (p # rest) s =
     rbind (lsq_at s p) (\<lambda>r. rbind (lsq_inst s (lr_inst r)) (\<lambda>i.
     rbind (if lr_isComplete r then lr_isBarrier r i else Inr False) (\<lambda>bar.
     if bar then
       let b = storeBuffer s in
       rbind (clearMemBarrier (lr_inst r)
                (s\<lparr>storeBuffer := b\<lparr>numUnissuedAccesses := numUnissuedAccesses b - 1\<rparr>\<rparr>)) (\<lambda>s.
       sb_clear_barriers rest
         (lsq_delete p (s\<lparr>storeBuffer := (storeBuffer s)\<lparr>slots := rest\<rparr>\<rparr>)))
     else Inr s)))"

text \<open>The loop that issues stores in order.\<close>

fun sb_issue :: "lsq_env \<Rightarrow> bool \<Rightarrow> nat \<Rightarrow> nat list \<Rightarrow> lsq \<Rightarrow> lsq result" where
  "sb_issue env issued issue_count [] s = Inr s"
| "sb_issue env issued issue_count (p # rest) s =
     (if issued \<and> issue_count < unat (storeLimitPerCycle (storeBuffer s)) \<and> canSendToMemorySystem s then
        rbind (lsq_at s p) (\<lambda>r. rbind (lsq_inst s (lr_inst r)) (\<lambda>i. rbind (lr_isBarrier r i) (\<lambda>bar.
        if bar \<and> lr_isComplete r then Inr s
        else if \<not> (lr_state r = StoreBufferIssuing \<and> sentAllPackets r) then
          rbind (tryToSend env p s) (\<lambda>(sent, s).
          if sent then rbind (sb_countIssuedStore p s) (\<lambda>s. sb_issue env True (Suc issue_count) rest s)
          else sb_issue env False issue_count rest s)
        else sb_issue env issued issue_count rest s)))
      else Inr s)"

definition sb_step :: "lsq_env \<Rightarrow> lsq \<Rightarrow> lsq result" where
  "sb_step env s =
     (if numUnissuedAccesses (storeBuffer s) \<noteq> 0 \<and> lq_state s = MemoryRunning then
        rbind (sb_clear_barriers (slots (storeBuffer s)) s) (\<lambda>s.
        sb_issue env (lq_state s \<noteq> MemoryNeedsRetry) 0 (slots (storeBuffer s)) s)
      else Inr s)"

definition completeMemBarrierInst :: "nat \<Rightarrow> bool \<Rightarrow> lsq \<Rightarrow> lsq result" where
  "completeMemBarrierInst ip committed s =
     (if committed then
        rbind (lsq_inst s ip) (\<lambda>i.
        if \<not> inStoreBuffer i then
          let (p, s) = lsq_alloc (barrierDataRequest ip) s in sb_insert p s
        else Inr s)
      else clearMemBarrier ip s)"

section \<open>The interface of the queue\<close>

definition lsq_recvTimingResp :: "lsq_env \<Rightarrow> mem_packet \<Rightarrow> lsq \<Rightarrow> lsq result" where
  "lsq_recvTimingResp env response s =
     rbind (pk_popSenderState response) (\<lambda>(p, response).
     let s = s\<lparr>numAccessesInMemorySystem := numAccessesInMemorySystem s - 1\<rparr> in
     rbind (lsq_at s p) (\<lambda>r. rbind (lsq_inst s (lr_inst r)) (\<lambda>i.
     rbind (if lr_state r \<in> {RequestIssuing, RequestNeedsRetry} then
              rbind (retireResponse (le_junk env) i response r) (\<lambda>r. Inr (lsq_put p r s))
            else if lr_state r \<in> {StoreBufferIssuing, StoreBufferNeedsRetry} then
              rbind (retireResponse (le_junk env) i response r) (\<lambda>r.
              let s = lsq_put p r s in
              if lr_isComplete r then
                rbind (lr_isBarrier r i) (\<lambda>bar. Inr (if \<not> bar then sb_deleteRequest p s else s))
              else Inr s)
            else Inl Panic) (\<lambda>s.
     Inr (lsq_wakeup s)))))"

definition lsq_recvReqRetry :: "lsq_env \<Rightarrow> lsq \<Rightarrow> lsq result" where
  "lsq_recvReqRetry env s =
     rbind (rassert (lq_state s = MemoryNeedsRetry)) (\<lambda>_.
     rbind (case retryRequest s of None \<Rightarrow> Inl NullDeref | Some p \<Rightarrow> Inr p) (\<lambda>p.
     rbind (lsq_at s p) (\<lambda>r.
     rbind (case lr_state r of RequestNeedsRetry \<Rightarrow> Inr Translated
            | StoreBufferNeedsRetry \<Rightarrow> Inr StoreInStoreBuffer | _ \<Rightarrow> Inl Panic) (\<lambda>st.
     let s = (lsq_put p (lr_setState st r) s)\<lparr>lq_state := MemoryRunning\<rparr> in
     rbind (tryToSend env p s) (\<lambda>(sent, s).
     if sent then
       rbind (lsq_at s p) (\<lambda>r.
       rbind (case lr_state r of RequestIssuing \<Rightarrow> moveFromRequestsToTransfers p s
              | StoreBufferIssuing \<Rightarrow> sb_countIssuedStore p s | _ \<Rightarrow> Inl Panic) (\<lambda>s.
       Inr (s\<lparr>retryRequest := None\<rparr>)))
     else Inr s)))))"

definition lsq_step :: "lsq_env \<Rightarrow> lsq \<Rightarrow> lsq result" where
  "lsq_step env s =
     rbind (if \<not> queue_empty (requests s) then
              rbind (queue_front (requests s)) (\<lambda>p. tryToSendToTransfers env p s)
            else Inr s) (\<lambda>s. sb_step env s)"

definition findResponse :: "nat \<Rightarrow> lsq \<Rightarrow> nat option result" where
  "findResponse ip s =
     (if queue_empty (transfers s) then Inr None
      else rbind (queue_front (transfers s)) (\<lambda>p. rbind (lsq_at s p) (\<lambda>r.
      rbind (lsq_inst s (lr_inst r)) (\<lambda>ri. rbind (lsq_inst s ip) (\<lambda>i.
      rbind (inst_id_eq (di_id ri) (di_id i)) (\<lambda>same.
      if same then
        let can_store = sb_canInsert (storeBuffer s); to_store_buffer = (lr_state r = StoreToStoreBuffer) in
        rbind (if lr_isComplete r then lr_isBarrier r ri else Inr False) (\<lambda>bar.
        Inr (if lr_isComplete r \<and> \<not> (bar \<and> \<not> can_store) \<or> to_store_buffer \<and> can_store then Some p else None))
      else Inr None))))))"

definition popResponse :: "nat \<Rightarrow> lsq \<Rightarrow> lsq result" where
  "popResponse p s =
     rbind (if queue_empty (transfers s) then Inl AssertFailed else queue_front (transfers s)) (\<lambda>h.
     rbind (rassert (h = p)) (\<lambda>_.
     rbind (queue_pop (transfers s)) (\<lambda>q. rbind (lsq_at s p) (\<lambda>r.
     let s = s\<lparr>transfers := q,
               numStoresInTransfers := (if lr_isLoad r then numStoresInTransfers s else numStoresInTransfers s - 1),
               numAccessesIssuedToMemory := (if issuedToMemory r then numAccessesIssuedToMemory s - 1
                                             else numAccessesIssuedToMemory s)\<rparr> in
     Inr (if lr_state r \<noteq> StoreInStoreBuffer then lsq_delete p s else s)))))"

definition sendStoreToStoreBuffer :: "nat \<Rightarrow> lsq \<Rightarrow> lsq result" where
  "sendStoreToStoreBuffer p s =
     rbind (lsq_at s p) (\<lambda>r.
     rbind (rassert (lr_state r = StoreToStoreBuffer)) (\<lambda>_.
     rbind (lsq_inst s (lr_inst r)) (\<lambda>i.
     sb_insert p (lsq_set_inst (lr_inst r) (i\<lparr>inStoreBuffer := True\<rparr>) s))))"

definition lsq_isDrained :: "lsq \<Rightarrow> bool" where
  "lsq_isDrained s \<longleftrightarrow> queue_empty (requests s) \<and> queue_empty (transfers s) \<and> sb_isDrained (storeBuffer s)"

definition lsq_needsToTick :: "lsq \<Rightarrow> bool result" where
  "lsq_needsToTick s =
     (if canSendToMemorySystem s then
        rbind (if queue_empty (requests s) then Inr False
               else rbind (queue_front (requests s)) (\<lambda>p. rbind (lsq_at s p) (\<lambda>r.
                    Inr (lr_state r \<noteq> InTranslation \<and> queue_unreservedRemainingSpace (transfers s) \<noteq> 0)))) (\<lambda>have.
        Inr (have \<or> numUnissuedAccesses (storeBuffer s) \<noteq> 0))
      else Inr False)"

definition lsq_canRequest :: "lsq \<Rightarrow> bool" where
  "lsq_canRequest s \<longleftrightarrow> queue_unreservedRemainingSpace (requests s) \<noteq> 0"

definition lsq_accessesInFlight :: "lsq \<Rightarrow> bool" where
  "lsq_accessesInFlight s \<longleftrightarrow> numAccessesIssuedToMemory s \<noteq> 0"

definition issuedMemBarrierInst :: "nat \<Rightarrow> lsq \<Rightarrow> lsq result" where
  "issuedMemBarrierInst ip s =
     rbind (lsq_inst s ip) (\<lambda>i.
     rbind (if di_isInst i then rbind (di_static i) (\<lambda>si. rassert (isFullMemBarrier si)) else Inl AssertFailed) (\<lambda>_.
     rbind (arr_at (lastMemBarrier s) (threadId (di_id i))) (\<lambda>lst.
     rbind (rassert (execSeqNum (di_id i) > lst)) (\<lambda>_.
     rbind (arr_set (lastMemBarrier s) (threadId (di_id i)) (execSeqNum (di_id i))) (\<lambda>l.
     Inr (s\<lparr>lastMemBarrier := l\<rparr>))))))"

text \<open>The bytes of a 64 bit value in the order of a little-endian host.\<close>

definition u64_bytes :: "u64 \<Rightarrow> u8 list" where
  "u64_bytes v = map (\<lambda>i. ucast (drop_bit (8 * i) v)) [0..<8]"

text \<open>
  \<^verbatim>\<open>pushRequest\<close>. \<open>data\<close> is the store's data, null for a load or an atomic operation; \<open>amo_op\<close> is
  whether an operation comes with the request. The result is the fault the caller gets back.
\<close>

definition lsq_request_data :: "lsq_env \<Rightarrow> dyn_inst \<Rightarrow> bool \<Rightarrow> u8 list option \<Rightarrow> u32 \<Rightarrow> u64 \<Rightarrow> bool \<Rightarrow> u8 list option result" where
  "lsq_request_data env i isLoad data sz flags use_CVU =
     (if \<not> isLoad then
        rbind (di_static i) (\<lambda>si.
        if si_is IsAtomic si \<or> flags AND flag_bits STORE_NO_DATA \<noteq> 0 then Inr (Some (replicate (unat sz) 0))
        else rbind (case data of None \<Rightarrow> Inl NullDeref | Some d \<Rightarrow>
                      memcpy (map (le_junk env) [0..<unat sz]) 0 d 0 (unat sz)) (\<lambda>d. Inr (Some d)))
      else if use_CVU then
        rbind (memcpy (map (le_junk env) [0..<unat sz]) 0 (u64_bytes (outValue (di_lvptOut i))) 0 (unat sz)) (\<lambda>d.
        Inr (Some d))
      else Inr None)"

definition pushRequest :: "lsq_env \<Rightarrow> nat \<Rightarrow> bool \<Rightarrow> u8 list option \<Rightarrow> u32 \<Rightarrow> u64 \<Rightarrow> u64 \<Rightarrow> bool \<Rightarrow> bool list \<Rightarrow>
  lsq \<Rightarrow> (fault \<times> lsq) result" where
  "pushRequest env ip isLoad data sz addr flags amo_op byte_enable s =
     rbind (lsq_inst s ip) (\<lambda>i.
     rbind (rassert (translationFault i = NoFault \<or> inLSQ i)) (\<lambda>_.
     if inLSQ i then Inr (translationFault i, s)
     else
     let needs_burst = transferNeedsBurst addr sz (lineWidth s); out = di_lvptOut i in
     rbind (cvu_verifyEntryInCVU (lq_cvu s) addr (outIndex out) (outValue out) (outConstant out) 0) (\<lambda>(entry_in_CVU, _).
     rbind (if needs_burst then rbind (di_static i) (\<lambda>si. if si_is IsAtomic si then Inl Panic else Inr ()) else Inr ()) (\<lambda>_.
     let use_CVU = isLoad \<and> outConstant out \<and> entry_in_CVU in
     rbind (lsq_request_data env i isLoad data sz flags use_CVU) (\<lambda>request_data.
     rbind (case di_pc i of None \<Rightarrow> Inl NullDeref | Some pc \<Rightarrow> Inr (instAddr pc)) (\<lambda>pc.
     rbind (rq_setByteEnable byte_enable (rq_setVirt addr sz flags (le_dataRequestorId env) pc amo_op
              (rq_setContext (le_contextId env (threadId (di_id i))) request_new))) (\<lambda>req.
     let req = req\<lparr>use_CVU_value := use_CVU\<rparr>;
         req = (if flags AND flag_bits NO_ACCESS \<noteq> 0 then req\<lparr>rq_localAccessor := True\<rparr> else req);
         r = (lr_new (if needs_burst then SplitDataRequest else SingleDataRequest) ip isLoad request_data)\<lparr>lr_request := req\<rparr>;
         (p, s) = lsq_alloc r (s\<lparr>CvuConstUse := CvuConstUse s + (if use_CVU then 1 else 0)\<rparr>);
         s = lsq_set_inst ip (i\<lparr>inLSQ := True\<rparr>) (s\<lparr>requests := fst (queue_push (\<lambda>_. False) (requests s) p)\<rparr>) in
     rbind (startAddrTranslation env p s) (\<lambda>s. rbind (lsq_inst s ip) (\<lambda>i. Inr (translationFault i, s))))))))))"

definition pushFailedRequest :: "nat \<Rightarrow> lsq \<Rightarrow> lsq" where
  "pushFailedRequest ip s =
     (let (p, s) = lsq_alloc (failedDataRequest ip) s in
      s\<lparr>requests := fst (queue_push (\<lambda>_. False) (requests s) p)\<rparr>)"

section \<open>Traces\<close>

definition show_memory_state :: "MemoryState \<Rightarrow> string" where
  "show_memory_state st = (case st of MemoryRunning \<Rightarrow> ''MemoryRunning'' | MemoryNeedsRetry \<Rightarrow> ''MemoryNeedsRetry'')"

text \<open>The slots of the store buffer for \<^verbatim>\<open>MyMinorTrace\<close>: the occupied ones, then a dash per free slot.\<close>

definition sb_trace :: "lsq \<Rightarrow> string result" where
  "sb_trace s =
     (let b = storeBuffer s; n = length (slots b); m = unat (numSlots b);
          sep = (\<lambda>i. if Suc i < m then '','' else []) in
      rbind (rfold (\<lambda>os i. rbind (vec_at (slots b) i) (\<lambda>p. rbind (lsq_at s p) (\<lambda>r.
               rbind (lsq_inst s (lr_inst r)) (\<lambda>ri. Inr (os @ lr_reportData r ri @ sep i))))) [] [0..<n]) (\<lambda>os.
      Inr (os @ concat (map (\<lambda>i. ''-'' @ sep i) [n..<m]))))"

end
