(* ===== verification/LSQForward.thy ===== *)
theory LSQForward
  imports LSQ
begin

unbundle bit_operations_syntax

text \<open>
  Store to load forwarding. The specification is a byte memory: the stores of a thread that wait in
  the store buffer are applied to it in order, oldest first. A load that the queue satisfies from
  the buffer has to return the bytes of the resulting memory, and a load it sends to memory must
  not overlap a waiting store.
\<close>

definition slot_write :: "lsq_req \<Rightarrow> (nat \<Rightarrow> u8) \<Rightarrow> nat \<Rightarrow> u8" where
  "slot_write r mem x =
     (case lr_packet r of None \<Rightarrow> mem x | Some k \<Rightarrow>
      if rq_isCacheMaintenance (pk_req k) then mem x
      else case (rq_paddr (lr_request r), rq_size (lr_request r), pk_data k) of
        (Some a, Some n, Some d) \<Rightarrow>
          if x \<in> addr_bytes a n \<and> rq_byteEnable (lr_request r) ! (x - unat a) then d ! (x - unat a) else mem x
      | _ \<Rightarrow> mem x)"

definition slot_thread :: "lsq \<Rightarrow> nat \<Rightarrow> int option" where
  "slot_thread s p =
     (case lq_heap s p of None \<Rightarrow> None | Some r \<Rightarrow> map_option (\<lambda>i. threadId (di_id i)) (lq_insts s (lr_inst r)))"

definition slot_view :: "lsq \<Rightarrow> int \<Rightarrow> nat list \<Rightarrow> (nat \<Rightarrow> u8) \<Rightarrow> nat \<Rightarrow> u8" where
  "slot_view s tid ps mem =
     foldl (\<lambda>m p. if slot_thread s p = Some tid then slot_write (the (lq_heap s p)) m else m) mem ps"

definition slot_ok :: "lsq \<Rightarrow> nat \<Rightarrow> bool" where
  "slot_ok s p \<longleftrightarrow>
     (\<exists>r i a n. lq_heap s p = Some r \<and> lq_insts s (lr_inst r) = Some i \<and>
        (lr_packet r \<noteq> None \<longrightarrow> rq_paddr (lr_request r) = Some a \<and> rq_size (lr_request r) = Some n \<and> 0 < n \<and>
           unat a + unat n < 2 ^ 64 \<and> length (rq_byteEnable (lr_request r)) = unat n \<and>
           (\<forall>k. lr_packet r = Some k \<and> \<not> rq_isCacheMaintenance (pk_req k) \<longrightarrow>
              rq_byteEnable (pk_req k) = rq_byteEnable (lr_request r) \<and>
              (\<exists>d. pk_data k = Some d \<and> length d = unat n))))"

definition load_ok :: "lsq \<Rightarrow> nat \<Rightarrow> lsq_req \<Rightarrow> mem_packet \<Rightarrow> u64 \<Rightarrow> u32 \<Rightarrow> int \<Rightarrow> bool" where
  "load_ok s p r k a n tid \<longleftrightarrow>
     lq_heap s p = Some r \<and> (\<exists>i. lq_insts s (lr_inst r) = Some i \<and> threadId (di_id i) = tid) \<and>
     lr_isLoad r \<and> \<not> rq_isLLSC (lr_request r) \<and> rq_paddr (lr_request r) = Some a \<and>
     rq_size (lr_request r) = Some n \<and> 0 < n \<and> unat a + unat n < 2 ^ 64 \<and>
     lr_packet r = Some k \<and> pk_is NeedsResponse k \<and> pk_is IsRequest k \<and> \<not> pk_isMaskedWrite k \<and>
     (\<exists>d. pk_data k = Some d \<and> length d = unat n) \<and> p \<notin> set (slots (storeBuffer s))"

text \<open>What the search tells about the slots it looked at.\<close>

definition search_ok :: "lsq \<Rightarrow> int \<Rightarrow> u64 \<Rightarrow> u32 \<Rightarrow> (nat \<Rightarrow> u8) \<Rightarrow> nat list \<Rightarrow> AddrRangeCoverage \<Rightarrow> nat \<Rightarrow> bool" where
  "search_ok s tid a n mem ps cov slot \<longleftrightarrow>
     (cov = NoAddrRangeCoverage \<longrightarrow> (\<forall>x \<in> addr_bytes a n. slot_view s tid ps mem x = mem x)) \<and>
     (cov = FullAddrRangeCoverage \<longrightarrow>
        slot < length ps \<and>
        (\<exists>st k a' n' d. lq_heap s (ps ! slot) = Some st \<and> lr_packet st = Some k \<and> pk_data k = Some d \<and>
           rq_paddr (lr_request st) = Some a' \<and> rq_size (lr_request st) = Some n' \<and> length d = unat n' \<and>
           unat a' + unat n' < 2 ^ 64 \<and> 0 < n' \<and> \<not> rq_isMasked (lr_request st) \<and> \<not> rq_isMasked (pk_req k) \<and>
           addr_coverage a' n' a n = FullAddrRangeCoverage \<and>
           (\<forall>x \<in> addr_bytes a n. slot_view s tid ps mem x = d ! (x - unat a'))))"

lemma slot_view_snoc:
  "slot_view s tid (ps @ [q]) mem =
    (if slot_thread s q = Some tid then slot_write (the (lq_heap s q)) (slot_view s tid ps mem) else slot_view s tid ps mem)"
  by (simp add: slot_view_def)

lemma search_ok_snoc:
  "search_ok s tid a n mem ps cov slot \<Longrightarrow>
    (\<And>x. x \<in> addr_bytes a n \<Longrightarrow> slot_view s tid (ps @ [q]) mem x = slot_view s tid ps mem x) \<Longrightarrow>
    search_ok s tid a n mem (ps @ [q]) cov slot"
  by (auto simp: search_ok_def nth_append)

text \<open>A slot with data of the load's thread, and what it covers of the load.\<close>

definition slot_data :: "lsq \<Rightarrow> int \<Rightarrow> nat \<Rightarrow> lsq_req \<Rightarrow> mem_packet \<Rightarrow> u64 \<Rightarrow> u32 \<Rightarrow> u8 list \<Rightarrow> bool" where
  "slot_data s tid q st k a n d \<longleftrightarrow>
     lq_heap s q = Some st \<and> slot_thread s q = Some tid \<and> lr_packet st = Some k \<and>
     \<not> rq_isCacheMaintenance (pk_req k) \<and> rq_paddr (lr_request st) = Some a \<and> rq_size (lr_request st) = Some n \<and>
     0 < n \<and> unat a + unat n < 2 ^ 64 \<and> length (rq_byteEnable (lr_request st)) = unat n \<and>
     rq_byteEnable (pk_req k) = rq_byteEnable (lr_request st) \<and> pk_data k = Some d \<and> length d = unat n"

definition slot_coverage :: "lsq_req \<Rightarrow> u64 \<Rightarrow> u32 \<Rightarrow> u64 \<Rightarrow> u32 \<Rightarrow> AddrRangeCoverage" where
  "slot_coverage st a' n' a n =
     (let c = addr_coverage a' n' a n in
      if c = FullAddrRangeCoverage \<and> rq_isMasked (lr_request st) then PartialAddrRangeCoverage else c)"

lemma slot_view_data:
  "slot_data s tid q st k a n d \<Longrightarrow> slot_view s tid (ps @ [q]) mem x =
    (if x \<in> addr_bytes a n \<and> rq_byteEnable (lr_request st) ! (x - unat a) then d ! (x - unat a)
     else slot_view s tid ps mem x)"
  by (simp add: slot_data_def slot_view_snoc slot_write_def)

lemma search_ok_hit:
  assumes sd: "slot_data s tid q st k a' n' d" and r: "0 < n" "unat a + unat n < 2 ^ 64"
    and hit: "slot_coverage st a' n' a n \<noteq> NoAddrRangeCoverage"
  shows "search_ok s tid a n mem (ps @ [q]) (slot_coverage st a' n' a n) (length ps)"
proof -
  note d = sd [unfolded slot_data_def]
  have "\<not> rq_isMasked (lr_request st) \<and> addr_coverage a' n' a n = FullAddrRangeCoverage"
    if "slot_coverage st a' n' a n = FullAddrRangeCoverage"
    using that by (auto simp: slot_coverage_def Let_def split: if_splits)
  moreover have "slot_view s tid (ps @ [q]) mem x = d ! (x - unat a')"
    if "\<not> rq_isMasked (lr_request st)" "addr_coverage a' n' a n = FullAddrRangeCoverage" "x \<in> addr_bytes a n" for x
  proof -
    have "addr_bytes a n \<subseteq> addr_bytes a' n'" using that(2) d r coverage_sets(2) [of n' n a' a] by simp
    then have x: "x \<in> addr_bytes a' n'" using that(3) by blast
    then have "x - unat a' < length (rq_byteEnable (lr_request st))" using d by (auto simp: addr_bytes_def)
    then have "rq_byteEnable (lr_request st) ! (x - unat a')" using that(1) unfolding rq_isMasked_def by (metis nth_mem)
    then show ?thesis using x by (simp add: slot_view_data [OF sd])
  qed
  ultimately show ?thesis using hit d by (simp add: search_ok_def rq_isMasked_def)
qed

lemma search_step:
  assumes q: "slot_ok s q" and i: "threadId (di_id i) = tid"
    and r: "rq_paddr (lr_request r) = Some a" "rq_size (lr_request r) = Some n" "0 < n" "unat a + unat n < 2 ^ 64"
    and IH: "sb_search s r i rest = Inr (cov, slot)" "search_ok s tid a n mem ps cov slot"
  shows "\<exists>cov slot. sb_search s r i ((length ps, q) # rest) = Inr (cov, slot) \<and> search_ok s tid a n mem (ps @ [q]) cov slot"
proof -
  from q obtain st si where st: "lq_heap s q = Some st" "lq_insts s (lr_inst st) = Some si" by (auto simp: slot_ok_def)
  have at: "lsq_at s q = Inr st" "lsq_inst s (lr_inst st) = Inr si" using st by (simp_all add: lsq_at_def lsq_inst_def)
  show ?thesis
  proof (cases "\<exists>k. lr_packet st = Some k \<and> threadId (di_id si) = tid \<and> \<not> rq_isCacheMaintenance (pk_req k)")
    case False
    then have "slot_view s tid (ps @ [q]) mem = slot_view s tid ps mem"
      using st by (auto simp: slot_view_snoc slot_thread_def slot_write_def fun_eq_iff split: option.splits)
    then have "search_ok s tid a n mem (ps @ [q]) cov slot" by (simp add: search_ok_snoc [OF IH(2)])
    moreover have "sb_search s r i ((length ps, q) # rest) = Inr (cov, slot)"
      using False IH(1) at i by (auto split: option.splits)
    ultimately show ?thesis by blast
  next
    case True
    with q st obtain k a' n' d where sd: "slot_data s tid q st k a' n' d" and k: "lr_packet st = Some k"
        "threadId (di_id si) = tid" "\<not> rq_isCacheMaintenance (pk_req k)"
      by (fastforce simp: slot_ok_def slot_data_def slot_thread_def)
    have con: "containsAddrRangeOf st r = Inr (slot_coverage st a' n' a n)"
      using sd r by (simp add: containsAddrRangeOf_def rq_getPaddr_def rq_getSize_def slot_coverage_def slot_data_def Let_def)
    show ?thesis
    proof (cases "slot_coverage st a' n' a n = NoAddrRangeCoverage")
      case True
      then have "addr_bytes a' n' \<inter> addr_bytes a n = {}"
        using sd r coverage_sets(1) [of n' n a' a] by (simp add: slot_coverage_def slot_data_def Let_def split: if_splits)
      then have "search_ok s tid a n mem (ps @ [q]) cov slot"
        by (intro search_ok_snoc [OF IH(2)]) (auto simp: slot_view_data [OF sd])
      then show ?thesis using True IH(1) at i k con by simp
    next
      case False
      then show ?thesis using search_ok_hit [OF sd r(3,4)] at i k con by simp
    qed
  qed
qed

lemma sb_search_ok:
  assumes "\<forall>q \<in> set ps. slot_ok s q" and i: "threadId (di_id i) = tid"
    and r: "rq_paddr (lr_request r) = Some a" "rq_size (lr_request r) = Some n" "0 < n" "unat a + unat n < 2 ^ 64"
  shows "\<exists>cov slot. sb_search s r i (rev (enumerate 0 ps)) = Inr (cov, slot) \<and> search_ok s tid a n mem ps cov slot"
  using assms(1)
proof (induction ps rule: rev_induct)
  case (snoc q ps)
  then obtain cov slot where "sb_search s r i (rev (enumerate 0 ps)) = Inr (cov, slot)" "search_ok s tid a n mem ps cov slot"
    by auto
  moreover have "rev (enumerate 0 (ps @ [q])) = (length ps, q) # rev (enumerate 0 ps)" by (simp add: enumerate_append_eq)
  moreover have "slot_ok s q" using snoc.prems by simp
  ultimately show ?case using search_step [OF _ i r] by metis
qed (simp add: search_ok_def slot_view_def)

lemma forwardStoreData_ok:
  assumes ld: "load_ok s p r k a n tid" and full: "search_ok s tid a n mem (slots (storeBuffer s)) FullAddrRangeCoverage slot"
  shows "forwardStoreData p slot s =
    Inr (lsq_put p (r\<lparr>lr_packet := Some (k\<lparr>pk_data := Some (map (slot_view s tid (slots (storeBuffer s)) mem) [unat a..<unat a + unat n])\<rparr>)\<rparr>) s)"
proof -
  note l = ld [unfolded load_ok_def]
  from full obtain st k' a' n' d where slot: "slot < length (slots (storeBuffer s))" and
    st: "lq_heap s (slots (storeBuffer s) ! slot) = Some st" "lr_packet st = Some k'" "pk_data k' = Some d"
      "rq_paddr (lr_request st) = Some a'" "rq_size (lr_request st) = Some n'" "length d = unat n'"
      "unat a' + unat n' < 2 ^ 64" "0 < n'" "\<not> rq_isMasked (lr_request st)" "\<not> rq_isMasked (pk_req k')"
      "addr_coverage a' n' a n = FullAddrRangeCoverage"
    and view: "\<forall>x \<in> addr_bytes a n. slot_view s tid (slots (storeBuffer s)) mem x = d ! (x - unat a')"
    by (auto simp: search_ok_def)
  obtain dl where dl: "pk_data k = Some dl" "length dl = unat n" using l by blast
  have sub: "addr_bytes a n \<subseteq> addr_bytes a' n'" using coverage_sets(2) [of n' n a' a] st l by simp
  have n0: "0 < unat n" using l by (simp add: unat_gt_0 word_gt_0)
  have in1: "unat a \<in> addr_bytes a n" using n0 by (simp add: addr_bytes_def)
  have in2: "unat a + unat n - 1 \<in> addr_bytes a n" using n0 by (auto simp: addr_bytes_def)
  have b: "unat a' \<le> unat a" "unat a + unat n \<le> unat a' + unat n'"
    using subsetD [OF sub in1] subsetD [OF sub in2] n0 by (auto simp: addr_bytes_def)
  have off: "unat (a - a') = unat a - unat a'" using b(1) by (simp add: unat_sub word_le_nat_alt)
  have cp: "memcpy dl 0 d (unat (a - a')) (unat n) =
      Inr (map (slot_view s tid (slots (storeBuffer s)) mem) [unat a..<unat a + unat n])"
  proof -
    have "take (unat n) (drop (unat a - unat a') d) = map (slot_view s tid (slots (storeBuffer s)) mem) [unat a..<unat a + unat n]"
      using b st(6) view by (intro nth_equalityI) (auto simp: addr_bytes_def)
    then show ?thesis using b st(6) dl by (simp add: memcpy_def off)
  qed
  have con: "containsAddrRangeOf st r = Inr FullAddrRangeCoverage"
    using st l by (simp add: containsAddrRangeOf_def rq_getPaddr_def rq_getSize_def)
  show ?thesis
    using l slot st dl cp con
    by (simp add: forwardStoreData_def lsq_at_def rq_getPaddr_def rq_getSize_def lr_pkt_def pk_getPtr_def
        pk_getConstPtr_def pk_isMaskedWrite_def)
qed


text \<open>A store of eight bytes in the buffer and a load of the upper four of them.\<close>

definition ex_access :: "bool \<Rightarrow> nat \<Rightarrow> u64 \<Rightarrow> u8 list \<Rightarrow> lsq_req" where
  "ex_access ld ip a d =
     (let q = request_new\<lparr>rq_paddr := Some a, rq_vaddr := Some a, rq_size := Some (of_nat (length d)),
                rq_byteEnable := replicate (length d) True\<rparr> in
      (lr_new SingleDataRequest ip ld None)\<lparr>lr_request := q, lr_state := (if ld then Translated else StoreInStoreBuffer),
        lr_packet := Some (ex_packet q (if ld then ReadReq else WriteReq) d)\<rparr>)"

definition ex_mem_inst :: "u64 \<Rightarrow> dyn_inst" where
  "ex_mem_inst n = dyn_inst_new (Some (StaticInst [IsLoad] 1 [] [] []))
     (inst_id_zero\<lparr>fetchSeqNum := n, execSeqNum := n\<rparr>) NoFault"

definition ex_lsq :: lsq where
  "ex_lsq = (projr (lsq_new 1 64 2 0 2 2 4 1 (cvu_new 4 2 3)))
     \<lparr>lq_heap := [0 \<mapsto> ex_access False 0 0x100 [1, 2, 3, 4, 5, 6, 7, 8], 1 \<mapsto> ex_access True 1 0x104 [0, 0, 0, 0]],
      lq_fresh := 2, lq_insts := [0 \<mapsto> ex_mem_inst 1, 1 \<mapsto> ex_mem_inst 2],
      requests := fst (queue_push (\<lambda>_. False) (queue_new 2) 1),
      storeBuffer := \<lparr>numSlots = 4, storeLimitPerCycle = 1, slots = [0], numUnissuedAccesses = 1\<rparr>\<rparr>"

lemma ex_lsq_fields:
  "lq_heap ex_lsq = [0 \<mapsto> ex_access False 0 0x100 [1, 2, 3, 4, 5, 6, 7, 8], 1 \<mapsto> ex_access True 1 0x104 [0, 0, 0, 0]]"
  "lq_insts ex_lsq = [0 \<mapsto> ex_mem_inst 1, 1 \<mapsto> ex_mem_inst 2]" "slots (storeBuffer ex_lsq) = [0]"
  by (simp_all add: ex_lsq_def)

lemma ex_lsq_ok:
  "\<forall>q \<in> set (slots (storeBuffer ex_lsq)). slot_ok ex_lsq q"
  "load_ok ex_lsq 1 (ex_access True 1 0x104 [0, 0, 0, 0])
     (ex_packet (lr_request (ex_access True 1 0x104 [0, 0, 0, 0])) ReadReq [0, 0, 0, 0]) 0x104 4 0"
  by (simp_all add: slot_ok_def load_ok_def ex_lsq_fields ex_access_def ex_packet_def lr_new_def request_new_def
      rq_isLLSC_def rq_isSet_def pk_is_def ex_packet_attributes pk_isMaskedWrite_def ex_mem_inst_def dyn_inst_new_def
      inst_id_zero_def Let_def)


end
