(* ===== verification/LSQFrame.thy ===== *)
theory LSQFrame
  imports LSQForward
begin

unbundle bit_operations_syntax

text \<open>
  What the operations of the load/store queue leave alone. \<open>lsq_frame\<close> relates the states around an
  operation that moves no request between queues, \<open>lsq_moved\<close> those around the move of the oldest
  request from \<^verbatim>\<open>requests\<close> to \<^verbatim>\<open>transfers\<close>; every step of address translation and every attempt to
  send a request is one or the other (\<open>lsq_passed\<close>).
\<close>

section \<open>Operations that move nothing\<close>

definition lsq_kinds :: "lsq \<Rightarrow> nat \<Rightarrow> bool option" where
  "lsq_kinds s p = map_option lr_isLoad (lq_heap s p)"

definition lsq_frame :: "lsq \<Rightarrow> lsq \<Rightarrow> bool" where
  "lsq_frame s s' \<longleftrightarrow> requests s' = requests s \<and> transfers s' = transfers s \<and>
     slots (storeBuffer s') = slots (storeBuffer s) \<and> numStoresInTransfers s' = numStoresInTransfers s \<and>
     lq_fresh s' = lq_fresh s \<and> lsq_kinds s' = lsq_kinds s \<and> inMemorySystemLimit s' = inMemorySystemLimit s \<and>
     (numAccessesInMemorySystem s \<le> inMemorySystemLimit s \<longrightarrow> numAccessesInMemorySystem s' \<le> inMemorySystemLimit s)"

lemma lsq_frame_refl [simp]: "lsq_frame s s"
  by (simp add: lsq_frame_def)

lemma lsq_frame_trans: "lsq_frame s s1 \<Longrightarrow> lsq_frame s1 s2 \<Longrightarrow> lsq_frame s s2"
  by (simp add: lsq_frame_def)

named_theorems frames "operations that move no request"

lemma frame_put [frames]:
  "lq_heap s p = Some r \<Longrightarrow> lr_isLoad r' = lr_isLoad r \<Longrightarrow> lsq_frame s (lsq_put p r' s)"
  by (auto simp: lsq_frame_def lsq_put_def lsq_kinds_def fun_eq_iff)

lemma frame_upd [frames]:
  "lsq_upd p f s = Inr s' \<Longrightarrow> (\<And>r. lr_isLoad (f r) = lr_isLoad r) \<Longrightarrow> lsq_frame s s'"
  by (auto simp: lsq_upd_def lsq_at_def rbind_Inr_iff split: option.splits intro: frame_put)

lemma lsq_at_Inr: "lsq_at s p = Inr r \<longleftrightarrow> lq_heap s p = Some r"
  by (auto simp: lsq_at_def split: option.splits)

lemma frame_simple [simp]:
  "lsq_frame s (lsq_set_inst ip i s)" "lsq_frame s (lsq_wakeup s)" "lsq_frame s (s\<lparr>lq_threads := t\<rparr>)"
  "lsq_frame s (s\<lparr>lq_threads := t, lq_woken := w\<rparr>)" "lsq_frame s (s\<lparr>lq_state := st\<rparr>)"
  "lsq_frame s (s\<lparr>numAccessesInDTLB := d\<rparr>)" "lsq_frame s (s\<lparr>numAccessesIssuedToMemory := d\<rparr>)"
  "lsq_frame s (s\<lparr>lastMemBarrier := b\<rparr>)" "lsq_frame s (s\<lparr>retryRequest := q\<rparr>)"
  "lsq_frame s (s\<lparr>lq_state := st, retryRequest := q\<rparr>)" "lsq_frame s (s\<lparr>CvuConstUse := c\<rparr>)"
  by (simp_all add: lsq_frame_def lsq_set_inst_def lsq_wakeup_def lsq_kinds_def fun_eq_iff)

lemma frame_exec_context [frames]: "lsq_exec_context ip pr s = Inr s' \<Longrightarrow> lsq_frame s s'"
  by (auto simp: lsq_exec_context_def rbind_Inr_iff lsq_set_inst_def lsq_frame_def lsq_kinds_def fun_eq_iff)

lemma frame_suppress [frames]: "tryToSuppressFault env ip s = Inr s' \<Longrightarrow> lsq_frame s s'"
  by (clarsimp simp: tryToSuppressFault_def rbind_Inr_iff case_prod_beta Let_def)
    (rule lsq_frame_trans [OF frame_exec_context frame_simple(1)])

lemma frame_complete_disabled [frames]: "completeDisabledMemAccess env ip s = Inr s' \<Longrightarrow> lsq_frame s s'"
  by (auto simp: completeDisabledMemAccess_def rbind_Inr_iff intro: frame_exec_context)

lemma frame_disable [frames]: "disableMemAccess ip s = Inr s' \<Longrightarrow> lsq_frame s s'"
  by (auto simp: disableMemAccess_def rbind_Inr_iff)

lemma frame_monitor [frames]: "lsq_monitor_thread k s t = Inr s' \<Longrightarrow> lsq_frame s s'"
  by (auto simp: lsq_monitor_thread_def rbind_Inr_iff split: prod.splits)

lemma frame_snoop_thread [frames]: "lsq_snoop_thread k s t = Inr s' \<Longrightarrow> lsq_frame s s'"
  by (auto simp: lsq_snoop_thread_def rbind_Inr_iff split: if_splits)

lemma frame_rfold:
  "rfold f s xs = Inr s' \<Longrightarrow> (\<And>s x s'. f s x = Inr s' \<Longrightarrow> lsq_frame s s') \<Longrightarrow> lsq_frame s s'"
proof (induction xs arbitrary: s)
  case (Cons x xs)
  then obtain s1 where "f s x = Inr s1" "rfold f s1 xs = Inr s'" by (auto simp: rbind_Inr_iff)
  then show ?case using Cons.IH Cons.prems(2) lsq_frame_trans by blast
qed simp

lemma frame_threadSnoop [frames]: "threadSnoop p s = Inr s' \<Longrightarrow> lsq_frame s s'"
  unfolding threadSnoop_def rbind_Inr_iff
  by (elim exE conjE, erule frame_rfold)
    (auto simp: rbind_Inr_iff split: if_splits intro: lsq_frame_trans [OF frame_monitor frame_snoop_thread])

lemma frame_snoop [frames]: "recvTimingSnoopReq k s = Inr s' \<Longrightarrow> lsq_frame s s'"
  unfolding recvTimingSnoopReq_def rbind_Inr_iff
  by (elim exE conjE) (rule lsq_frame_trans; rule frame_rfold, assumption, erule frames)

lemma kinds_of_request [simp]:
  "lr_isLoad (lr_setState st r) = lr_isLoad r" "lr_isLoad (lr_setSkipped r) = lr_isLoad r"
  "lr_isLoad (lr_set_head_packet k r) = lr_isLoad r"
  by (simp_all add: lr_setState_def lr_setSkipped_def lr_set_head_packet_def)

lemma step_kind: "stepToNextPacket r = Inr r' \<Longrightarrow> lr_isLoad r' = lr_isLoad r"
  by (auto simp: stepToNextPacket_def rbind_Inr_iff split: lsq_class.splits)

lemma frame_send_packet:
  assumes "lsq_send_packet env p r k s = Inr (sent, s')" "lq_heap s p = Some r" "canSendToMemorySystem s"
  shows "lsq_frame s s'"
proof -
  have lim: "numAccessesInMemorySystem s + 1 \<le> inMemorySystemLimit s"
    using assms(3) by (simp add: canSendToMemorySystem_def inc_le)
  note put = lsq_kinds_def lsq_frame_def lsq_put_def fun_eq_iff
  show ?thesis using assms(1,2) lim
    by (auto simp: lsq_send_packet_def rbind_Inr_iff Let_def put dest!: step_kind split: if_splits)
qed

lemma frame_tryToSend [frames]: "tryToSend env p s = Inr (sent, s') \<Longrightarrow> lsq_frame s s'"
proof (cases "canSendToMemorySystem s")
  case True
  assume "tryToSend env p s = Inr (sent, s')"
  with True obtain r k s1 where "lq_heap s p = Some r" "lsq_send_packet env p r k s = Inr (sent, s1)"
    "if sent then threadSnoop p s1 = Inr s' else s1 = s'"
    by (auto simp: tryToSend_def rbind_Inr_iff lsq_at_Inr split: if_splits)
  then show ?thesis
    using frame_send_packet [OF _ _ True] frame_threadSnoop lsq_frame_trans by (cases sent) (simp_all, blast+)
qed (simp add: tryToSend_def)

lemma frame_forward [frames]: "forwardStoreData p k s = Inr s' \<Longrightarrow> lsq_frame s s'"
  by (auto simp: forwardStoreData_def rbind_Inr_iff lsq_at_Inr intro: frame_put)

lemma exec_context_heap: "lsq_exec_context ip pr s = Inr s' \<Longrightarrow> lq_heap s' = lq_heap s"
  by (auto simp: lsq_exec_context_def rbind_Inr_iff lsq_set_inst_def)

lemma frame_locked:
  assumes "lsq_locked_access p r s = Inr (acc, s')" "lq_heap s p = Some r"
  shows "lsq_frame s s'"
proof (cases "lr_isLoad r")
  case True
  then show ?thesis using assms
    by (auto simp: lsq_locked_access_def rbind_Inr_iff intro: lsq_frame_trans [OF frame_exec_context frame_simple(3)])
next
  case False
  then show ?thesis using assms
    by (auto simp: lsq_locked_access_def rbind_Inr_iff exec_context_heap
        intro!: lsq_frame_trans [OF frame_exec_context lsq_frame_trans [OF frame_simple(3) frame_put]])
qed

lemma frame_check [frames]: "lsq_check_access p s = Inr (Some (acc, s')) \<Longrightarrow> lsq_frame s s'"
proof -
  assume c: "lsq_check_access p s = Inr (Some (acc, s'))"
  then obtain r where r: "lq_heap s p = Some r" by (auto simp: lsq_check_access_def rbind_Inr_iff lsq_at_Inr)
  then have at: "lsq_at s p = Inr r" by (simp add: lsq_at_Inr)
  show ?thesis
  proof (cases "rq_isLLSC (lr_request r)")
    case False
    show ?thesis
    proof (cases "lr_isLoad r")
      case True
      with c False at obtain cov slot where "canForwardDataToLoad s p = Inr (cov, slot)"
        by (auto simp: lsq_check_access_def rbind_Inr_iff)
      then show ?thesis using c at False True
        by (cases cov)
          (auto simp: lsq_check_access_def rbind_Inr_iff lsq_at_Inr intro: lsq_frame_trans [OF frame_forward frame_put])
    qed (use c at False in \<open>simp add: lsq_check_access_def\<close>)
  next
    case True
    then have "lsq_locked_access p r s = Inr (acc, s')"
      using c at by (auto simp: lsq_check_access_def rbind_Inr_iff split: if_splits)
    then show ?thesis using r by (rule frame_locked)
  qed
qed

section \<open>Operations that move a request to the transfers queue\<close>

definition lsq_moved :: "nat \<Rightarrow> lsq \<Rightarrow> lsq \<Rightarrow> bool" where
  "lsq_moved p s s' \<longleftrightarrow>
     mq_queue (requests s) = p # mq_queue (requests s') \<and>
     mq_queue (transfers s') = mq_queue (transfers s) @ [p] \<and> mq_capacity (transfers s') = mq_capacity (transfers s) \<and>
     unat (numReservedSlots (transfers s')) \<le> unat (numReservedSlots (transfers s)) \<and>
     queue_unreservedRemainingSpace (transfers s) \<noteq> 0 \<and> lsq_kinds s p \<noteq> None \<and>
     numStoresInTransfers s' = numStoresInTransfers s + (if lsq_kinds s p = Some True then 0 else 1) \<and>
     slots (storeBuffer s') = slots (storeBuffer s) \<and> lq_fresh s' = lq_fresh s \<and> lsq_kinds s' = lsq_kinds s \<and>
     inMemorySystemLimit s' = inMemorySystemLimit s \<and>
     (numAccessesInMemorySystem s \<le> inMemorySystemLimit s \<longrightarrow> numAccessesInMemorySystem s' \<le> inMemorySystemLimit s)"

definition lsq_passed :: "nat \<Rightarrow> lsq \<Rightarrow> lsq \<Rightarrow> bool" where
  "lsq_passed p s s' \<longleftrightarrow> lsq_frame s s' \<or> lsq_moved p s s'"

lemma passed_frame [simp]: "lsq_frame s s' \<Longrightarrow> lsq_passed p s s'"
  by (simp add: lsq_passed_def)

lemma frame_moved: "lsq_frame s s1 \<Longrightarrow> lsq_moved p s1 s' \<Longrightarrow> lsq_moved p s s'"
  unfolding lsq_frame_def lsq_moved_def by (elim conjE, intro conjI) simp_all

lemma moved_frame: "lsq_moved p s s1 \<Longrightarrow> lsq_frame s1 s' \<Longrightarrow> lsq_moved p s s'"
  unfolding lsq_frame_def lsq_moved_def by (elim conjE, intro conjI) simp_all

lemma frame_passed: "lsq_frame s s1 \<Longrightarrow> lsq_passed p s1 s' \<Longrightarrow> lsq_passed p s s'"
  unfolding lsq_passed_def using lsq_frame_trans frame_moved by blast

lemma passed_then_frame: "lsq_passed p s s1 \<Longrightarrow> lsq_frame s1 s' \<Longrightarrow> lsq_passed p s s'"
  unfolding lsq_passed_def using lsq_frame_trans moved_frame by blast

lemma move_Inr:
  assumes "moveFromRequestsToTransfers p s = Inr s'"
  obtains r xs where "mq_queue (requests s) = p # xs" "lq_heap s p = Some r" "queue_unreservedRemainingSpace (transfers s) \<noteq> 0"
    "s' = s\<lparr>numStoresInTransfers := (if lr_isLoad r then numStoresInTransfers s else numStoresInTransfers s + 1),
             requests := (requests s)\<lparr>mq_queue := xs\<rparr>, transfers := fst (queue_push (\<lambda>_. False) (transfers s) p)\<rparr>"
proof (cases "mq_queue (requests s)")
  case Nil
  then show ?thesis using assms by (simp add: moveFromRequestsToTransfers_def queue_empty_def)
next
  case (Cons h xs)
  then have q: "\<not> queue_empty (requests s)" "queue_front (requests s) = Inr h"
    "queue_pop (requests s) = Inr ((requests s)\<lparr>mq_queue := xs\<rparr>)"
    by (simp_all add: queue_empty_def queue_front_def queue_pop_def)
  from assms have "h = p" "queue_unreservedRemainingSpace (transfers s) \<noteq> 0"
    unfolding moveFromRequestsToTransfers_def by (simp_all only: q rbind_Inr_iff rassert_simps if_False simp_thms sum.inject ex_simps)
  moreover from assms obtain r where "lq_heap s p = Some r"
    unfolding moveFromRequestsToTransfers_def by (simp only: q rbind_Inr_iff lsq_at_Inr if_False) blast
  ultimately show ?thesis using that [of xs] Cons assms q
    by (simp add: moveFromRequestsToTransfers_def lsq_at_def)
qed

lemma push_fields:
  "mq_queue (fst (queue_push (\<lambda>_. False) q p)) = mq_queue q @ [p]"
  "mq_capacity (fst (queue_push (\<lambda>_. False) q p)) = mq_capacity q"
  "unat (numReservedSlots (fst (queue_push (\<lambda>_. False) q p))) \<le> unat (numReservedSlots q)"
  by (simp_all add: queue_push_def Let_def queue_freeReservation_def unat_minus_one)

lemma move_passed: "moveFromRequestsToTransfers p s = Inr s' \<Longrightarrow> lsq_moved p s s'"
  by (erule move_Inr) (simp add: lsq_moved_def push_fields lsq_kinds_def fun_eq_iff)

lemma passed_move: "lsq_frame s s1 \<Longrightarrow> moveFromRequestsToTransfers p s1 = Inr s' \<Longrightarrow> lsq_passed p s s'"
  unfolding lsq_passed_def using frame_moved [OF _ move_passed] by blast

lemma passed_skip: "lsq_skip p s = Inr s' \<Longrightarrow> lsq_passed p s s'"
  by (auto simp: lsq_skip_def rbind_Inr_iff intro: passed_move [OF frame_upd])

lemma passed_do_access: "lsq_do_access env p acc s = Inr s' \<Longrightarrow> lsq_passed p s s'"
proof (cases "acc \<and> canSendToMemorySystem s")
  case False
  assume "lsq_do_access env p acc s = Inr s'"
  then show ?thesis using False
    by (auto simp: lsq_do_access_def rbind_Inr_iff split: if_splits intro: passed_move [OF frame_upd])
next
  case True
  assume h: "lsq_do_access env p acc s = Inr s'"
  with True obtain r where r: "lq_heap s p = Some r" by (auto simp: lsq_do_access_def rbind_Inr_iff lsq_at_Inr)
  define s1 where "s1 = (if \<not> lsq_bufferable (lr_request r) \<and> \<not> issuedToMemory r
    then (lsq_put p (r\<lparr>issuedToMemory := True\<rparr>) s)\<lparr>numAccessesIssuedToMemory := numAccessesIssuedToMemory s + 1\<rparr>
    else s)"
  have "rbind (tryToSend env p s1) (\<lambda>(sent, s). if sent then moveFromRequestsToTransfers p s else Inr s) = Inr s'"
    using h True r by (simp add: lsq_do_access_def lsq_at_def s1_def Let_def)
  then obtain sent s2 where s2: "tryToSend env p s1 = Inr (sent, s2)"
    "(if sent then moveFromRequestsToTransfers p s2 else Inr s2) = Inr s'"
    by (cases "tryToSend env p s1") auto
  have "lsq_frame s s1"
    using lsq_frame_trans [OF frame_put [OF r] frame_simple(7)] by (simp add: s1_def)
  then have "lsq_frame s s2" using frame_tryToSend [OF s2(1)] lsq_frame_trans by blast
  then show ?thesis using s2(2) passed_move by (cases sent) auto
qed

lemma passed_Inr: "Inr s = Inr s' \<Longrightarrow> lsq_passed p s s'"
  by simp

lemma passed_upd_move:
  "lsq_upd p f s = Inr s1 \<Longrightarrow> moveFromRequestsToTransfers p s1 = Inr s' \<Longrightarrow> (\<And>r. lr_isLoad (f r) = lr_isLoad r) \<Longrightarrow>
   lsq_passed p s s'"
  using passed_move [OF frame_upd] by blast

lemma passed_check_do:
  "lsq_check_access p s = Inr chk \<Longrightarrow> chk = Some v \<Longrightarrow> v = (acc, s1) \<Longrightarrow> lsq_do_access env p acc s1 = Inr s' \<Longrightarrow>
   lsq_passed p s s'"
  using frame_passed [OF frame_check passed_do_access] by blast

lemma passed_tryToSendToTransfers: "tryToSendToTransfers env p s = Inr s' \<Longrightarrow> lsq_passed p s s'"
  unfolding tryToSendToTransfers_def
  by (elim result_elims) (erule passed_Inr passed_skip passed_check_do passed_upd_move | assumption | simp)+

section \<open>Translation\<close>

lemma makePacket_kind: "makePacket j p i r = Inr r' \<Longrightarrow> lr_isLoad r' = lr_isLoad r"
  by (auto simp: makePacket_def rbind_Inr_iff split: if_splits)

lemma makeFragmentRequests_kind: "makeFragmentRequests lw r = Inr r' \<Longrightarrow> lr_isLoad r' = lr_isLoad r"
  by (auto simp: makeFragmentRequests_def rbind_Inr_iff Let_def split: if_splits prod.splits)

lemma rfold_keeps:
  "rfold f r xs = Inr r' \<Longrightarrow> (\<And>r x r'. f r x = Inr r' \<Longrightarrow> g r' = g r) \<Longrightarrow> g r' = g r"
proof (induction xs arbitrary: r)
  case (Cons x xs)
  then obtain r1 where "f r x = Inr r1" "rfold f r1 xs = Inr r'" by (auto simp: rbind_Inr_iff)
  then show ?case using Cons.IH Cons.prems(2) by metis
qed simp

lemma makeFragmentPackets_kind: "makeFragmentPackets j p i r = Inr r' \<Longrightarrow> lr_isLoad r' = lr_isLoad r"
proof -
  assume "makeFragmentPackets j p i r = Inr r'"
  then obtain base r1 a where 1: "rfold (make_fragment_packet j p base) r [0..<unat (numTranslatedFragments r)] = Inr r1"
    and 2: "makePacket j p i (r1\<lparr>lr_request := rq_setPaddr a (lr_request r1)\<rparr>) = Inr r'"
    by (auto simp: makeFragmentPackets_def rbind_Inr_iff)
  have "lr_isLoad r1 = lr_isLoad r"
    by (rule rfold_keeps [OF 1]) (auto simp: make_fragment_packet_def rbind_Inr_iff)
  then show ?thesis using makePacket_kind [OF 2] by simp
qed

lemma frame_put_after:
  "lsq_frame s s1 \<Longrightarrow> lsq_kinds s p = Some (lr_isLoad r) \<Longrightarrow> lsq_frame s (lsq_put p r s1)"
  by (auto simp: lsq_frame_def lsq_put_def lsq_kinds_def fun_eq_iff)

lemma frame_simple_after:
  "lsq_frame s s1 \<Longrightarrow> lsq_frame s (lsq_set_inst ip i s1)" "lsq_frame s s1 \<Longrightarrow> lsq_frame s (lsq_wakeup s1)"
  "lsq_frame s s1 \<Longrightarrow> lsq_frame s (s1\<lparr>numAccessesInDTLB := d\<rparr>)"
  by (erule lsq_frame_trans, simp)+

lemma frame_upd_after:
  "lsq_upd p f s1 = Inr s2 \<Longrightarrow> (\<And>r. lr_isLoad (f r) = lr_isLoad r) \<Longrightarrow> lsq_frame s s1 \<Longrightarrow> lsq_frame s s2"
  using frame_upd lsq_frame_trans by blast

lemma frame_call_after:
  "tryToSuppressFault env ip s1 = Inr s2 \<Longrightarrow> lsq_frame s s1 \<Longrightarrow> lsq_frame s s2"
  "completeDisabledMemAccess env ip s1 = Inr s2 \<Longrightarrow> lsq_frame s s1 \<Longrightarrow> lsq_frame s s2"
  "disableMemAccess ip s1 = Inr s2 \<Longrightarrow> lsq_frame s s1 \<Longrightarrow> lsq_frame s s2"
  using frame_suppress frame_complete_disabled frame_disable lsq_frame_trans by blast+

lemma frame_Inr_after: "Inr s1 = Inr s2 \<Longrightarrow> lsq_frame s s1 \<Longrightarrow> lsq_frame s s2"
  by simp

lemmas frame_intros = lsq_frame_refl frame_put_after frame_simple_after

lemmas frame_calls = frame_call_after frame_upd_after frame_Inr_after

lemma kinds_at: "lsq_at s p = Inr r \<Longrightarrow> lsq_kinds s p = Some (lr_isLoad r)"
  by (auto simp: lsq_at_def lsq_kinds_def split: option.splits)

lemma lsq_at_update [simp]: "lsq_at (s\<lparr>numAccessesInDTLB := d\<rparr>) p = lsq_at s p"
  by (simp add: lsq_at_def)

lemma passed_send:
  "tryToSendToTransfers env p s1 = Inr s' \<Longrightarrow> lsq_frame s s1 \<Longrightarrow> lsq_passed p s s'"
  "tryToSendToTransfers env p s1 = Inr s2 \<Longrightarrow> Inr (lsq_wakeup s2) = Inr s' \<Longrightarrow> lsq_frame s s1 \<Longrightarrow> lsq_passed p s s'"
  by (rule frame_passed [OF _ passed_tryToSendToTransfers], assumption+)
    (simp, drule sym, simp, rule passed_then_frame [OF frame_passed [OF _ passed_tryToSendToTransfers] frame_simple(2)])

lemma passed_single: "lsq_translated_single env p f req s = Inr s' \<Longrightarrow> lsq_passed p s s'"
  unfolding lsq_translated_single_def Let_def
  by (elim result_elims; simp only: lsq_at_update; drule kinds_at; erule (1) passed_send(2))
    (rule frame_intros | erule frame_calls | simp add: makePacket_kind lr_setState_def)+

lemma passed_split: "lsq_translated_split env p k f req s = Inr s' \<Longrightarrow> lsq_passed p s s'"
  unfolding lsq_translated_split_def Let_def
  by (elim result_elims; simp only: lsq_at_update; drule kinds_at; (erule passed_send(1))?; (rule passed_frame)?)
    (rule frame_intros | erule frame_calls | simp add: makeFragmentPackets_kind lr_setState_def)+

lemma passed_finish: "lsq_finish env p k f req s = Inr s' \<Longrightarrow> lsq_passed p s s'"
  unfolding lsq_finish_def
  by (elim result_elims, rename_tac r, case_tac "lr_class r") (auto intro: passed_single passed_split)

lemma passed_translateTiming: "lsq_translateTiming env p k req s = Inr s' \<Longrightarrow> lsq_passed p s s'"
  unfolding lsq_translateTiming_def
  by (elim result_elims) (erule passed_finish | rule passed_frame, erule frame_upd, simp)+

lemma passed_next_fragment: "sendNextFragmentToTranslation env p s = Inr s' \<Longrightarrow> lsq_passed p s s'"
  unfolding sendNextFragmentToTranslation_def Let_def
  by (elim result_elims, drule kinds_at, drule passed_translateTiming, erule frame_passed [rotated])
    (rule frame_intros | simp)+

lemma passed_start: "startAddrTranslation env p s = Inr s' \<Longrightarrow> lsq_passed p s s'"
proof -
  assume st: "startAddrTranslation env p s = Inr s'"
  then obtain r where at: "lsq_at s p = Inr r" by (auto simp: startAddrTranslation_def rbind_Inr_iff)
  note r = kinds_at [OF this]
  show ?thesis
  proof (cases "lr_class r")
    case SingleDataRequest
    show ?thesis using st at SingleDataRequest r unfolding startAddrTranslation_def
      by - (simp, (elim result_elims; (drule passed_translateTiming, erule frame_passed [rotated])?; (rule passed_frame)?),
        (rule frame_intros | erule frame_calls | simp)+)
  next
    case SplitDataRequest
    show ?thesis using st at SplitDataRequest r unfolding startAddrTranslation_def
      by - (simp, (elim result_elims; (drule passed_next_fragment, erule frame_passed [rotated])?; (rule passed_frame)?),
        (rule frame_intros | erule frame_calls | simp add: makeFragmentRequests_kind)+)
  qed (use st at in \<open>simp_all add: startAddrTranslation_def\<close>)
qed

end
