(* ===== verification/LSQInv.thy ===== *)
theory LSQInv
  imports LSQFrame
begin

unbundle bit_operations_syntax

text \<open>
  The load/store queue as a transition system: every call the pipeline, the address translation,
  the data cache and the event queue make on it is a step of \<open>lsq_trans\<close>. The invariant \<open>lsq_inv\<close>
  holds in every reachable state: requests stay in the order in which they were pushed, the live
  requests are exactly those the queues hold, each in one place, \<^verbatim>\<open>transfers\<close> never overflows,
  \<^verbatim>\<open>numStoresInTransfers\<close> is the number of stores in it and the limit on accesses in flight is kept.
\<close>

section \<open>The invariant\<close>

abbreviation "lq_T s \<equiv> mq_queue (transfers s)"
abbreviation "lq_R s \<equiv> mq_queue (requests s)"
abbreviation "lq_B s \<equiv> slots (storeBuffer s)"

definition lsq_order :: "nat list \<Rightarrow> nat list \<Rightarrow> nat list \<Rightarrow> nat \<Rightarrow> (nat \<Rightarrow> bool option) \<Rightarrow> bool" where
  "lsq_order T R B fresh kinds \<longleftrightarrow>
     sorted_wrt (<) (T @ R) \<and> distinct B \<and> set B \<inter> set (T @ R) = {} \<and>
     {p. kinds p \<noteq> None} = set (T @ R) \<union> set B \<and> (\<forall>p \<in> set (T @ R) \<union> set B. p < fresh)"

definition lsq_inv :: "lsq \<Rightarrow> bool" where
  "lsq_inv s \<longleftrightarrow>
     lsq_order (lq_T s) (lq_R s) (lq_B s) (lq_fresh s) (lsq_kinds s) \<and>
     unat (numStoresInTransfers s) = length (filter (\<lambda>p. lsq_kinds s p = Some False) (lq_T s)) \<and>
     length (lq_T s) + unat (numReservedSlots (transfers s)) \<le> unat (mq_capacity (transfers s)) \<and>
     unat (mq_capacity (transfers s)) < 2 ^ 31 \<and> numAccessesInMemorySystem s \<le> inMemorySystemLimit s"

lemma order_move: "lsq_order (T @ [p]) R B f k = lsq_order T (p # R) B f k"
  by (simp add: lsq_order_def)

lemma inv_frame: "lsq_frame s s' \<Longrightarrow> lsq_inv s \<Longrightarrow> lsq_inv s'"
  unfolding lsq_frame_def lsq_inv_def by (elim conjE, intro conjI) simp_all

lemma inv_moved:
  assumes m: "lsq_moved p s s'" and i: "lsq_inv s"
  shows "lsq_inv s'"
proof -
  have sp: "queue_small (transfers s)" using i by (simp add: lsq_inv_def queue_small_def)
  have "unat (queue_unreservedRemainingSpace (transfers s)) \<noteq> 0" using m by (simp add: lsq_moved_def unat_eq_zero)
  then have room: "length (lq_T s) + unat (numReservedSlots (transfers s)) < unat (mq_capacity (transfers s))"
    using queue_unreserved_eq [OF sp] by linarith
  have "length (filter (\<lambda>p. lsq_kinds s p = Some False) (lq_T s)) \<le> length (lq_T s)" by simp
  then have "unat (numStoresInTransfers s) < 2 ^ 31" using room i unfolding lsq_inv_def by linarith
  then have n: "unat (numStoresInTransfers s + 1) = unat (numStoresInTransfers s) + 1"
    by (simp add: unat_word_ariths)
  obtain b where k: "lsq_kinds s p = Some b" using m by (auto simp: lsq_moved_def)
  from m have q: "lq_R s = p # lq_R s'" "lq_T s' = lq_T s @ [p]" "lq_B s' = lq_B s" "lq_fresh s' = lq_fresh s"
    "lsq_kinds s' = lsq_kinds s" "mq_capacity (transfers s') = mq_capacity (transfers s)"
    "unat (numReservedSlots (transfers s')) \<le> unat (numReservedSlots (transfers s))"
    "numStoresInTransfers s' = numStoresInTransfers s + (if b then 0 else 1)"
    "numAccessesInMemorySystem s' \<le> inMemorySystemLimit s'"
    using i k by (simp_all add: lsq_moved_def lsq_inv_def)
  show ?thesis unfolding lsq_inv_def
  proof (intro conjI)
    show "lsq_order (lq_T s') (lq_R s') (lq_B s') (lq_fresh s') (lsq_kinds s')"
      unfolding q(2-5) order_move q(1) [symmetric] using i by (simp add: lsq_inv_def)
    show "unat (numStoresInTransfers s') = length (filter (\<lambda>p. lsq_kinds s' p = Some False) (lq_T s'))"
      unfolding q(2,5,8) using i n k by (simp add: lsq_inv_def)
    show "length (lq_T s') + unat (numReservedSlots (transfers s')) \<le> unat (mq_capacity (transfers s'))"
      unfolding q(2,6) using q(7) room by simp
  qed (use i q(6,9) in \<open>simp_all add: lsq_inv_def\<close>)
qed

lemma inv_passed: "lsq_passed p s s' \<Longrightarrow> lsq_inv s \<Longrightarrow> lsq_inv s'"
  using inv_frame inv_moved unfolding lsq_passed_def by blast

section \<open>Requests that come and go\<close>

lemma order_push: "lsq_order T R B f k \<Longrightarrow> lsq_order T (R @ [f]) B (Suc f) (k(f \<mapsto> b))"
  by (auto simp: lsq_order_def sorted_wrt_append less_Suc_eq fun_upd_def split: if_splits)

lemma order_insert: "lsq_order T R B f k \<Longrightarrow> lsq_order T R (B @ [f]) (Suc f) (k(f \<mapsto> b))"
  by (auto simp: lsq_order_def sorted_wrt_append less_Suc_eq fun_upd_def split: if_splits)

lemma order_pop: "lsq_order (p # T) R B f k \<Longrightarrow> lsq_order T R B f (k(p := None))"
  by (auto simp: lsq_order_def sorted_wrt_append fun_upd_def split: if_splits)

lemma order_commit: "lsq_order (p # T) R B f k \<Longrightarrow> lsq_order T R (B @ [p]) f k"
  by (auto simp: lsq_order_def sorted_wrt_append)

lemma order_delete: "lsq_order T R B f k \<Longrightarrow> p \<in> set B \<Longrightarrow> lsq_order T R (remove1 p B) f (k(p := None))"
  by (auto simp: lsq_order_def fun_upd_def set_remove1_eq split: if_splits)

text \<open>A change that leaves the transfers queue alone.\<close>

lemma inv_change:
  assumes i: "lsq_inv s" and o: "lsq_order (lq_T s) (lq_R s') (lq_B s') (lq_fresh s') (lsq_kinds s')"
    and t: "transfers s' = transfers s" "numStoresInTransfers s' = numStoresInTransfers s"
      "numAccessesInMemorySystem s' \<le> numAccessesInMemorySystem s" "inMemorySystemLimit s' = inMemorySystemLimit s"
    and k: "\<And>p. p \<in> set (lq_T s) \<Longrightarrow> lsq_kinds s' p = lsq_kinds s p"
  shows "lsq_inv s'"
proof -
  have "filter (\<lambda>p. lsq_kinds s' p = Some False) (lq_T s) = filter (\<lambda>p. lsq_kinds s p = Some False) (lq_T s)"
    by (rule filter_cong) (simp_all add: k)
  moreover have "numAccessesInMemorySystem s' \<le> inMemorySystemLimit s"
    using i order_trans [OF t(3)] unfolding lsq_inv_def by blast
  ultimately show ?thesis using i o t by (simp add: lsq_inv_def)
qed

lemma kinds_put: "lsq_kinds (lsq_put p r s) = (lsq_kinds s)(p \<mapsto> lr_isLoad r)"
  by (simp add: lsq_kinds_def lsq_put_def fun_eq_iff)

lemma kinds_delete: "lsq_kinds (lsq_delete p s) = (lsq_kinds s)(p := None)"
  by (simp add: lsq_kinds_def lsq_delete_def fun_eq_iff)

lemma kinds_update [simp]:
  "lsq_kinds (s\<lparr>requests := q\<rparr>) = lsq_kinds s" "lsq_kinds (s\<lparr>lq_fresh := f\<rparr>) = lsq_kinds s"
  "lsq_kinds (s\<lparr>storeBuffer := b\<rparr>) = lsq_kinds s" "lsq_kinds (lsq_wakeup s) = lsq_kinds s"
  "lsq_kinds (lsq_set_inst ip i s) = lsq_kinds s" "lsq_kinds (s\<lparr>CvuConstUse := c\<rparr>) = lsq_kinds s"
  "lsq_kinds (s\<lparr>numAccessesInMemorySystem := n\<rparr>) = lsq_kinds s"
  by (simp_all add: lsq_kinds_def lsq_wakeup_def lsq_set_inst_def fun_eq_iff)

lemma live_lt: "lsq_inv s \<Longrightarrow> p \<in> set (lq_T s) \<union> set (lq_R s) \<union> set (lq_B s) \<Longrightarrow> p < lq_fresh s"
  by (auto simp: lsq_inv_def lsq_order_def)

text \<open>A new request, pushed or, for a barrier, inserted into the store buffer.\<close>

lemma inv_push:
  assumes i: "lsq_inv s" and s': "lq_R s' = lq_R s @ [lq_fresh s] \<and> lq_B s' = lq_B s \<or> lq_R s' = lq_R s \<and> lq_B s' = lq_B s @ [lq_fresh s]"
    "lq_fresh s' = Suc (lq_fresh s)" "lsq_kinds s' = (lsq_kinds s)(lq_fresh s \<mapsto> b)" "transfers s' = transfers s"
    "numStoresInTransfers s' = numStoresInTransfers s" "numAccessesInMemorySystem s' = numAccessesInMemorySystem s"
    "inMemorySystemLimit s' = inMemorySystemLimit s"
  shows "lsq_inv s'"
proof (rule inv_change [OF i])
  have o: "lsq_order (lq_T s) (lq_R s) (lq_B s) (lq_fresh s) (lsq_kinds s)" using i by (simp add: lsq_inv_def)
  show "lsq_order (lq_T s) (lq_R s') (lq_B s') (lq_fresh s') (lsq_kinds s')"
    using s'(1) order_push [OF o] order_insert [OF o] unfolding s'(2,3) by auto
qed (use live_lt [OF i] in \<open>auto simp: s'\<close>)

lemma inv_delete:
  assumes i: "lsq_inv s" and p: "p \<in> set (lq_B s)" and s': "lq_R s' = lq_R s" "lq_B s' = remove1 p (lq_B s)"
    "lq_fresh s' = lq_fresh s" "lsq_kinds s' = (lsq_kinds s)(p := None)" "transfers s' = transfers s"
    "numStoresInTransfers s' = numStoresInTransfers s" "numAccessesInMemorySystem s' = numAccessesInMemorySystem s"
    "inMemorySystemLimit s' = inMemorySystemLimit s"
  shows "lsq_inv s'"
proof (rule inv_change [OF i])
  show "lsq_order (lq_T s) (lq_R s') (lq_B s') (lq_fresh s') (lsq_kinds s')"
    using i order_delete [OF _ p] by (simp add: s' lsq_inv_def)
qed (use i p in \<open>auto simp: s' lsq_inv_def lsq_order_def\<close>)

text \<open>The head of \<^verbatim>\<open>transfers\<close> leaves: deleted, or on to the store buffer.\<close>

lemma inv_pop:
  assumes i: "lsq_inv s" and T: "lq_T s = p # ts" and k: "lsq_kinds s p = Some b"
    and s': "transfers s' = (transfers s)\<lparr>mq_queue := ts\<rparr>" "requests s' = requests s" "lq_fresh s' = lq_fresh s"
      "numStoresInTransfers s' = (if b then numStoresInTransfers s else numStoresInTransfers s - 1)"
      "numAccessesInMemorySystem s' = numAccessesInMemorySystem s" "inMemorySystemLimit s' = inMemorySystemLimit s"
    and B: "lq_B s' = lq_B s \<and> lsq_kinds s' = (lsq_kinds s)(p := None) \<or> lq_B s' = lq_B s @ [p] \<and> lsq_kinds s' = lsq_kinds s"
  shows "lsq_inv s'"
proof -
  have o: "lsq_order (p # ts) (lq_R s) (lq_B s) (lq_fresh s) (lsq_kinds s)" using i T by (simp add: lsq_inv_def)
  have o': "lsq_order ts (lq_R s) (lq_B s') (lq_fresh s) (lsq_kinds s')"
    using B order_pop [OF o] order_commit [OF o] by auto
  have "p \<notin> set ts" using o by (auto simp: lsq_order_def)
  then have f: "filter (\<lambda>p. lsq_kinds s' p = Some False) ts = filter (\<lambda>p. lsq_kinds s p = Some False) ts"
    using B by (intro filter_cong) (auto split: if_splits)
  have n: "unat (numStoresInTransfers s) = (if b then 0 else 1) + length (filter (\<lambda>p. lsq_kinds s p = Some False) ts)"
    using i T k by (simp add: lsq_inv_def)
  then have "unat (numStoresInTransfers s') = length (filter (\<lambda>p. lsq_kinds s p = Some False) ts)"
    using s'(4) unat_minus_one [of "numStoresInTransfers s"] by (cases b; cases "numStoresInTransfers s = 0") simp_all
  then show ?thesis using i T o' f by (simp add: lsq_inv_def s')
qed

section \<open>The operations keep the invariant\<close>

lemma inv_sb_delete: "lsq_inv s \<Longrightarrow> lsq_inv (sb_deleteRequest p s)"
  unfolding sb_deleteRequest_def
  by (cases "p \<in> set (lq_B s)") (simp_all, erule (1) inv_delete, simp_all add: kinds_delete, simp_all add: lsq_delete_def)

lemma split_paste_kind: "split_paste j k r = Inr r' \<Longrightarrow> lr_isLoad r' = lr_isLoad r"
  by (auto simp: split_paste_def rbind_Inr_iff Let_def)

lemma split_complete_kind: "split_complete j r = Inr r' \<Longrightarrow> lr_isLoad r' = lr_isLoad r"
  unfolding split_complete_def Let_def by (elim result_elims) auto

lemma split_retire_kind: "split_retireResponse j i k r = Inr r' \<Longrightarrow> lr_isLoad r' = lr_isLoad r"
  unfolding split_retireResponse_def Let_def
  by (elim result_elims) (auto dest!: split_paste_kind split_complete_kind split: if_splits)

lemma retire_kind: "retireResponse j i k r = Inr r' \<Longrightarrow> lr_isLoad r' = lr_isLoad r"
  by (cases "lr_class r") (auto simp: retireResponse_def single_retireResponse_def split_retire_kind)

lemma inv_resp:
  assumes r: "lsq_recvTimingResp env resp s = Inr s'" and n: "0 < numAccessesInMemorySystem s" and i: "lsq_inv s"
  shows "lsq_inv s'"
proof -
  define s0 where "s0 = s\<lparr>numAccessesInMemorySystem := numAccessesInMemorySystem s - 1\<rparr>"
  have "numAccessesInMemorySystem s - 1 \<le> numAccessesInMemorySystem s" using n by (simp add: word_le_nat_alt unat_minus_one)
  then have 0: "lsq_inv s0"
    using i by (intro inv_change [OF i]) (simp_all add: s0_def lsq_inv_def)
  have put: "lsq_inv (lsq_put p r' s0)" if "lsq_at s0 p = Inr r" "retireResponse j ii k r = Inr r'" for p r r' j ii k
    using inv_frame [OF frame_put 0] that retire_kind by (auto simp: lsq_at_Inr)
  from r show ?thesis unfolding lsq_recvTimingResp_def Let_def s0_def [symmetric]
    by (elim result_elims) (auto intro: inv_frame [OF frame_simple(2)] inv_sb_delete put split: if_splits)
qed

lemma frame_count: "sb_countIssuedStore p s = Inr s' \<Longrightarrow> lsq_frame s s'"
  by (auto simp: sb_countIssuedStore_def rbind_Inr_iff Let_def lsq_frame_def lsq_kinds_def fun_eq_iff split: if_splits)

lemma frame_clear_barrier: "clearMemBarrier ip s = Inr s' \<Longrightarrow> lsq_frame s s'"
  by (auto simp: clearMemBarrier_def rbind_Inr_iff Let_def split: if_splits)

lemma frame_unissued: "lsq_frame s (s\<lparr>storeBuffer := (storeBuffer s)\<lparr>numUnissuedAccesses := n\<rparr>\<rparr>)"
  by (simp add: lsq_frame_def)

lemma inv_clear_step:
  assumes i: "lsq_inv s" and B: "lq_B s = p # rest"
    and s1: "clearMemBarrier ip (s\<lparr>storeBuffer := (storeBuffer s)\<lparr>numUnissuedAccesses := n\<rparr>\<rparr>) = Inr s1"
  shows "lsq_inv (lsq_delete p (s1\<lparr>storeBuffer := (storeBuffer s1)\<lparr>slots := rest\<rparr>\<rparr>))"
proof -
  have f: "lsq_frame s s1" using lsq_frame_trans [OF frame_unissued frame_clear_barrier [OF s1]] .
  then have "lq_B s1 = p # rest" using B by (simp add: lsq_frame_def)
  then show ?thesis
    by (intro inv_delete [OF inv_frame [OF f i], where p = p]) (simp_all add: kinds_delete, simp_all add: lsq_delete_def)
qed

lemma inv_clear_barriers: "sb_clear_barriers ps s = Inr s' \<Longrightarrow> lsq_inv s \<Longrightarrow> lq_B s = ps \<Longrightarrow> lsq_inv s'"
proof (induction ps arbitrary: s)
  case (Cons p rest)
  note step = Cons.IH [OF _ inv_clear_step [OF Cons.prems(2,3)]]
  from Cons.prems(1) show ?case unfolding sb_clear_barriers.simps Let_def
    by (elim result_elims) ((erule step, assumption, simp add: lsq_delete_def) | use Cons.prems(2) in simp)+
qed simp

lemma frame_issue: "sb_issue env b n ps s = Inr s' \<Longrightarrow> lsq_frame s s'"
proof (induction ps arbitrary: b n s)
  case (Cons p rest)
  have step: "lsq_frame s s'" if "tryToSend env p s = Inr x" "x = (c, s2)" "sb_issue env b n rest s2 = Inr s'" for x c s2 b n
    using frame_tryToSend Cons.IH lsq_frame_trans that by blast
  have count: "lsq_frame s s'" if "tryToSend env p s = Inr x" "x = (c, s2)" "sb_countIssuedStore p s2 = Inr s3"
    "sb_issue env b n rest s3 = Inr s'" for x c s2 s3 b n
    using lsq_frame_trans [OF frame_tryToSend lsq_frame_trans [OF frame_count Cons.IH]] that by blast
  from Cons.prems show ?case unfolding sb_issue.simps
    by (elim result_elims) (erule (3) count | erule (2) step | erule Cons.IH | simp)+
qed simp

lemma inv_sb_step: "sb_step env s = Inr s' \<Longrightarrow> lsq_inv s \<Longrightarrow> lsq_inv s'"
  unfolding sb_step_def by (elim result_elims) (auto dest: inv_clear_barriers frame_issue inv_frame)

lemma inv_step: "lsq_step env s = Inr s' \<Longrightarrow> lsq_inv s \<Longrightarrow> lsq_inv s'"
  unfolding lsq_step_def by (elim result_elims) (auto dest: passed_tryToSendToTransfers inv_passed inv_sb_step)

lemma inv_retry_sent:
  "(case lr_state r of RequestIssuing \<Rightarrow> moveFromRequestsToTransfers p s
    | StoreBufferIssuing \<Rightarrow> sb_countIssuedStore p s | _ \<Rightarrow> Inl Panic) = Inr s' \<Longrightarrow> lsq_inv s \<Longrightarrow>
   lsq_inv (s'\<lparr>retryRequest := None\<rparr>)"
  using inv_frame [OF frame_simple(9)] inv_moved [OF move_passed] inv_frame [OF frame_count]
  by (cases "lr_state r") simp_all

lemma inv_retry_send:
  assumes "lsq_at s p = Inr r" "tryToSend env p ((lsq_put p (lr_setState st r) s)\<lparr>lq_state := MemoryRunning\<rparr>) = Inr x"
    "x = (sent, s2)" "lsq_inv s"
  shows "lsq_inv s2"
  using assms lsq_frame_trans [OF lsq_frame_trans [OF frame_put frame_simple(5)] frame_tryToSend] inv_frame
  by (simp add: lsq_at_Inr) (metis kinds_of_request(1))

lemma inv_retry: "lsq_recvReqRetry env s = Inr s' \<Longrightarrow> lsq_inv s \<Longrightarrow> lsq_inv s'"
  unfolding lsq_recvReqRetry_def Let_def
  by (elim result_elims; drule (3) inv_retry_send) (simp_all, drule (1) inv_retry_sent, simp)

lemma inv_barrier: "completeMemBarrierInst ip c s = Inr s' \<Longrightarrow> lsq_inv s \<Longrightarrow> lsq_inv s'"
proof (cases c)
  case True
  assume h: "completeMemBarrierInst ip c s = Inr s'" and i: "lsq_inv s"
  show ?thesis
  proof (cases "s' = s")
    case False
    with True h show ?thesis
      by (intro inv_push [OF i, where b = True])
        (auto simp: completeMemBarrierInst_def rbind_Inr_iff lsq_alloc_def sb_insert_def lsq_at_def barrierDataRequest_def
          lr_new_def lsq_put_def lsq_wakeup_def lsq_kinds_def fun_eq_iff Let_def split: if_splits)
  qed (use i in simp)
qed (auto simp: completeMemBarrierInst_def dest: frame_clear_barrier inv_frame)

definition lsq_popped :: "nat \<Rightarrow> lsq_req \<Rightarrow> nat list \<Rightarrow> lsq \<Rightarrow> lsq" where
  "lsq_popped p r ts s =
     (let s1 = s\<lparr>transfers := (transfers s)\<lparr>mq_queue := ts\<rparr>,
            numStoresInTransfers := (if lr_isLoad r then numStoresInTransfers s else numStoresInTransfers s - 1),
            numAccessesIssuedToMemory := (if issuedToMemory r then numAccessesIssuedToMemory s - 1
                                          else numAccessesIssuedToMemory s)\<rparr> in
      if lr_state r \<noteq> StoreInStoreBuffer then lsq_delete p s1 else s1)"

lemma pop_Inr:
  assumes "popResponse p s = Inr s'"
  obtains r ts where "lq_T s = p # ts" "lq_heap s p = Some r"
    "s' = lsq_popped p r ts s"
proof (cases "lq_T s")
  case Nil
  then show ?thesis using assms by (simp add: popResponse_def queue_empty_def)
next
  case (Cons h ts)
  then have q: "\<not> queue_empty (transfers s)" "queue_front (transfers s) = Inr h"
    "queue_pop (transfers s) = Inr ((transfers s)\<lparr>mq_queue := ts\<rparr>)"
    by (simp_all add: queue_empty_def queue_front_def queue_pop_def)
  from assms have h: "h = p" unfolding popResponse_def
    by (simp add: q) (elim rbind_InrE, simp)
  from assms obtain r where r: "lq_heap s p = Some r" unfolding popResponse_def
    by (simp add: q lsq_at_Inr) (elim rbind_InrE, simp add: lsq_at_Inr)
  from assms have "(Inr (lsq_popped p r ts s) :: lsq result) = Inr s'"
    unfolding popResponse_def
    by (simp only: q h r lsq_at_def rbind_simps rassert_simps if_False option.case Let_def simp_thms lsq_popped_def)
  then show ?thesis using that Cons r h by simp
qed

lemma find_state:
  assumes "findResponse ip s = Inr (Some p)"
  obtains r where "lq_heap s p = Some r" "lr_state r = Complete \<or> lr_state r = StoreToStoreBuffer"
  using assms unfolding findResponse_def Let_def
  by (elim result_elims) (auto simp: lsq_at_Inr lr_isComplete_def split: if_splits)

lemma popped_fields:
  "transfers (lsq_popped p r ts s) = (transfers s)\<lparr>mq_queue := ts\<rparr>" "requests (lsq_popped p r ts s) = requests s"
  "lq_fresh (lsq_popped p r ts s) = lq_fresh s" "storeBuffer (lsq_popped p r ts s) = storeBuffer s"
  "numStoresInTransfers (lsq_popped p r ts s) = (if lr_isLoad r then numStoresInTransfers s else numStoresInTransfers s - 1)"
  "numAccessesInMemorySystem (lsq_popped p r ts s) = numAccessesInMemorySystem s"
  "inMemorySystemLimit (lsq_popped p r ts s) = inMemorySystemLimit s"
  "lsq_kinds (lsq_popped p r ts s) = (if lr_state r = StoreInStoreBuffer then lsq_kinds s else (lsq_kinds s)(p := None))"
  by (simp_all add: lsq_popped_def Let_def lsq_delete_def) (auto simp: lsq_kinds_def fun_eq_iff)

lemma inv_popResponse:
  assumes i: "lsq_inv s" and f: "findResponse ip s = Inr (Some p)" and pop: "popResponse p s = Inr s'"
  shows "lsq_inv s'"
proof -
  from pop obtain r ts where T: "lq_T s = p # ts" and r: "lq_heap s p = Some r"
    and s': "s' = lsq_popped p r ts s" by (rule pop_Inr)
  have "lr_state r \<noteq> StoreInStoreBuffer" using f by (rule find_state) (use r in auto)
  then show ?thesis
    by (intro inv_pop [OF i T, where b = "lr_isLoad r"]) (simp_all add: s' popped_fields, simp add: lsq_kinds_def r)
qed

lemma send_Inr:
  assumes "sendStoreToStoreBuffer p s = Inr s'"
  obtains r r' where "lq_heap s p = Some r" "lq_heap s' p = Some r'" "lr_state r' = StoreInStoreBuffer" "lr_isLoad r' = lr_isLoad r"
    "lsq_kinds s' = lsq_kinds s" "lq_B s' = lq_B s @ [p]" "transfers s' = transfers s" "requests s' = requests s"
    "lq_fresh s' = lq_fresh s" "numStoresInTransfers s' = numStoresInTransfers s"
    "numAccessesInMemorySystem s' = numAccessesInMemorySystem s" "inMemorySystemLimit s' = inMemorySystemLimit s"
proof -
  from assms obtain r ii where r: "lq_heap s p = Some r" "lr_state r = StoreToStoreBuffer"
    and ii: "lsq_inst s (lr_inst r) = Inr ii"
    unfolding sendStoreToStoreBuffer_def by (elim result_elims) (simp add: lsq_at_Inr)
  let ?s = "lsq_put p (lr_setState StoreInStoreBuffer r) (lsq_set_inst (lr_inst r) (ii\<lparr>inStoreBuffer := True\<rparr>) s)"
  have s': "s' = lsq_wakeup (?s\<lparr>storeBuffer := (storeBuffer s)
      \<lparr>numUnissuedAccesses := numUnissuedAccesses (storeBuffer s) + 1, slots := lq_B s @ [p]\<rparr>\<rparr>)"
    using assms r ii unfolding sendStoreToStoreBuffer_def
    by (simp add: lsq_at_def sb_insert_def lsq_set_inst_def lsq_put_def Let_def)
  have "lsq_kinds s' = lsq_kinds s"
    by (simp add: s' lsq_kinds_def lsq_put_def lsq_wakeup_def lsq_set_inst_def fun_eq_iff r)
  then show ?thesis
    using that [of r "lr_setState StoreInStoreBuffer r"] r
    by (simp add: s' lsq_put_def lsq_wakeup_def lsq_set_inst_def lr_setState_def)
qed

lemma inv_commit:
  assumes i: "lsq_inv s" and snd: "sendStoreToStoreBuffer p s = Inr s1" and pop: "popResponse p s1 = Inr s'"
  shows "lsq_inv s'"
  using snd
proof (rule send_Inr)
  fix r r1
  assume r: "lq_heap s p = Some r" "lq_heap s1 p = Some r1" "lr_state r1 = StoreInStoreBuffer" "lr_isLoad r1 = lr_isLoad r"
    and s1: "lsq_kinds s1 = lsq_kinds s" "lq_B s1 = lq_B s @ [p]" "transfers s1 = transfers s" "requests s1 = requests s"
    "lq_fresh s1 = lq_fresh s" "numStoresInTransfers s1 = numStoresInTransfers s"
    "numAccessesInMemorySystem s1 = numAccessesInMemorySystem s" "inMemorySystemLimit s1 = inMemorySystemLimit s"
  from pop obtain r2 ts where T: "lq_T s1 = p # ts" and r2: "lq_heap s1 p = Some r2"
    and s': "s' = lsq_popped p r2 ts s1" by (rule pop_Inr)
  show ?thesis using r r2 s1 T
    by (intro inv_pop [OF i, where b = "lr_isLoad r" and p = p and ts = ts])
      (simp_all add: s' popped_fields, simp add: lsq_kinds_def)
qed

lemma inv_alloc:
  "lsq_alloc r s = (p, s1) \<Longrightarrow> lsq_inv s \<Longrightarrow>
   lsq_inv (s1\<lparr>requests := fst (queue_push (\<lambda>_. False) (requests s1) p)\<rparr>)"
  by (erule inv_push [where b = "lr_isLoad r"])
    (auto simp: lsq_alloc_def lsq_put_def push_fields lsq_kinds_def fun_eq_iff)

lemma inv_started:
  assumes "lsq_alloc r (s\<lparr>CvuConstUse := c\<rparr>) = (p, s1)"
    "startAddrTranslation env p (lsq_set_inst ip ii (s1\<lparr>requests := fst (queue_push (\<lambda>_. False) (requests s1) p)\<rparr>)) = Inr s2"
    "(Inr (y, s2) :: (fault \<times> lsq) result) = Inr (f, s')" "lsq_inv s"
  shows "lsq_inv s'"
  using inv_passed [OF passed_start [OF assms(2)]
      inv_frame [OF frame_simple(1) inv_alloc [OF assms(1) inv_frame [OF frame_simple(11) assms(4)]]]] assms(3) by simp

lemma inv_pushRequest:
  "pushRequest env ip isLoad data sz addr flags amo be s = Inr (f, s') \<Longrightarrow> lsq_inv s \<Longrightarrow> lsq_inv s'"
  unfolding pushRequest_def Let_def by (elim result_elims) (erule (3) inv_started | simp only: sum.inject prod.inject)+

lemma inv_pushFailed: "lsq_inv s \<Longrightarrow> lsq_inv (pushFailedRequest ip s)"
  by (erule inv_push [where b = True])
    (simp_all add: pushFailedRequest_def lsq_alloc_def push_fields lsq_put_def, simp add: lsq_kinds_def fun_eq_iff failedDataRequest_def lr_new_def)

section \<open>Reachable states\<close>

inductive lsq_trans :: "lsq \<Rightarrow> lsq \<Rightarrow> bool" where
  trans_push: "pushRequest env ip isLoad data sz addr flags amo be s = Inr (f, s') \<Longrightarrow> lsq_trans s s'"
| trans_failed: "lsq_trans s (pushFailedRequest ip s)"
| trans_finish: "lsq_finish env p k f req s = Inr s' \<Longrightarrow> lsq_trans s s'"
| trans_event: "sendNextFragmentToTranslation env p s = Inr s' \<Longrightarrow> lsq_trans s s'"
| trans_response: "0 < numAccessesInMemorySystem s \<Longrightarrow> lsq_recvTimingResp env pkt s = Inr s' \<Longrightarrow> lsq_trans s s'"
| trans_retry: "lsq_recvReqRetry env s = Inr s' \<Longrightarrow> lsq_trans s s'"
| trans_snoop: "recvTimingSnoopReq pkt s = Inr s' \<Longrightarrow> lsq_trans s s'"
| trans_step: "lsq_step env s = Inr s' \<Longrightarrow> lsq_trans s s'"
| trans_pop: "findResponse ip s = Inr (Some p) \<Longrightarrow> popResponse p s = Inr s' \<Longrightarrow> lsq_trans s s'"
| trans_commit: "sendStoreToStoreBuffer p s = Inr s1 \<Longrightarrow> popResponse p s1 = Inr s' \<Longrightarrow> lsq_trans s s'"
| trans_barrier: "completeMemBarrierInst ip committed s = Inr s' \<Longrightarrow> lsq_trans s s'"
| trans_issued: "issuedMemBarrierInst ip s = Inr s' \<Longrightarrow> lsq_trans s s'"
| trans_execute: "lsq_trans s (s\<lparr>lq_insts := insts, lq_threads := threads, lq_cvu := c\<rparr>)"

lemma frame_issued: "issuedMemBarrierInst ip s = Inr s' \<Longrightarrow> lsq_frame s s'"
  unfolding issuedMemBarrierInst_def by (elim result_elims) auto

lemma lsq_trans_inv: "lsq_trans s s' \<Longrightarrow> lsq_inv s \<Longrightarrow> lsq_inv s'"
proof (induction rule: lsq_trans.induct)
  case (trans_execute s insts threads c)
  then show ?case by (rule inv_frame [rotated]) (simp add: lsq_frame_def lsq_kinds_def fun_eq_iff)
qed (auto intro: inv_pushRequest inv_pushFailed inv_passed [OF passed_finish] inv_passed [OF passed_next_fragment] inv_resp
      inv_retry inv_step inv_popResponse inv_commit inv_barrier inv_frame [OF frame_snoop] inv_frame [OF frame_issued])

lemma lsq_new_inv:
  "lsq_new n cl lim lw rq tq sb cyc c = Inr s \<Longrightarrow> unat tq < 2 ^ 31 \<Longrightarrow> lsq_inv s"
  by (auto simp: lsq_new_def Let_def lsq_inv_def lsq_order_def lsq_kinds_def queue_new_def split: if_splits)

text \<open>
  C17: The load/store queue keeps its requests in order and in one place. In every state it reaches
  from its constructor, under any sequence of calls by the pipeline, the translation, the cache and
  the event queue, the requests in \<^verbatim>\<open>transfers\<close> followed by those in \<^verbatim>\<open>requests\<close> are in the order
  in which they were pushed; the requests not yet deleted are exactly those in these queues and the
  store buffer, and none is in two of them; \<^verbatim>\<open>transfers\<close> holds no more than its capacity;
  \<^verbatim>\<open>numStoresInTransfers\<close> is the number of stores in it; and no more accesses are in the memory system
  than \<^verbatim>\<open>inMemorySystemLimit\<close>.
\<close>

theorem lsq_reachable_inv:
  assumes "lsq_new n cl lim lw rq tq sb cyc c = Inr s0" "unat tq < 2 ^ 31" "lsq_trans\<^sup>*\<^sup>* s0 s"
  shows "sorted_wrt (<) (mq_queue (transfers s) @ mq_queue (requests s)) \<and> distinct (slots (storeBuffer s)) \<and>
    set (slots (storeBuffer s)) \<inter> set (mq_queue (transfers s) @ mq_queue (requests s)) = {} \<and>
    dom (lq_heap s) = set (mq_queue (transfers s) @ mq_queue (requests s)) \<union> set (slots (storeBuffer s)) \<and>
    length (mq_queue (transfers s)) \<le> unat (mq_capacity (transfers s)) \<and>
    unat (numStoresInTransfers s) = length (filter (\<lambda>p. \<not> lr_isLoad (the (lq_heap s p))) (mq_queue (transfers s))) \<and>
    numAccessesInMemorySystem s \<le> inMemorySystemLimit s"
proof -
  have i: "lsq_inv s" using assms(3)
    by (induction rule: rtranclp_induct) (use lsq_new_inv assms lsq_trans_inv in blast)+
  have d: "dom (lq_heap s) = {p. lsq_kinds s p \<noteq> None}" by (auto simp: lsq_kinds_def)
  have "p \<in> dom (lq_heap s)" if "p \<in> set (lq_T s)" for p using i that by (auto simp: d lsq_inv_def lsq_order_def)
  then have "filter (\<lambda>p. lsq_kinds s p = Some False) (lq_T s) = filter (\<lambda>p. \<not> lr_isLoad (the (lq_heap s p))) (lq_T s)"
    by (intro filter_cong) (fastforce simp: lsq_kinds_def)+
  then show ?thesis using i d by (simp add: lsq_inv_def lsq_order_def)
qed

theorem lsq_reachable_inv_witness:
  "dom (lq_heap (pushFailedRequest 0 (projr (lsq_new 1 64 2 0 2 2 4 1 (cvu_new 4 2 3))))) = {0}"
proof -
  define s0 where "s0 = projr (lsq_new 1 64 2 0 2 2 4 1 (cvu_new 4 2 3))"
  have "lsq_new 1 64 2 0 2 2 4 1 (cvu_new 4 2 3) = Inr s0" by (simp add: s0_def lsq_new_def)
  moreover have "lsq_trans\<^sup>*\<^sup>* s0 (pushFailedRequest 0 s0)" by (intro r_into_rtranclp trans_failed)
  ultimately have "dom (lq_heap (pushFailedRequest 0 s0)) = set (mq_queue (transfers (pushFailedRequest 0 s0)) @
      mq_queue (requests (pushFailedRequest 0 s0))) \<union> set (slots (storeBuffer (pushFailedRequest 0 s0)))"
    using lsq_reachable_inv [of 1 64 2 0 2 2 4 1 "cvu_new 4 2 3" s0] by simp
  then show ?thesis
    by (simp add: s0_def lsq_new_def pushFailedRequest_def lsq_alloc_def lsq_put_def push_fields queue_new_def)
qed

section \<open>Loads and older stores\<close>

lemma skip_effect:
  "lsq_skip p s = Inr s' \<Longrightarrow> lq_heap s p = Some r \<Longrightarrow>
   lq_sent s' = lq_sent s \<and> lq_heap s' p = Some (lr_setSkipped (lr_setState Complete r))"
  unfolding lsq_skip_def lsq_upd_def by (elim result_elims move_Inr) (auto simp: lsq_at_Inr lsq_put_def)

lemma load_waits:
  assumes "tryToSendToTransfers env p s = Inr s'" "lq_heap s p = Some r" "lr_isLoad r" "numStoresInTransfers s \<noteq> 0"
  shows "s' = s \<or> lsq_skip p s = Inr s'"
  using assms unfolding tryToSendToTransfers_def by - (elim result_elims; simp add: lsq_at_Inr)

lemma only_front_moves:
  assumes "tryToSendToTransfers env p s = Inr s'" "s' \<noteq> s"
  shows "\<exists>R. lq_R s = p # R"
proof (cases "lq_R s")
  case Nil
  then show ?thesis using assms unfolding tryToSendToTransfers_def by - (elim result_elims; simp add: queue_empty_def)
next
  case (Cons h R)
  then show ?thesis using assms unfolding tryToSendToTransfers_def
    by - (elim result_elims; simp add: queue_empty_def queue_front_def)
qed


definition ex_env :: lsq_env where
  "ex_env = \<lparr>le_rightStream = \<lambda>_. True, le_headInst = \<lambda>_. True, le_sendTimingReq = \<lambda>_ _. True,
     le_localAccessor = id, le_translate = \<lambda>q. Some (NoFault, q), le_initiateAcc = \<lambda>_. (NoFault, True, True),
     le_completeAcc = \<lambda>_. (True, True), le_contextId = id, le_dataRequestorId = 0, le_junk = \<lambda>_. 0\<rparr>"

lemma ex_lsq_inv: "lsq_inv ex_lsq"
  by (auto simp: lsq_inv_def lsq_order_def lsq_kinds_def ex_lsq_def lsq_new_def queue_new_def push_fields ex_access_def
      lr_new_def Let_def split: if_splits)


end
