(* ===== verification/Fetch1.thy ===== *)
theory Fetch1
  imports Stages MemPacket
begin

unbundle bit_operations_syntax

text \<open>
  The first fetch stage, class \<^verbatim>\<open>Fetch1\<close> of \<^verbatim>\<open>cpu/myminor/fetch1.hh\<close> and \<^verbatim>\<open>fetch1.cc\<close>. It
  requests lines of instructions, first from the address translation and then from the instruction
  cache, in two queues of pointers to \<open>fetch_req\<close>: \<open>f1_heap\<close> maps a pointer to a live request, \<^verbatim>\<open>new\<close>
  takes the next address and \<^verbatim>\<open>delete\<close> removes it. \<open>f1_sent\<close> are the packets the cache has accepted
  and \<open>f1_wakeups\<close> counts the calls of \<^verbatim>\<open>wakeupOnEvent\<close>. The stage owns the load value prediction table.

  \<open>f1_env\<close> is what the stage calls and does not own: which threads are active, the scheduling
  policy, the answer of the address translation (\<open>None\<close> when it is delayed; the answer is then a
  later call of \<open>f1_finish\<close>), whether the cache accepts a packet, and the contents of fresh memory.
\<close>

section \<open>State\<close>

datatype FetchRequestState = FrNotIssued | FrInTranslation | FrTranslated | FrRequestIssuing | FrComplete

datatype FetchState = FetchHalted | FetchWaitingForPC | FetchRunning

datatype IcacheState = IcacheRunning | IcacheNeedsRetry

record fetch_req =
  fr_state :: FetchRequestState
  fr_id :: inst_id
  fr_packet :: "mem_packet option"
  fr_request :: mem_request
  fr_pc :: u64
  fr_fault :: fault

definition fetch_req_new :: "inst_id \<Rightarrow> u64 \<Rightarrow> fetch_req" where
  "fetch_req_new iid pc = \<lparr>fr_state = FrNotIssued, fr_id = iid, fr_packet = None, fr_request = request_new,
     fr_pc = pc, fr_fault = NoFault\<rparr>"

record f1_thread =
  ft_state :: FetchState
  ft_pc :: "pcstate option"
  ft_fetchAddr :: u64
  ft_streamSeqNum :: u64
  ft_predictionSeqNum :: u64
  ft_blocked :: bool
  ft_wakeupGuard :: bool

record fetch1 =
  f1_heap :: "nat \<rightharpoonup> fetch_req"
  f1_fresh :: nat
  lineSnap :: u32
  maxLineWidth :: u32
  fetchLimit :: u32
  fetchInfo :: "f1_thread list"
  f1_threadPriority :: int
  f1_requests :: "nat mqueue"
  f1_transfers :: "nat mqueue"
  icacheState :: IcacheState
  f1_lineSeqNum :: u64
  numFetchesInMemorySystem :: u32
  numFetchesInITLB :: u32
  f1_lvpt :: lvpt
  f1_sent :: "mem_packet list"
  f1_wakeups :: nat

record f1_env =
  fe_active :: "int \<Rightarrow> bool"
  fe_policy :: thread_policy
  fe_shuffle :: "int list \<Rightarrow> int list"
  fe_contextId :: "int \<Rightarrow> int"
  fe_instRequestorId :: u16
  fe_translate :: "mem_request \<Rightarrow> (fault \<times> mem_request) option"
  fe_sendTimingReq :: "mem_packet list \<Rightarrow> mem_packet \<Rightarrow> bool"
  fe_junk :: "nat \<Rightarrow> u8"

text \<open>
  The test of \<^verbatim>\<open>fetch1LineWidth\<close> compares the truth value of
  \<^verbatim>\<open>maxLineWidth >= lineSnap && maxLineWidth % inst_size\<close> with zero.
\<close>

definition fetch1_new :: "nat \<Rightarrow> u32 \<Rightarrow> u32 \<Rightarrow> u32 \<Rightarrow> u32 \<Rightarrow> u64 \<Rightarrow> pcstate \<Rightarrow> lvpt \<Rightarrow> fetch1 result" where
  "fetch1_new numThreads cacheLineSize fetch1LineSnapWidth fetch1LineWidth fetch1FetchLimit inst_size newPC table =
     (let snap = (if fetch1LineSnapWidth = 0 then cacheLineSize else fetch1LineSnapWidth);
          width = (if fetch1LineWidth = 0 then cacheLineSize else fetch1LineWidth) in
      if inst_size = 0 then Inl Undefined
      else if ucast snap mod inst_size \<noteq> 0 then Inl Fatal
      else if width \<ge> snap \<and> ucast width mod inst_size \<noteq> 0 then Inl Fatal
      else if fetch1FetchLimit < 1 then Inl Fatal
      else Inr \<lparr>f1_heap = Map.empty, f1_fresh = 0, lineSnap = snap, maxLineWidth = width,
                fetchLimit = fetch1FetchLimit,
                fetchInfo = replicate numThreads \<lparr>ft_state = FetchWaitingForPC, ft_pc = Some newPC,
                  ft_fetchAddr = 0, ft_streamSeqNum = firstSeqNum, ft_predictionSeqNum = firstSeqNum,
                  ft_blocked = False, ft_wakeupGuard = False\<rparr>,
                f1_threadPriority = 0, f1_requests = queue_new fetch1FetchLimit,
                f1_transfers = queue_new fetch1FetchLimit, icacheState = IcacheRunning,
                f1_lineSeqNum = firstSeqNum, numFetchesInMemorySystem = 0, numFetchesInITLB = 0,
                f1_lvpt = table, f1_sent = [], f1_wakeups = 0\<rparr>)"

section \<open>Pointers\<close>

definition f1_at :: "fetch1 \<Rightarrow> nat \<Rightarrow> fetch_req result" where
  "f1_at s p = (case f1_heap s p of None \<Rightarrow> Inl Undefined | Some r \<Rightarrow> Inr r)"

definition f1_put :: "nat \<Rightarrow> fetch_req \<Rightarrow> fetch1 \<Rightarrow> fetch1" where
  "f1_put p r s = s\<lparr>f1_heap := (f1_heap s)(p \<mapsto> r)\<rparr>"

definition f1_wakeup :: "fetch1 \<Rightarrow> fetch1" where
  "f1_wakeup s = s\<lparr>f1_wakeups := Suc (f1_wakeups s)\<rparr>"

section \<open>Requests between the queues\<close>

definition f1_isDiscardable :: "fetch1 \<Rightarrow> fetch_req \<Rightarrow> bool result" where
  "f1_isDiscardable s r =
     rbind (arr_at (fetchInfo s) (threadId (fr_id r))) (\<lambda>thread.
     Inr (fr_state r \<noteq> FrInTranslation \<and> fr_state r \<noteq> FrRequestIssuing \<and>
          (streamSeqNum (fr_id r) \<noteq> ft_streamSeqNum thread \<or>
           predictionSeqNum (fr_id r) \<noteq> ft_predictionSeqNum thread)))"

definition f1_makePacket :: "f1_env \<Rightarrow> nat \<Rightarrow> fetch_req \<Rightarrow> fetch_req result" where
  "f1_makePacket env p r =
     rbind (packet_new (fr_request r) ReadReq) (\<lambda>pkt.
     rbind (pk_allocate (fe_junk env) pkt) (\<lambda>pkt.
     Inr (r\<lparr>fr_packet := Some (pk_pushSenderState p pkt)\<rparr>)))"

definition f1_move :: "nat \<Rightarrow> fetch1 \<Rightarrow> fetch1 result" where
  "f1_move p s =
     rbind (if queue_empty (f1_requests s) then Inl AssertFailed else queue_front (f1_requests s)) (\<lambda>h.
     rbind (rassert (h = p)) (\<lambda>_.
     rbind (queue_pop (f1_requests s)) (\<lambda>q.
     Inr (s\<lparr>f1_requests := q, f1_transfers := fst (queue_push (\<lambda>_. False) (f1_transfers s) p)\<rparr>))))"

definition f1_tryToSend :: "f1_env \<Rightarrow> nat \<Rightarrow> fetch1 \<Rightarrow> (bool \<times> fetch1) result" where
  "f1_tryToSend env p s =
     rbind (f1_at s p) (\<lambda>r.
     rbind (case fr_packet r of None \<Rightarrow> Inl NullDeref | Some k \<Rightarrow> Inr k) (\<lambda>pkt.
     if fe_sendTimingReq env (f1_sent s) pkt then
       Inr (True, (f1_put p (r\<lparr>fr_packet := None, fr_state := FrRequestIssuing\<rparr>) s)
              \<lparr>numFetchesInMemorySystem := numFetchesInMemorySystem s + 1, f1_sent := f1_sent s @ [pkt]\<rparr>)
     else Inr (False, s\<lparr>icacheState := IcacheNeedsRetry\<rparr>)))"

definition f1_tryToSendToTransfers :: "f1_env \<Rightarrow> nat \<Rightarrow> fetch1 \<Rightarrow> fetch1 result" where
  "f1_tryToSendToTransfers env p s =
     rbind (if queue_empty (f1_requests s) then Inr True
            else rbind (queue_front (f1_requests s)) (\<lambda>h. Inr (h = p))) (\<lambda>at_front.
     if \<not> at_front then Inr s
     else rbind (f1_at s p) (\<lambda>r.
     if fr_state r = FrInTranslation then Inr s
     else rbind (f1_isDiscardable s r) (\<lambda>discard.
     if discard \<or> fr_fault r \<noteq> NoFault then
       rbind (f1_move p (f1_put p (r\<lparr>fr_state := FrComplete\<rparr>) s)) (\<lambda>s. Inr (f1_wakeup s))
     else if fr_state r = FrTranslated then
       rbind (if fr_packet r = None then f1_makePacket env p r else Inr r) (\<lambda>r.
       rbind (case fr_packet r of None \<Rightarrow> Inl NullDeref | Some k \<Rightarrow> rassert (pk_is NeedsResponse k)) (\<lambda>_.
       rbind (f1_tryToSend env p (f1_put p r s)) (\<lambda>(sent, s).
       if sent then f1_move p s else Inr s)))
     else Inr s)))"

definition f1_handleTLBResponse :: "f1_env \<Rightarrow> nat \<Rightarrow> fetch1 \<Rightarrow> fetch1 result" where
  "f1_handleTLBResponse env p s =
     (let s = s\<lparr>numFetchesInITLB := numFetchesInITLB s - 1\<rparr> in
      rbind (f1_at s p) (\<lambda>r.
      f1_tryToSendToTransfers env p (f1_put p (r\<lparr>fr_state := FrTranslated\<rparr>) s)))"

text \<open>The answer of the translation, which fills in the request it was given.\<close>

definition f1_finish :: "f1_env \<Rightarrow> nat \<Rightarrow> fault \<Rightarrow> mem_request \<Rightarrow> fetch1 \<Rightarrow> fetch1 result" where
  "f1_finish env p f req s =
     rbind (f1_at s p) (\<lambda>r.
     rbind (f1_handleTLBResponse env p
              (f1_put p (r\<lparr>fr_request := req, fr_fault := f, fr_state := FrTranslated\<rparr>) s)) (\<lambda>s.
     Inr (f1_wakeup s)))"

definition stepQueues :: "f1_env \<Rightarrow> fetch1 \<Rightarrow> fetch1 result" where
  "stepQueues env s =
     (case icacheState s of
        IcacheRunning \<Rightarrow>
          if \<not> queue_empty (f1_requests s) then
            rbind (queue_front (f1_requests s)) (\<lambda>p. f1_tryToSendToTransfers env p s)
          else Inr s
      | IcacheNeedsRetry \<Rightarrow> Inr s)"

definition f1_popAndDiscard :: "fetch1 \<Rightarrow> fetch1 result" where
  "f1_popAndDiscard s =
     (if \<not> queue_empty (f1_transfers s) then
        rbind (queue_front (f1_transfers s)) (\<lambda>p.
        rbind (queue_pop (f1_transfers s)) (\<lambda>q.
        Inr (s\<lparr>f1_heap := (f1_heap s)(p := None), f1_transfers := q\<rparr>)))
      else Inr s)"

definition numInFlightFetches :: "fetch1 \<Rightarrow> u32" where
  "numInFlightFetches s = queue_occupiedSpace (f1_requests s) + queue_occupiedSpace (f1_transfers s)"

section \<open>Fetching a line\<close>

definition fetchLine :: "f1_env \<Rightarrow> int \<Rightarrow> fetch1 \<Rightarrow> fetch1 result" where
  "fetchLine env tid s =
     rbind (arr_at (fetchInfo s) tid) (\<lambda>thread.
     if lineSnap s = 0 then Inl Undefined else
     let aligned_pc = ft_fetchAddr thread AND NOT (ucast (lineSnap s) - 1);
         line_offset = ucast (aligned_pc mod ucast (lineSnap s)) :: u32;
         request_size = maxLineWidth s - line_offset;
         request_id = \<lparr>threadId = tid, streamSeqNum = ft_streamSeqNum thread,
           predictionSeqNum = ft_predictionSeqNum thread, lineSeqNum = f1_lineSeqNum s,
           fetchSeqNum = 0, execSeqNum = 0\<rparr>;
         req = rq_setVirt aligned_pc request_size (flag_bits INST_FETCH) (fe_instRequestorId env) (ft_fetchAddr thread) False
                 (rq_setContext (fe_contextId env tid) request_new);
         r = (fetch_req_new request_id (ft_fetchAddr thread))\<lparr>fr_request := req, fr_state := FrInTranslation\<rparr>;
         p = f1_fresh s;
         s = (f1_put p r s)\<lparr>f1_fresh := Suc p, numFetchesInITLB := numFetchesInITLB s + 1,
               f1_transfers := fst (queue_reserve (f1_transfers s)),
               f1_requests := fst (queue_push (\<lambda>_. False) (f1_requests s) p)\<rparr> in
     rbind (case fe_translate env req of None \<Rightarrow> Inr s | Some (f, req') \<Rightarrow> f1_finish env p f req' s) (\<lambda>s.
     rbind (arr_at (fetchInfo s) tid) (\<lambda>thread.
     rbind (arr_set (fetchInfo s) tid (thread\<lparr>ft_fetchAddr := aligned_pc + ucast request_size\<rparr>)) (\<lambda>info.
     Inr (s\<lparr>f1_lineSeqNum := f1_lineSeqNum s + 1, fetchInfo := info\<rparr>)))))"

definition f1_getScheduledThread :: "f1_env \<Rightarrow> fetch1 \<Rightarrow> (int \<times> fetch1) result" where
  "f1_getScheduledThread env s =
     rbind (pick_thread (\<lambda>tid.
              if fe_active env tid then
                rbind (arr_at (fetchInfo s) tid) (\<lambda>t. Inr (\<not> ft_blocked t \<and> ft_state t = FetchRunning))
              else Inr False)
            (priority_list (fe_shuffle env) (fe_policy env) (int (length (fetchInfo s))) (f1_threadPriority s))) (\<lambda>tid.
     Inr (tid, if tid = InvalidThreadID then s else s\<lparr>f1_threadPriority := tid\<rparr>))"

section \<open>Responses of the cache\<close>

definition f1_recvTimingResp :: "mem_packet \<Rightarrow> fetch1 \<Rightarrow> fetch1 result" where
  "f1_recvTimingResp response s =
     rbind (pk_popSenderState response) (\<lambda>(p, response).
     rbind (f1_at s p) (\<lambda>r.
     rbind (rassert (fr_packet r = None)) (\<lambda>_.
     Inr (f1_wakeup ((f1_put p (r\<lparr>fr_packet := Some response, fr_state := FrComplete\<rparr>) s)
            \<lparr>numFetchesInMemorySystem := numFetchesInMemorySystem s - 1\<rparr>)))))"

definition f1_recvReqRetry :: "f1_env \<Rightarrow> fetch1 \<Rightarrow> fetch1 result" where
  "f1_recvReqRetry env s =
     rbind (rassert (icacheState s = IcacheNeedsRetry)) (\<lambda>_.
     rbind (rassert (\<not> queue_empty (f1_requests s))) (\<lambda>_.
     rbind (queue_front (f1_requests s)) (\<lambda>p.
     rbind (f1_tryToSend env p (s\<lparr>icacheState := IcacheRunning\<rparr>)) (\<lambda>(sent, s).
     if sent then f1_move p s else Inr s))))"

text \<open>The line a response becomes, with the value prediction for its address.\<close>

definition processResponse :: "nat \<Rightarrow> line_data \<Rightarrow> fetch1 \<Rightarrow> (line_data \<times> fetch1) result" where
  "processResponse p line s =
     rbind (f1_at s p) (\<lambda>r.
     rbind (arr_at (fetchInfo s) (threadId (fr_id r))) (\<lambda>thread.
     let line = ld_setFault line (fr_fault r);
         line = line\<lparr>ld_id := fr_id r, ld_pc := pc_set_ptr (ld_pc line) (ft_pc thread), fetchAddr := fr_pc r\<rparr> in
     rbind (rq_getVaddr (fr_request r)) (\<lambda>va.
     let line = line\<lparr>lineBaseAddr := va\<rparr> in
     rbind (if fr_fault r \<noteq> NoFault then
              rbind (arr_set (fetchInfo s) (threadId (fr_id r)) (thread\<lparr>ft_state := FetchWaitingForPC\<rparr>)) (\<lambda>info.
              Inr (line, s\<lparr>fetchInfo := info\<rparr>))
            else
              rbind (case fr_packet r of None \<Rightarrow> Inl NullDeref | Some k \<Rightarrow> Inr k) (\<lambda>pkt.
              rbind (rq_getSize (pk_req pkt)) (\<lambda>sz. rbind (pk_getPtr pkt) (\<lambda>d.
              rbind (ld_adoptPacketData line \<lparr>lp_size = sz, lp_data = d\<rparr>) (\<lambda>line.
              Inr (line, f1_put p (r\<lparr>fr_packet := None\<rparr>) s)))))) (\<lambda>(line, s).
     rbind (lvpt_read (f1_lvpt s) (fetchAddr line)) (\<lambda>pred.
     Inr (line\<lparr>ld_lvptOut := pred\<rparr>, s))))))"

section \<open>Changes of stream\<close>

definition updateExpectedSeqNums :: "branch_data \<Rightarrow> f1_thread \<Rightarrow> f1_thread" where
  "updateExpectedSeqNums branch thread =
     thread\<lparr>ft_streamSeqNum := newStreamSeqNum branch, ft_predictionSeqNum := newPredictionSeqNum branch\<rparr>"

definition changeStream :: "branch_data \<Rightarrow> fetch1 \<Rightarrow> fetch1 result" where
  "changeStream branch s =
     rbind (arr_at (fetchInfo s) (bd_threadId branch)) (\<lambda>thread.
     let thread = updateExpectedSeqNums branch thread;
         thread = (case bd_reason branch of
             SuspendThread \<Rightarrow> if ft_wakeupGuard thread then thread else thread\<lparr>ft_state := FetchWaitingForPC\<rparr>
           | HaltFetch \<Rightarrow> thread\<lparr>ft_state := FetchHalted\<rparr>
           | _ \<Rightarrow> thread\<lparr>ft_state := FetchRunning\<rparr>);
         thread = thread\<lparr>ft_pc := pc_set_ptr (ft_pc thread) (bd_target branch)\<rparr> in
     rbind (case ft_pc thread of None \<Rightarrow> Inl NullDeref | Some pc \<Rightarrow> Inr (instAddr pc)) (\<lambda>addr.
     rbind (arr_set (fetchInfo s) (bd_threadId branch) (thread\<lparr>ft_fetchAddr := addr\<rparr>)) (\<lambda>info.
     Inr (s\<lparr>fetchInfo := info\<rparr>))))"

definition f1_state_of :: "fetch1 \<Rightarrow> int \<Rightarrow> FetchState result" where
  "f1_state_of s tid = rbind (arr_at (fetchInfo s) tid) (\<lambda>t. Inr (ft_state t))"

text \<open>A branch of Execute is taken unless fetching is halted, a prediction of Fetch2 only in its stream.\<close>

definition f1_execute_branch :: "branch_data \<Rightarrow> fetch1 \<Rightarrow> fetch1 result" where
  "f1_execute_branch branch s =
     rbind (f1_state_of s (bd_threadId branch)) (\<lambda>st. if st = FetchHalted then Inr s else changeStream branch s)"

definition f1_predicted_branch :: "branch_data \<Rightarrow> fetch1 \<Rightarrow> fetch1 result" where
  "f1_predicted_branch branch s =
     rbind (arr_at (fetchInfo s) (bd_threadId branch)) (\<lambda>thread.
     if ft_state thread = FetchHalted then Inr s
     else if newStreamSeqNum branch \<noteq> ft_streamSeqNum thread then Inr s
     else changeStream branch s)"

definition f1_branches :: "branch_data \<Rightarrow> branch_data \<Rightarrow> fetch1 \<Rightarrow> fetch1 result" where
  "f1_branches execute_branch fetch2_branch s =
     (if bd_threadId execute_branch \<noteq> InvalidThreadID \<and> bd_threadId execute_branch = bd_threadId fetch2_branch then
        if bd_isStreamChange execute_branch then f1_execute_branch execute_branch s
        else rbind (f1_state_of s (bd_threadId execute_branch)) (\<lambda>st.
          if st \<noteq> FetchHalted \<and> bd_isStreamChange fetch2_branch then f1_predicted_branch fetch2_branch s
          else Inr s)
      else
        rbind (if bd_threadId execute_branch \<noteq> InvalidThreadID \<and> bd_isStreamChange execute_branch
               then f1_execute_branch execute_branch s else Inr s) (\<lambda>s.
        if bd_threadId fetch2_branch \<noteq> InvalidThreadID \<and> bd_isStreamChange fetch2_branch
        then f1_predicted_branch fetch2_branch s else Inr s))"

section \<open>The cycle\<close>

definition f1_set_blocked :: "line_data inputbuf list \<Rightarrow> fetch1 \<Rightarrow> int \<Rightarrow> fetch1 result" where
  "f1_set_blocked nextStageReserve s tid =
     rbind (arr_at nextStageReserve tid) (\<lambda>b. rbind (arr_at (fetchInfo s) tid) (\<lambda>thread.
     rbind (arr_set (fetchInfo s) tid (thread\<lparr>ft_blocked := \<not> inputbuf_canReserve b\<rparr>)) (\<lambda>info.
     Inr (s\<lparr>fetchInfo := info\<rparr>))))"

text \<open>A new line is requested while fewer than the limit are in flight, with a place reserved for it.\<close>

definition f1_fetch :: "f1_env \<Rightarrow> line_data inputbuf list \<Rightarrow> fetch1 \<Rightarrow> (line_data inputbuf list \<times> fetch1) result" where
  "f1_fetch env nextStageReserve s =
     (if numInFlightFetches s < fetchLimit s then
        rbind (f1_getScheduledThread env s) (\<lambda>(fetch_tid, s).
        if fetch_tid \<noteq> InvalidThreadID then
          rbind (fetchLine env fetch_tid s) (\<lambda>s.
          rbind (arr_at nextStageReserve fetch_tid) (\<lambda>b.
          rbind (arr_set nextStageReserve fetch_tid (inputbuf_reserve b)) (\<lambda>nxt. Inr (nxt, s))))
        else Inr (nextStageReserve, s))
      else Inr (nextStageReserve, s))"

text \<open>A complete line at the head of \<^verbatim>\<open>transfers\<close> goes to Fetch2 or, out of date, is dropped.\<close>

definition f1_deliver :: "line_data \<Rightarrow> line_data inputbuf list \<Rightarrow> fetch1 \<Rightarrow>
  (line_data \<times> line_data inputbuf list \<times> fetch1) result" where
  "f1_deliver line_out nextStageReserve s =
     rbind (if queue_empty (f1_transfers s) then Inr None
            else rbind (queue_front (f1_transfers s)) (\<lambda>p. rbind (f1_at s p) (\<lambda>r.
                 Inr (if fr_state r = FrComplete then Some (p, r) else None)))) (\<lambda>response.
     case response of None \<Rightarrow> Inr (line_out, nextStageReserve, s)
     | Some (p, r) \<Rightarrow>
         rbind (f1_isDiscardable s r) (\<lambda>discard.
         rbind (if discard then
                  rbind (arr_at nextStageReserve (threadId (fr_id r))) (\<lambda>b.
                  rbind (arr_set nextStageReserve (threadId (fr_id r)) (inputbuf_freeReservation b)) (\<lambda>nxt.
                  Inr (line_out, nxt, f1_wakeup s)))
                else rbind (processResponse p line_out s) (\<lambda>(line_out, s). Inr (line_out, nextStageReserve, s)))
           (\<lambda>(line_out, nxt, s).
         rbind (f1_popAndDiscard s) (\<lambda>s. Inr (line_out, nxt, s)))))"

definition f1_evaluate :: "f1_env \<Rightarrow> branch_data \<Rightarrow> branch_data \<Rightarrow> line_data \<Rightarrow> line_data inputbuf list \<Rightarrow> activity \<Rightarrow>
  fetch1 \<Rightarrow> (line_data \<times> line_data inputbuf list \<times> activity \<times> fetch1) result" where
  "f1_evaluate env execute_branch fetch2_branch line_out nextStageReserve act s =
     rbind (rassert (ld_isBubble line_out)) (\<lambda>_.
     rbind (rfold (f1_set_blocked nextStageReserve) s [0..int (length (fetchInfo s)) - 1]) (\<lambda>s.
     rbind (f1_branches execute_branch fetch2_branch s) (\<lambda>s.
     rbind (f1_fetch env nextStageReserve s) (\<lambda>(nxt, s).
     rbind (stepQueues env s) (\<lambda>s.
     rbind (f1_deliver line_out nxt s) (\<lambda>(line_out, nxt, s).
     rbind (if \<not> ld_isBubble line_out then act_activity act else Inr act) (\<lambda>act.
     let update = bd_lvptIn execute_branch in
     rbind (lvpt_updateTable (f1_lvpt s) (inValue update) (inAddr update) (inPC update) (inPredict update)
              (inConstant update)) (\<lambda>table.
     Inr (line_out, nxt, act, s\<lparr>f1_lvpt := table,
            fetchInfo := map (\<lambda>t. t\<lparr>ft_wakeupGuard := False\<rparr>) (fetchInfo s)\<rparr>)))))))))"

definition wakeupFetch :: "(int \<Rightarrow> pcstate) \<Rightarrow> int \<Rightarrow> fetch1 \<Rightarrow> fetch1 result" where
  "wakeupFetch pcState tid s =
     rbind (arr_at (fetchInfo s) tid) (\<lambda>thread.
     let pc = pcState tid in
     rbind (arr_set (fetchInfo s) tid (thread\<lparr>ft_pc := pc_set_ref (ft_pc thread) pc, ft_fetchAddr := instAddr pc,
              ft_state := FetchRunning, ft_wakeupGuard := True\<rparr>)) (\<lambda>info.
     Inr (f1_wakeup (s\<lparr>fetchInfo := info\<rparr>))))"

definition f1_isDrained :: "line_data \<Rightarrow> fetch1 \<Rightarrow> bool" where
  "f1_isDrained line_out s \<longleftrightarrow> numInFlightFetches s = 0 \<and> ld_isBubble line_out \<and>
     (\<forall>t \<in> set (fetchInfo s). ft_state t \<noteq> FetchRunning)"

primrec show_fetch_state :: "FetchState \<Rightarrow> string" where
  "show_fetch_state FetchHalted = ''FetchHalted''"
| "show_fetch_state FetchWaitingForPC = ''FetchWaitingForPC''"
| "show_fetch_state FetchRunning = ''FetchRunning''"

primrec show_icache_state :: "IcacheState \<Rightarrow> string" where
  "show_icache_state IcacheRunning = ''IcacheRunning''"
| "show_icache_state IcacheNeedsRetry = ''IcacheNeedsRetry''"

end
