(* ===== verification/Fetch1Inv.thy ===== *)
theory Fetch1Inv
  imports Fetch1
begin

text \<open>
  The first fetch stage as a transition system. \<open>f1_inv\<close> holds in every reachable state: the lines
  in flight are in the order in which they were requested, exactly those in the two queues are live,
  there are never more than \<^verbatim>\<open>fetchLimit\<close> of them, and they are numbered in order. \<open>f1_frame\<close> and
  \<open>f1_moved\<close> say what the operations between the queues leave alone.
\<close>

section \<open>What the operations leave alone\<close>

abbreviation "f1_R s \<equiv> mq_queue (f1_requests s)"
abbreviation "f1_T s \<equiv> mq_queue (f1_transfers s)"

definition f1_ids :: "fetch1 \<Rightarrow> nat \<Rightarrow> inst_id option" where
  "f1_ids s p = map_option fr_id (f1_heap s p)"

definition f1_frame :: "fetch1 \<Rightarrow> fetch1 \<Rightarrow> bool" where
  "f1_frame s s' \<longleftrightarrow> f1_R s' = f1_R s \<and> f1_T s' = f1_T s \<and> f1_ids s' = f1_ids s \<and> f1_fresh s' = f1_fresh s \<and>
     fetchLimit s' = fetchLimit s \<and> f1_lineSeqNum s' = f1_lineSeqNum s \<and>
     length (fetchInfo s') = length (fetchInfo s) \<and> lineSnap s' = lineSnap s \<and> maxLineWidth s' = maxLineWidth s \<and> f1_lvpt s' = f1_lvpt s"

definition f1_moved :: "nat \<Rightarrow> fetch1 \<Rightarrow> fetch1 \<Rightarrow> bool" where
  "f1_moved p s s' \<longleftrightarrow> f1_R s = p # f1_R s' \<and> f1_T s' = f1_T s @ [p] \<and> f1_ids s' = f1_ids s \<and> f1_fresh s' = f1_fresh s \<and>
     fetchLimit s' = fetchLimit s \<and> f1_lineSeqNum s' = f1_lineSeqNum s \<and>
     length (fetchInfo s') = length (fetchInfo s) \<and> lineSnap s' = lineSnap s \<and> maxLineWidth s' = maxLineWidth s \<and> f1_lvpt s' = f1_lvpt s"

definition f1_passed :: "nat \<Rightarrow> fetch1 \<Rightarrow> fetch1 \<Rightarrow> bool" where
  "f1_passed p s s' \<longleftrightarrow> f1_frame s s' \<or> f1_moved p s s'"

lemma f1_frame_refl [simp]: "f1_frame s s"
  by (simp add: f1_frame_def)

lemma f1_frame_trans: "f1_frame s s1 \<Longrightarrow> f1_frame s1 s2 \<Longrightarrow> f1_frame s s2"
  by (simp add: f1_frame_def)

lemma f1_frame_passed: "f1_frame s s1 \<Longrightarrow> f1_passed p s1 s2 \<Longrightarrow> f1_passed p s s2"
  by (auto simp: f1_passed_def f1_frame_def f1_moved_def)

lemma f1_passed_frame: "f1_passed p s s1 \<Longrightarrow> f1_frame s1 s2 \<Longrightarrow> f1_passed p s s2"
  by (auto simp: f1_passed_def f1_frame_def f1_moved_def)

lemma f1_frame_simple [simp]:
  "f1_frame s (f1_wakeup s)" "f1_frame s (s\<lparr>icacheState := i\<rparr>)" "f1_frame s (s\<lparr>numFetchesInITLB := n\<rparr>)"
  "f1_frame s (s\<lparr>f1_threadPriority := tid\<rparr>)"
  "f1_frame s (s\<lparr>numFetchesInMemorySystem := n\<rparr>)"
  "f1_frame s (s\<lparr>numFetchesInMemorySystem := n, f1_sent := k\<rparr>)"
  "length i' = length (fetchInfo s) \<Longrightarrow> f1_frame s (s\<lparr>fetchInfo := i'\<rparr>)"
  by (simp_all add: f1_frame_def f1_wakeup_def f1_ids_def fun_eq_iff)

lemma f1_frame_put: "f1_ids s p = Some (fr_id r) \<Longrightarrow> f1_frame s s1 \<Longrightarrow> f1_frame s (f1_put p r s1)"
  by (auto simp: f1_frame_def f1_put_def f1_ids_def fun_eq_iff)

lemma f1_at_ids: "f1_at s p = Inr r \<Longrightarrow> f1_ids s p = Some (fr_id r)"
  by (auto simp: f1_at_def f1_ids_def split: option.splits)

lemma f1_ids_frame: "f1_frame s s1 \<Longrightarrow> f1_ids s1 p = f1_ids s p"
  by (simp add: f1_frame_def)

lemma f1_push_fields:
  "mq_queue (fst (queue_push (\<lambda>_. False) q p)) = mq_queue q @ [p]"
  by (simp add: queue_push_def Let_def queue_freeReservation_def)

lemma f1_move_moved: "f1_move p s = Inr s' \<Longrightarrow> f1_moved p s s'"
proof -
  assume h: "f1_move p s = Inr s'"
  show ?thesis
  proof (cases "f1_R s")
    case Nil
    then show ?thesis using h by (simp add: f1_move_def queue_empty_def)
  next
    case (Cons x xs)
    then show ?thesis using h
      by (auto simp: f1_move_def queue_empty_def queue_front_def queue_pop_def rbind_Inr_iff f1_moved_def f1_push_fields
          f1_ids_def fun_eq_iff)
  qed
qed

lemma f1_send_frame:
  assumes "f1_tryToSend env p s = Inr (ok, s')"
  shows "f1_frame s s'"
  using assms unfolding f1_tryToSend_def
  by - (elim result_elims; clarsimp; drule f1_at_ids;
    (rule f1_frame_trans [OF f1_frame_put f1_frame_simple(6)])?; simp)

lemma f1_makePacket_id: "f1_makePacket env p r = Inr r' \<Longrightarrow> fr_id r' = fr_id r"
  unfolding f1_makePacket_def by (elim result_elims) auto

lemma f1_passed_complete:
  assumes "f1_at s p = Inr r" "f1_move p (f1_put p (r\<lparr>fr_state := FrComplete\<rparr>) s) = Inr s2"
    "(Inr (f1_wakeup s2) :: fetch1 result) = Inr s3"
  shows "f1_passed p s s3"
proof -
  have "f1_frame s (f1_put p (r\<lparr>fr_state := FrComplete\<rparr>) s)" using f1_at_ids [OF assms(1)] by (simp add: f1_frame_put)
  then have "f1_passed p s s2" using f1_frame_passed f1_move_moved [OF assms(2)] by (auto simp: f1_passed_def)
  then show ?thesis using assms(3) f1_passed_frame f1_frame_simple(1) by auto
qed

lemma f1_passed_sent:
  assumes "f1_at s p = Inr r" "f1_tryToSend env p (f1_put p r2 s) = Inr x" "x = (ok, s2)" "fr_id r2 = fr_id r"
  shows "f1_move p s2 = Inr s3 \<Longrightarrow> f1_passed p s s3" "(Inr s2 :: fetch1 result) = Inr s3 \<Longrightarrow> f1_passed p s s3"
proof -
  have "f1_frame s (f1_put p r2 s)" using f1_at_ids [OF assms(1)] assms(4) by (simp add: f1_frame_put)
  then have f: "f1_frame s s2" using f1_send_frame f1_frame_trans assms(2,3) by blast
  show "f1_move p s2 = Inr s3 \<Longrightarrow> f1_passed p s s3"
    using f1_frame_passed [OF f] f1_move_moved by (auto simp: f1_passed_def)
  show "(Inr s2 :: fetch1 result) = Inr s3 \<Longrightarrow> f1_passed p s s3" using f by (simp add: f1_passed_def)
qed

lemma f1_passed_same: "(Inr s :: fetch1 result) = Inr s' \<Longrightarrow> f1_passed p s s'"
  by (simp add: f1_passed_def)

lemma f1_made_id: "f1_makePacket env p r = Inr r' \<Longrightarrow> fr_id r' = fr_id r" "(Inr r :: fetch_req result) = Inr r' \<Longrightarrow> fr_id r' = fr_id r"
  using f1_makePacket_id by auto

lemma f1_send_passed: "f1_tryToSendToTransfers env p s = Inr s' \<Longrightarrow> f1_passed p s s'"
  unfolding f1_tryToSendToTransfers_def
  by (elim result_elims) (erule f1_passed_same | erule (2) f1_passed_complete
    | erule (2) f1_passed_sent, erule f1_made_id, assumption)+

lemma f1_TLB_passed: "f1_handleTLBResponse env p s = Inr s' \<Longrightarrow> f1_passed p s s'"
proof -
  assume "f1_handleTLBResponse env p s = Inr s'"
  then obtain r where r: "f1_at s p = Inr r"
    and h: "f1_tryToSendToTransfers env p (f1_put p (r\<lparr>fr_state := FrTranslated\<rparr>) (s\<lparr>numFetchesInITLB := numFetchesInITLB s - 1\<rparr>)) = Inr s'"
    by (auto simp: f1_handleTLBResponse_def Let_def rbind_Inr_iff f1_at_def)
  then show ?thesis
    using f1_frame_passed [OF f1_frame_put f1_send_passed [OF h]] f1_at_ids [OF r] by simp
qed

lemma f1_finish_passed: "f1_finish env p f req s = Inr s' \<Longrightarrow> f1_passed p s s'"
proof -
  assume "f1_finish env p f req s = Inr s'"
  then obtain r s2 where r: "f1_at s p = Inr r"
    and h: "f1_handleTLBResponse env p (f1_put p (r\<lparr>fr_request := req, fr_fault := f, fr_state := FrTranslated\<rparr>) s) = Inr s2"
      "s' = f1_wakeup s2"
    by (auto simp: f1_finish_def rbind_Inr_iff)
  then show ?thesis
    using f1_passed_frame [OF f1_frame_passed [OF f1_frame_put f1_TLB_passed [OF h(1)]] f1_frame_simple(1)]
      f1_at_ids [OF r] by simp
qed

section \<open>The invariant\<close>

text \<open>\<open>ks\<close> are the lines that have left and \<open>L\<close> those in flight, as the places at which they were requested.\<close>

definition f1_order :: "nat list \<Rightarrow> nat list \<Rightarrow> nat \<Rightarrow> (nat \<Rightarrow> inst_id option) \<Rightarrow> nat \<Rightarrow> bool" where
  "f1_order ks L fresh ids n \<longleftrightarrow> sorted_wrt (<) (ks @ L) \<and> {p. ids p \<noteq> None} = set L \<and> (\<forall>p \<in> set (ks @ L). p < fresh) \<and>
     (\<forall>p i. ids p = Some i \<longrightarrow> lineSeqNum i = firstSeqNum + of_nat p \<and> 0 \<le> threadId i \<and> threadId i < int n)"

definition f1_numbered :: "u64 \<Rightarrow> nat list \<Rightarrow> fetch1 \<Rightarrow> bool" where
  "f1_numbered k ks s \<longleftrightarrow> f1_order ks (f1_T s @ f1_R s) (f1_fresh s) (f1_ids s) (length (fetchInfo s)) \<and>
     length (f1_T s @ f1_R s) \<le> unat (fetchLimit s) \<and> f1_lineSeqNum s + k = firstSeqNum + of_nat (f1_fresh s)"

abbreviation "f1_inv \<equiv> f1_numbered 0"

lemma numbered_frame: "f1_frame s s' \<Longrightarrow> f1_numbered k ks s \<Longrightarrow> f1_numbered k ks s'"
  by (simp add: f1_frame_def f1_numbered_def)

lemma numbered_moved: "f1_moved p s s' \<Longrightarrow> f1_numbered k ks s \<Longrightarrow> f1_numbered k ks s'"
  by (simp add: f1_moved_def f1_numbered_def)

lemma numbered_passed: "f1_passed p s s' \<Longrightarrow> f1_numbered k ks s \<Longrightarrow> f1_numbered k ks s'"
  using numbered_frame numbered_moved unfolding f1_passed_def by blast

lemma order_request:
  assumes "f1_order ks L f ids n" "0 \<le> threadId i" "threadId i < int n" "lineSeqNum i = firstSeqNum + of_nat f"
  shows "f1_order ks (L @ [f]) (Suc f) (ids(f \<mapsto> i)) n"
  using assms by (auto simp: f1_order_def sorted_wrt_append less_Suc_eq split: if_splits)

lemma order_drop:
  assumes "f1_order ks (p # L) f ids n"
  shows "f1_order ks L f (ids(p := None)) n" "f1_order (ks @ [p]) L f (ids(p := None)) n"
  using assms by (auto simp: f1_order_def sorted_wrt_append split: if_splits)

lemma inv_request:
  assumes i: "f1_inv ks s" and room: "numInFlightFetches s < fetchLimit s" and tid: "0 \<le> tid" "tid < int (length (fetchInfo s))"
    and s': "f1_R s' = f1_R s @ [f1_fresh s]" "f1_T s' = f1_T s" "f1_fresh s' = Suc (f1_fresh s)"
      "f1_ids s' = (f1_ids s)(f1_fresh s \<mapsto> iid)" "fetchInfo s' = fetchInfo s" "fetchLimit s' = fetchLimit s"
      "f1_lineSeqNum s' = f1_lineSeqNum s" "threadId iid = tid" "lineSeqNum iid = f1_lineSeqNum s"
  shows "f1_numbered 1 ks s'"
proof -
  have le: "length (f1_T s @ f1_R s) \<le> unat (fetchLimit s)" using i by (simp add: f1_numbered_def)
  have "unat (fetchLimit s) < 2 ^ 32" using unsigned_less [of "fetchLimit s", where 'a = nat] by simp
  with le have "length (f1_R s) + length (f1_T s) < 2 ^ 32" by simp
  moreover have "numInFlightFetches s = of_nat (length (f1_R s) + length (f1_T s))"
    by (simp add: numInFlightFetches_def queue_occupiedSpace_def)
  ultimately have "unat (numInFlightFetches s) = length (f1_T s @ f1_R s)"
    using unat_of_nat32 [of "length (f1_R s) + length (f1_T s)"] by simp
  then have "length (f1_T s @ f1_R s) < unat (fetchLimit s)" using room by (simp add: word_less_nat_alt)
  then show ?thesis using i tid order_request [of ks "f1_T s @ f1_R s" "f1_fresh s" "f1_ids s" "length (fetchInfo s)" iid]
    by (simp add: f1_numbered_def s')
qed

lemma frame_info: "arr_set (fetchInfo s) tid t = Inr i \<Longrightarrow> f1_frame s (s\<lparr>fetchInfo := i\<rparr>)"
  by (simp add: arr_set_length)

lemma numbered_next: "f1_numbered 1 ks s \<Longrightarrow> arr_set (fetchInfo s) tid t = Inr i \<Longrightarrow>
    f1_inv ks (s\<lparr>f1_lineSeqNum := f1_lineSeqNum s + 1, fetchInfo := i\<rparr>)"
  by (simp add: f1_numbered_def arr_set_length f1_ids_def [abs_def])

lemma inv_submitted:
  "(Inr s0 :: fetch1 result) = Inr s1 \<Longrightarrow> arr_set (fetchInfo s1) tid t = Inr info \<Longrightarrow>
   (Inr (s1\<lparr>f1_lineSeqNum := f1_lineSeqNum s1 + 1, fetchInfo := info\<rparr>) :: fetch1 result) = Inr s' \<Longrightarrow>
   f1_numbered 1 ks s0 \<Longrightarrow> f1_inv ks s'"
  "f1_finish env p f req s0 = Inr s1 \<Longrightarrow> arr_set (fetchInfo s1) tid t = Inr info \<Longrightarrow>
   (Inr (s1\<lparr>f1_lineSeqNum := f1_lineSeqNum s1 + 1, fetchInfo := info\<rparr>) :: fetch1 result) = Inr s' \<Longrightarrow>
   f1_numbered 1 ks s0 \<Longrightarrow> f1_inv ks s'"
  using numbered_next numbered_passed [OF f1_finish_passed] by auto

lemma inv_fetchLine:
  assumes f: "fetchLine env tid s = Inr s'" and i: "f1_inv ks s" and room: "numInFlightFetches s < fetchLimit s"
  shows "f1_inv ks s'"
proof -
  have new: "f1_numbered 1 ks ((f1_put (f1_fresh s) r s)\<lparr>f1_fresh := Suc (f1_fresh s), numFetchesInITLB := n,
               f1_transfers := fst (queue_reserve (f1_transfers s)),
               f1_requests := fst (queue_push (\<lambda>_. False) (f1_requests s) (f1_fresh s))\<rparr>)"
    if "arr_at (fetchInfo s) tid = Inr thread" "threadId (fr_id r) = tid" "lineSeqNum (fr_id r) = f1_lineSeqNum s" for r n thread
    by (rule inv_request [OF i room, of tid _ "fr_id r"])
      (use that arr_at_range [OF that(1)] in \<open>simp_all add: f1_put_def f1_push_fields queue_reserve_def f1_ids_def fun_eq_iff\<close>)
  from f show ?thesis unfolding fetchLine_def Let_def
    by (elim result_elims) (erule (2) inv_submitted, rule new, assumption, simp add: fetch_req_new_def,
      simp add: fetch_req_new_def | simp only: sum.simps)+
qed

lemma frame_set_blocked: "f1_set_blocked nxt s tid = Inr s' \<Longrightarrow> f1_frame s s'"
  unfolding f1_set_blocked_def by (elim result_elims) (auto dest: frame_info)

lemma frame_rfold_f1:
  "rfold g s xs = Inr s' \<Longrightarrow> (\<And>s x s'. g s x = Inr s' \<Longrightarrow> f1_frame s s') \<Longrightarrow> f1_frame s s'"
proof (induction xs arbitrary: s)
  case (Cons x xs)
  then obtain s1 where "g s x = Inr s1" "rfold g s1 xs = Inr s'" by (auto simp: rbind_Inr_iff)
  then show ?case using Cons.IH Cons.prems(2) f1_frame_trans by blast
qed simp

lemma frame_changeStream: "changeStream b s = Inr s' \<Longrightarrow> f1_frame s s'"
  unfolding changeStream_def Let_def by (elim result_elims) (auto dest: frame_info)

lemma frame_branch: "f1_execute_branch b s = Inr s' \<Longrightarrow> f1_frame s s'" "f1_predicted_branch b s = Inr s' \<Longrightarrow> f1_frame s s'"
  unfolding f1_execute_branch_def f1_predicted_branch_def
  by (elim result_elims; auto dest: frame_changeStream)+

lemma frame_branches: "f1_branches b c s = Inr s' \<Longrightarrow> f1_frame s s'"
  unfolding f1_branches_def
  by (elim result_elims) (auto dest: frame_branch intro: f1_frame_trans)

lemma frame_schedule: "f1_getScheduledThread env s = Inr (tid, s') \<Longrightarrow> f1_frame s s' \<and> numInFlightFetches s' = numInFlightFetches s"
  unfolding f1_getScheduledThread_def by (elim result_elims) (auto simp: numInFlightFetches_def)

lemma inv_fetched:
  assumes "f1_inv ks s" "numInFlightFetches s < fetchLimit s" "f1_getScheduledThread env s = Inr x" "x = (tid, s1)"
    "fetchLine env tid s1 = Inr s2" "(Inr (n, s2) :: (line_data inputbuf list \<times> fetch1) result) = Inr (nxt', s')"
  shows "f1_inv ks s'"
proof -
  have f: "f1_frame s s1" "numInFlightFetches s1 = numInFlightFetches s" using frame_schedule assms(3,4) by auto
  then have "numInFlightFetches s1 < fetchLimit s1" using assms(2) by (simp add: f1_frame_def)
  then show ?thesis using inv_fetchLine [OF assms(5) numbered_frame [OF f(1) assms(1)]] assms(6) by simp
qed

lemma inv_not_fetched:
  "f1_inv ks s \<Longrightarrow> f1_getScheduledThread env s = Inr x \<Longrightarrow> x = (tid, s1) \<Longrightarrow>
   (Inr (n, s1) :: (line_data inputbuf list \<times> fetch1) result) = Inr (nxt', s') \<Longrightarrow> f1_inv ks s'"
  using frame_schedule [THEN conjunct1, THEN numbered_frame] by auto

lemma inv_same: "f1_inv ks s \<Longrightarrow> (Inr (n, s) :: (line_data inputbuf list \<times> fetch1) result) = Inr (nxt', s') \<Longrightarrow> f1_inv ks s'"
  by simp

lemma inv_fetch: "f1_fetch env nxt s = Inr (nxt', s') \<Longrightarrow> f1_inv ks s \<Longrightarrow> f1_inv ks s'"
  unfolding f1_fetch_def by (elim result_elims) (erule (5) inv_fetched | erule (3) inv_not_fetched | erule (1) inv_same)+

lemma inv_stepQueues: "stepQueues env s = Inr s' \<Longrightarrow> f1_inv ks s \<Longrightarrow> f1_inv ks s'"
  unfolding stepQueues_def
  by (cases "icacheState s") (auto simp: rbind_Inr_iff dest: f1_send_passed numbered_passed split: if_splits)

lemma inv_reqRetry: "f1_recvReqRetry env s = Inr s' \<Longrightarrow> f1_inv ks s \<Longrightarrow> f1_inv ks s'"
proof -
  assume h: "f1_recvReqRetry env s = Inr s'" and i: "f1_inv ks s"
  then obtain p ok s2 where s2: "f1_tryToSend env p (s\<lparr>icacheState := IcacheRunning\<rparr>) = Inr (ok, s2)"
    "(if ok then f1_move p s2 else Inr s2) = Inr s'"
    by (auto simp: f1_recvReqRetry_def rbind_Inr_iff)
  have "f1_inv ks s2" using numbered_frame [OF f1_frame_trans [OF f1_frame_simple(2) f1_send_frame [OF s2(1)]] i] .
  then show ?thesis using s2(2) numbered_moved [OF f1_move_moved] by (auto split: if_splits)
qed

lemma inv_response: "f1_recvTimingResp k s = Inr s' \<Longrightarrow> f1_inv ks s \<Longrightarrow> f1_inv ks s'"
proof -
  assume h: "f1_recvTimingResp k s = Inr s'" and i: "f1_inv ks s"
  then obtain p r k' where "f1_at s p = Inr r" "s' = f1_wakeup ((f1_put p (r\<lparr>fr_packet := Some k', fr_state := FrComplete\<rparr>) s)
            \<lparr>numFetchesInMemorySystem := numFetchesInMemorySystem s - 1\<rparr>)"
    by (auto simp: f1_recvTimingResp_def rbind_Inr_iff)
  then show ?thesis using f1_at_ids
    by (auto intro!: numbered_frame [OF _ i] f1_frame_trans [OF f1_frame_trans [OF f1_frame_put f1_frame_simple(5)] f1_frame_simple(1)])
qed

lemma inv_wakeupFetch: "wakeupFetch pcs tid s = Inr s' \<Longrightarrow> f1_inv ks s \<Longrightarrow> f1_inv ks s'"
  unfolding wakeupFetch_def Let_def
  by (elim result_elims) (auto dest!: frame_info intro: numbered_frame f1_frame_trans [OF _ f1_frame_simple(1)])

section \<open>Delivery\<close>

definition f1_streams :: "fetch1 \<Rightarrow> (u64 \<times> u64) list" where
  "f1_streams s = map (\<lambda>t. (ft_streamSeqNum t, ft_predictionSeqNum t)) (fetchInfo s)"

text \<open>The head of \<^verbatim>\<open>transfers\<close> leaves the stage.\<close>

definition f1_dropped :: "nat \<Rightarrow> fetch1 \<Rightarrow> fetch1 \<Rightarrow> bool" where
  "f1_dropped p s s' \<longleftrightarrow> f1_T s = p # f1_T s' \<and> f1_R s' = f1_R s \<and> f1_ids s' = (f1_ids s)(p := None) \<and>
     f1_fresh s' = f1_fresh s \<and> fetchLimit s' = fetchLimit s \<and> f1_lineSeqNum s' = f1_lineSeqNum s \<and>
     f1_streams s' = f1_streams s \<and> f1_lvpt s' = f1_lvpt s"

lemma streams_length: "f1_streams s' = f1_streams s \<Longrightarrow> length (fetchInfo s') = length (fetchInfo s)"
  unfolding f1_streams_def by (drule arg_cong [where f = length]) simp

lemma numbered_dropped:
  assumes d: "f1_dropped p s s'" and n: "f1_numbered k ks s"
  shows "f1_numbered k ks s'" "f1_numbered k (ks @ [p]) s'"
proof -
  have "f1_order ks (p # f1_T s' @ f1_R s') (f1_fresh s') (f1_ids s) (length (fetchInfo s'))"
    using d n streams_length [of s' s] by (simp add: f1_dropped_def f1_numbered_def)
  with d n show "f1_numbered k ks s'" "f1_numbered k (ks @ [p]) s'"
    using order_drop by (simp_all add: f1_dropped_def f1_numbered_def)
qed

lemma pop_dropped:
  assumes "f1_popAndDiscard s1 = Inr s'" "f1_T s1 = p # ts" "f1_frame s s1" "f1_streams s1 = f1_streams s"
  shows "f1_dropped p s s'"
  using assms unfolding f1_popAndDiscard_def
  by (auto simp: queue_empty_def queue_front_def queue_pop_def f1_dropped_def f1_frame_def f1_ids_def f1_streams_def fun_eq_iff)

lemma streams_update:
  "arr_at (fetchInfo s) tid = Inr t \<Longrightarrow> arr_set (fetchInfo s) tid t' = Inr i \<Longrightarrow>
   ft_streamSeqNum t' = ft_streamSeqNum t \<Longrightarrow> ft_predictionSeqNum t' = ft_predictionSeqNum t \<Longrightarrow>
   f1_streams (s\<lparr>fetchInfo := i\<rparr>) = f1_streams s"
  by (auto simp: f1_streams_def arr_at_def arr_set_def vec_at_def vec_set_def map_update list_update_same_conv split: if_splits)

lemma adopt_line:
  "ld_adoptPacketData l k = Inr l' \<Longrightarrow> ld_id l' = ld_id l \<and> fetchAddr l' = fetchAddr l \<and> \<not> ld_isBubble l'"
  by (auto simp: ld_adoptPacketData_def Let_def rbind_Inr_iff ld_isBubble_def)

lemma process_effect:
  assumes "processResponse p line s = Inr (line', s')" "f1_heap s p = Some r"
  shows "f1_frame s s' \<and> f1_streams s' = f1_streams s \<and> ld_id line' = fr_id r \<and> fetchAddr line' = fr_pc r \<and>
    \<not> ld_isBubble line' \<and> lvpt_read (f1_lvpt s) (fr_pc r) = Inr (ld_lvptOut line')"
proof -
  have ids: "f1_ids s p = Some (fr_id (r\<lparr>fr_packet := None\<rparr>))" using assms(2) by (simp add: f1_ids_def)
  have put: "f1_frame s (f1_put p (r\<lparr>fr_packet := None\<rparr>) s)" "f1_streams (f1_put p (r\<lparr>fr_packet := None\<rparr>) s) = f1_streams s"
    "f1_lvpt (f1_put p (r\<lparr>fr_packet := None\<rparr>) s) = f1_lvpt s"
    using f1_frame_put [OF ids] by (simp_all add: f1_put_def f1_streams_def)
  show ?thesis using assms unfolding processResponse_def Let_def
    by - (elim result_elims; clarsimp simp: f1_at_def put frame_info streams_update ld_setFault_def ld_isFault_def ld_isBubble_def Let_def;
      drule adopt_line; simp add: ld_isBubble_def)
qed

lemma deliver_cases:
  assumes "f1_deliver line nxt s = Inr (line', nxt', s')"
  obtains (idle) "line' = line" "nxt' = nxt" "s' = s"
  | (discard) p r b where "f1_heap s p = Some r" "f1_dropped p s s'" "line' = line" "f1_isDiscardable s r = Inr True"
      "arr_at nxt (threadId (fr_id r)) = Inr b" "arr_set nxt (threadId (fr_id r)) (inputbuf_freeReservation b) = Inr nxt'"
  | (line) p r where "f1_heap s p = Some r" "f1_dropped p s s'" "nxt' = nxt" "f1_isDiscardable s r = Inr False"
      "fr_state r = FrComplete" "ld_id line' = fr_id r" "fetchAddr line' = fr_pc r" "\<not> ld_isBubble line'"
      "lvpt_read (f1_lvpt s) (fr_pc r) = Inr (ld_lvptOut line')"
proof (cases "f1_T s")
  case Nil
  then show ?thesis using assms idle by (simp add: f1_deliver_def queue_empty_def)
next
  case (Cons p ts)
  then have q: "\<not> queue_empty (f1_transfers s)" "queue_front (f1_transfers s) = Inr p"
    by (simp_all add: queue_empty_def queue_front_def)
  from assms q obtain r where r: "f1_heap s p = Some r"
    by (auto simp: f1_deliver_def rbind_Inr_iff f1_at_def split: option.splits)
  show ?thesis
  proof (cases "fr_state r = FrComplete")
    case False
    then show ?thesis using assms q r idle by (simp add: f1_deliver_def f1_at_def)
  next
    case True
    from assms q r True obtain d where d: "f1_isDiscardable s r = Inr d"
      by (auto simp: f1_deliver_def f1_at_def rbind_Inr_iff)
    show ?thesis
    proof (cases d)
      case True
      from assms q r True \<open>fr_state r = FrComplete\<close> d obtain b s2 where
        b: "arr_at nxt (threadId (fr_id r)) = Inr b" "arr_set nxt (threadId (fr_id r)) (inputbuf_freeReservation b) = Inr nxt'"
        "line' = line" "f1_popAndDiscard (f1_wakeup s) = Inr s'"
        by (auto simp: f1_deliver_def f1_at_def rbind_Inr_iff)
      have "f1_dropped p s s'"
        by (rule pop_dropped [OF b(4)]) (use Cons in \<open>simp_all add: f1_wakeup_def f1_streams_def f1_frame_def f1_ids_def fun_eq_iff\<close>)
      then show ?thesis using discard [OF r _ b(3) _ b(1,2)] d True by simp
    next
      case False
      from assms q r False \<open>fr_state r = FrComplete\<close> d obtain s2 where
        b: "processResponse p line s = Inr (line', s2)" "f1_popAndDiscard s2 = Inr s'" "nxt' = nxt"
        by (auto simp: f1_deliver_def f1_at_def rbind_Inr_iff)
      note e = process_effect [OF b(1) r]
      have "f1_dropped p s s'"
        by (rule pop_dropped [OF b(2)]) (use e Cons in \<open>simp_all add: f1_frame_def\<close>)
      then show ?thesis using that(3) r d False b(3) e \<open>fr_state r = FrComplete\<close> by simp
    qed
  qed
qed

lemma inv_deliver:
  assumes d: "f1_deliver line nxt s = Inr (line', nxt', s')" and i: "f1_inv ks s"
  shows "line' = line \<and> f1_inv ks s' \<or>
    (\<exists>p. \<not> ld_isBubble line' \<and> lineSeqNum (ld_id line') = firstSeqNum + of_nat p \<and> f1_inv (ks @ [p]) s')"
  using d
proof (cases rule: deliver_cases)
  case (line p r)
  then have "lineSeqNum (fr_id r) = firstSeqNum + of_nat p"
    using i by (simp add: f1_numbered_def f1_order_def f1_ids_def)
  then show ?thesis using line numbered_dropped(2) [OF line(2) i] by auto
qed (use i numbered_dropped(1) [OF _ i] in blast)+

section \<open>Lines leave in order\<close>

lemma evaluate_parts:
  assumes "f1_evaluate env eb fb line nxt act s = Inr (line', nxt', act', s')"
  obtains s1 s2 nxt1 s3 s4 s5 table where "ld_isBubble line" "f1_frame s s1" "f1_branches eb fb s1 = Inr s2" "f1_fetch env nxt s2 = Inr (nxt1, s3)"
    "stepQueues env s3 = Inr s4" "f1_deliver line nxt1 s4 = Inr (line', nxt', s5)"
    "lvpt_updateTable (f1_lvpt s5) (inValue (bd_lvptIn eb)) (inAddr (bd_lvptIn eb)) (inPC (bd_lvptIn eb))
       (inPredict (bd_lvptIn eb)) (inConstant (bd_lvptIn eb)) = Inr table"
    "s' = s5\<lparr>f1_lvpt := table, fetchInfo := map (\<lambda>t. t\<lparr>ft_wakeupGuard := False\<rparr>) (fetchInfo s5)\<rparr>"
  using assms unfolding f1_evaluate_def Let_def
  by (elim rbind_InrE case_prod_InrE, simp only: sum.inject prod.inject)
    (elim conjE, rule that, simp, erule frame_rfold_f1, erule frame_set_blocked, simp_all, erule sym)

lemma evaluate_end: "f1_inv ks s5 \<Longrightarrow> f1_inv ks (s5\<lparr>f1_lvpt := table, fetchInfo := map g (fetchInfo s5)\<rparr>)"
  by (simp add: f1_numbered_def f1_ids_def [abs_def])

inductive f1_trans :: "fetch1 \<Rightarrow> line_data option \<Rightarrow> fetch1 \<Rightarrow> bool" where
  f1_cycle: "f1_evaluate env eb fb line nxt act s = Inr (line', nxt', act', s') \<Longrightarrow>
     f1_trans s (if ld_isBubble line' then None else Some line') s'"
| f1_translated: "f1_finish env p f req s = Inr s' \<Longrightarrow> f1_trans s None s'"
| f1_response: "f1_recvTimingResp k s = Inr s' \<Longrightarrow> f1_trans s None s'"
| f1_retry: "f1_recvReqRetry env s = Inr s' \<Longrightarrow> f1_trans s None s'"
| f1_wake: "wakeupFetch pcs tid s = Inr s' \<Longrightarrow> f1_trans s None s'"

inductive f1_run :: "fetch1 \<Rightarrow> line_data list \<Rightarrow> fetch1 \<Rightarrow> bool" where
  f1_start: "f1_run s [] s"
| f1_more: "f1_run s ls s1 \<Longrightarrow> f1_trans s1 l s2 \<Longrightarrow> f1_run s (ls @ (case l of None \<Rightarrow> [] | Some x \<Rightarrow> [x])) s2"

lemma inv_evaluate:
  assumes e: "f1_evaluate env eb fb line nxt act s = Inr (line', nxt', act', s')" and i: "f1_inv ks s"
  shows "ld_isBubble line' \<and> f1_inv ks s' \<or>
    (\<exists>p. \<not> ld_isBubble line' \<and> lineSeqNum (ld_id line') = firstSeqNum + of_nat p \<and> f1_inv (ks @ [p]) s')"
  using e
proof (rule evaluate_parts)
  fix s1 s2 nxt1 s3 s4 s5 table
  assume b: "ld_isBubble line" and s: "f1_frame s s1" "f1_branches eb fb s1 = Inr s2" "f1_fetch env nxt s2 = Inr (nxt1, s3)"
    "stepQueues env s3 = Inr s4" "f1_deliver line nxt1 s4 = Inr (line', nxt', s5)"
    and s': "s' = s5\<lparr>f1_lvpt := table, fetchInfo := map (\<lambda>t. t\<lparr>ft_wakeupGuard := False\<rparr>) (fetchInfo s5)\<rparr>"
  have "f1_inv ks s4"
    using inv_stepQueues [OF s(4) inv_fetch [OF s(3) numbered_frame [OF frame_branches [OF s(2)] numbered_frame [OF s(1) i]]]] .
  moreover have "f1_inv js s5 \<Longrightarrow> f1_inv js s'" for js unfolding s' by (rule evaluate_end)
  ultimately show ?thesis using inv_deliver [OF s(5)] b by blast
qed

lemma inv_trans:
  "f1_trans s l s' \<Longrightarrow> f1_inv ks s \<Longrightarrow> \<exists>ks'. f1_inv (ks @ ks') s' \<and>
     map (\<lambda>x. lineSeqNum (ld_id x)) (case l of None \<Rightarrow> [] | Some x \<Rightarrow> [x]) = map (\<lambda>k. firstSeqNum + of_nat k) ks'"
proof (induction rule: f1_trans.induct)
  case (f1_cycle env eb fb line nxt act s line' nxt' act' s')
  from inv_evaluate [OF f1_cycle] show ?case
    by (elim disjE exE conjE) (rule exI [of _ "[]"], simp, rule_tac x = "[p]" in exI, simp)
qed (rule exI [of _ "[]"], auto intro: inv_response inv_reqRetry inv_wakeupFetch numbered_passed [OF f1_finish_passed])+

lemma fetch1_new_inv: "fetch1_new n cl snap w lim isz pc t = Inr s \<Longrightarrow> f1_inv [] s"
  by (auto simp: fetch1_new_def Let_def f1_numbered_def f1_order_def f1_ids_def queue_new_def split: if_splits)


text \<open>
  C13: Only current lines reach Fetch2. A line the stage puts out in a cycle carries the stream and
  prediction sequence numbers that its thread has after the branches of that cycle.
\<close>

theorem fetch1_lines_current:
  assumes e: "f1_evaluate env eb fb line nxt act s = Inr (line', nxt', act', s')" and out: "\<not> ld_isBubble line'"
  shows "\<exists>t. arr_at (fetchInfo s') (threadId (ld_id line')) = Inr t \<and> streamSeqNum (ld_id line') = ft_streamSeqNum t \<and>
    predictionSeqNum (ld_id line') = ft_predictionSeqNum t"
  using e
proof (rule evaluate_parts)
  fix s1 s2 nxt1 s3 s4 s5 table
  assume b: "ld_isBubble line" and d: "f1_deliver line nxt1 s4 = Inr (line', nxt', s5)"
    and s': "s' = s5\<lparr>f1_lvpt := table, fetchInfo := map (\<lambda>t. t\<lparr>ft_wakeupGuard := False\<rparr>) (fetchInfo s5)\<rparr>"
  from d show ?thesis
  proof (cases rule: deliver_cases)
    case (line p r)
    from line(4) obtain t where t: "arr_at (fetchInfo s4) (threadId (fr_id r)) = Inr t" by (auto simp: f1_isDiscardable_def rbind_Inr_iff)
    have i: "0 \<le> threadId (fr_id r)" "nat (threadId (fr_id r)) < length (fetchInfo s4)" "t = fetchInfo s4 ! nat (threadId (fr_id r))"
      using t by (auto simp: arr_at_def vec_at_def split: if_splits)
    have st: "f1_streams s5 = f1_streams s4" using line(2) by (simp add: f1_dropped_def)
    then have l: "length (fetchInfo s5) = length (fetchInfo s4)" by (rule streams_length)
    have "f1_streams s5 ! nat (threadId (fr_id r)) = (ft_streamSeqNum t, ft_predictionSeqNum t)"
      unfolding st using i by (simp add: f1_streams_def)
    then have "ft_streamSeqNum (fetchInfo s5 ! nat (threadId (fr_id r))) = ft_streamSeqNum t \<and>
      ft_predictionSeqNum (fetchInfo s5 ! nat (threadId (fr_id r))) = ft_predictionSeqNum t"
      using i(2) l by (simp add: f1_streams_def)
    moreover have "streamSeqNum (fr_id r) = ft_streamSeqNum t \<and> predictionSeqNum (fr_id r) = ft_predictionSeqNum t"
      using line(4,5) t by (simp add: f1_isDiscardable_def)
    ultimately show ?thesis using i l line(6) by (simp add: s' arr_at_def)
  qed (use b out in simp_all)
qed

section \<open>Progress through memory\<close>

definition f1_base :: "fetch1 \<Rightarrow> int \<Rightarrow> u64 result" where
  "f1_base s tid = rbind (arr_at (fetchInfo s) tid) (\<lambda>t. Inr (ft_fetchAddr t AND NOT (ucast (lineSnap s) - 1)))"

lemma align_nat: "unat (a AND NOT (mask k) :: u64) = unat a div 2 ^ k * 2 ^ k"
proof -
  have "a AND NOT (mask k) = push_bit k (drop_bit k a)"
    by (rule bit_word_eqI) (auto simp: bit_simps)
  moreover have "push_bit k (drop_bit k a) + take_bit k a = a" by (rule bits_ident)
  moreover have "unat (take_bit k a) = unat a mod 2 ^ k" 
    by (simp only: unsigned_take_bit_eq take_bit_eq_mod [of k "unat a"])
  ultimately have "a AND NOT (mask k) = a - take_bit k a" "take_bit k a \<le> a"
    by (auto simp: word_le_nat_alt algebra_simps)
  then show ?thesis using \<open>unat (take_bit k a) = unat a mod 2 ^ k\<close>
    by (simp add: unat_sub minus_mod_eq_div_mult)
qed

lemma finish_widths: "f1_finish env p f req s = Inr s' \<Longrightarrow>
    lineSnap s' = lineSnap s \<and> maxLineWidth s' = maxLineWidth s \<and> f1_lvpt s' = f1_lvpt s"
  using f1_finish_passed [of env p f req s s'] unfolding f1_passed_def f1_frame_def f1_moved_def by blast

definition f1_stepped :: "int \<Rightarrow> u64 \<Rightarrow> fetch1 \<Rightarrow> fetch1 \<Rightarrow> bool" where
  "f1_stepped tid addr s s' \<longleftrightarrow> lineSnap s' = lineSnap s \<and> maxLineWidth s' = maxLineWidth s \<and> f1_lvpt s' = f1_lvpt s \<and>
     (\<exists>t'. arr_at (fetchInfo s') tid = Inr t' \<and> ft_fetchAddr t' = addr)"

lemma stepped:
  assumes "arr_set (fetchInfo s1) tid (t1\<lparr>ft_fetchAddr := x\<rparr>) = Inr info"
    "(Inr (s1\<lparr>f1_lineSeqNum := n, fetchInfo := info\<rparr>) :: fetch1 result) = Inr s'"
    "(Inr s0 :: fetch1 result) = Inr s1 \<or> f1_finish env p f req s0 = Inr s1"
    "lineSnap s0 = lineSnap s" "maxLineWidth s0 = maxLineWidth s" "f1_lvpt s0 = f1_lvpt s"
  shows "f1_stepped tid x s s'"
  using assms arr_at_set [OF assms(1)] finish_widths [of env p f req s0 s1] by (auto simp: f1_stepped_def)

lemma fetchLine_stepped:
  assumes "fetchLine env tid s = Inr s'"
  shows "\<exists>t. arr_at (fetchInfo s) tid = Inr t \<and>
    (let aligned_pc = ft_fetchAddr t AND NOT (ucast (lineSnap s) - 1) in
     f1_stepped tid (aligned_pc + ucast (maxLineWidth s - ucast (aligned_pc mod ucast (lineSnap s)))) s s')"
  using assms unfolding fetchLine_def Let_def
  by - (elim result_elims; (simp only: sum.simps; fail)?;
    ((rule exI, rule conjI, assumption, rule stepped, assumption, assumption, (erule disjI1 | erule disjI2)); simp (no_asm) add: f1_put_def))

lemma fetchLine_base:
  assumes f: "fetchLine env tid s = Inr s'" and k: "lineSnap s = 2 ^ k" "k < 32" and a: "f1_base s tid = Inr a"
  shows "f1_base s' tid = Inr ((a + ucast (maxLineWidth s)) AND NOT (mask k))"
proof -
  have u: "unat (lineSnap s) = 2 ^ k" unfolding k(1) by (rule unat_pow2) (use k(2) in simp)
  have "ucast (lineSnap s) = (of_nat (unat (lineSnap s)) :: u64)" by (simp only: of_nat_unat)
  then have m: "ucast (lineSnap s) - 1 = (mask k :: u64)" "ucast (lineSnap s) = (2 ^ k :: u64)"
    using u by (simp_all add: mask_eq_exp_minus_1)
  have "unat ((x AND NOT (mask k)) mod 2 ^ k :: u64) = 0" for x
    using k(2) by (simp add: unat_mod align_nat unat_pow2)
  then have z: "(x AND NOT (mask k)) mod 2 ^ k = (0 :: u64)" for x by (simp only: unat_eq_zero)
  from fetchLine_stepped [OF f] obtain t where t: "arr_at (fetchInfo s) tid = Inr t"
    and st: "f1_stepped tid ((ft_fetchAddr t AND NOT (mask k)) + ucast (maxLineWidth s)) s s'"
    unfolding Let_def m(1) unfolding m(2) z by auto
  have "a = ft_fetchAddr t AND NOT (mask k)" using a t unfolding f1_base_def m(1) by simp
  with st show ?thesis unfolding f1_base_def f1_stepped_def by (auto simp: m(1))
qed

lemma base_multiple:
  assumes k: "lineSnap s = 2 ^ k" "k < 32" and a: "f1_base s tid = Inr a"
  shows "\<exists>q. unat a = q * 2 ^ k"
proof -
  have "unat (lineSnap s) = 2 ^ k" unfolding k(1) by (rule unat_pow2) (use k(2) in simp)
  moreover have "ucast (lineSnap s) = (of_nat (unat (lineSnap s)) :: u64)" by (simp only: of_nat_unat)
  ultimately have m: "ucast (lineSnap s) - 1 = (mask k :: u64)" by (simp add: mask_eq_exp_minus_1)
  have "\<exists>x. a = x AND NOT (mask k)"
    using a unfolding f1_base_def m by - (elim rbind_InrE, simp only: sum.inject, blast)
  then show ?thesis using align_nat by auto
qed

text \<open>
  C14: The fetch address moves through memory line by line. With a power of two as the line snap and
  lines at least as wide, requesting a line moves the thread to a later line, by at most a line's
  width. With lines narrower than the snap, which the constructor accepts although it means to
  refuse them, the thread asks for the same line again, for ever.
\<close>

theorem fetch_line_progress:
  assumes k: "lineSnap s = 2 ^ k" "k < 32" and f: "fetchLine env tid s = Inr s'" and a: "f1_base s tid = Inr a"
    and room: "unat a + unat (maxLineWidth s) < 2 ^ 64"
  shows "\<exists>b. f1_base s' tid = Inr b \<and>
    (lineSnap s \<le> maxLineWidth s \<longrightarrow> a < b \<and> unat b \<le> unat a + unat (maxLineWidth s)) \<and>
    (maxLineWidth s < lineSnap s \<longrightarrow> b = a)"
proof -
  define b where "b = (a + ucast (maxLineWidth s)) AND NOT (mask k)"
  have u: "unat (lineSnap s) = 2 ^ k" unfolding k(1) by (rule unat_pow2) (use k(2) in simp)
  have "unat (a + ucast (maxLineWidth s)) = unat a + unat (maxLineWidth s)"
    using room by (simp add: unat_word_ariths unat_ucast_32_64)
  then have b: "unat b = (unat a + unat (maxLineWidth s)) div 2 ^ k * 2 ^ k" by (simp add: b_def align_nat)
  obtain q where q: "unat a = q * 2 ^ k" using base_multiple [OF k a] by blast
  have "lineSnap s \<le> maxLineWidth s \<longrightarrow> unat a < unat b \<and> unat b \<le> unat a + unat (maxLineWidth s)"
  proof
    assume "lineSnap s \<le> maxLineWidth s"
    then have "2 ^ k \<le> unat (maxLineWidth s)" using u by (simp add: word_le_nat_alt)
    then have "0 < unat (maxLineWidth s) div 2 ^ k" by (simp add: div_greater_zero_iff)
    then show "unat a < unat b \<and> unat b \<le> unat a + unat (maxLineWidth s)"
      using b q by (simp add: algebra_simps)
  qed
  moreover have "maxLineWidth s < lineSnap s \<longrightarrow> unat b = unat a"
    using b q u by (simp add: word_less_nat_alt)
  ultimately show ?thesis using fetchLine_base [OF f k a]
    by (intro exI [of _ b]) (simp add: b_def [symmetric] word_less_nat_alt word_unat_eq_iff)
qed

section \<open>Training the load value prediction table\<close>

lemma fetch_lvpt: "f1_fetch env nxt s = Inr (nxt', s') \<Longrightarrow> f1_lvpt s' = f1_lvpt s"
proof -
  have sched: "f1_getScheduledThread env s = Inr (tid, s1) \<Longrightarrow> f1_lvpt s1 = f1_lvpt s" for tid s1
    using frame_schedule by (auto simp: f1_frame_def)
  have line: "fetchLine env tid s1 = Inr s2 \<Longrightarrow> f1_lvpt s2 = f1_lvpt s1" for tid s1 s2
    by (drule fetchLine_stepped) (auto simp: f1_stepped_def Let_def)
  show "f1_fetch env nxt s = Inr (nxt', s') \<Longrightarrow> f1_lvpt s' = f1_lvpt s"
    unfolding f1_fetch_def by (elim result_elims) (auto dest: sched simp: line)
qed

lemma evaluate_lvpt:
  assumes e: "f1_evaluate env eb fb line nxt act s = Inr (line', nxt', act', s')"
  shows "lvpt_updateTable (f1_lvpt s) (inValue (bd_lvptIn eb)) (inAddr (bd_lvptIn eb)) (inPC (bd_lvptIn eb))
       (inPredict (bd_lvptIn eb)) (inConstant (bd_lvptIn eb)) = Inr (f1_lvpt s')"
  using e
proof (rule evaluate_parts)
  fix s1 s2 nxt1 s3 s4 s5 table
  assume s: "f1_frame s s1" "f1_branches eb fb s1 = Inr s2" "f1_fetch env nxt s2 = Inr (nxt1, s3)"
    "stepQueues env s3 = Inr s4" and d: "f1_deliver line nxt1 s4 = Inr (line', nxt', s5)"
    and u: "lvpt_updateTable (f1_lvpt s5) (inValue (bd_lvptIn eb)) (inAddr (bd_lvptIn eb)) (inPC (bd_lvptIn eb))
       (inPredict (bd_lvptIn eb)) (inConstant (bd_lvptIn eb)) = Inr table"
    and s': "s' = s5\<lparr>f1_lvpt := table, fetchInfo := map (\<lambda>t. t\<lparr>ft_wakeupGuard := False\<rparr>) (fetchInfo s5)\<rparr>"
  have "f1_lvpt s5 = f1_lvpt s4" using d by (cases rule: deliver_cases) (simp_all add: f1_dropped_def)
  also have "\<dots> = f1_lvpt s3"
    using s(4) unfolding stepQueues_def
    by (cases "icacheState s3") (auto simp: rbind_Inr_iff f1_passed_def f1_frame_def f1_moved_def dest: f1_send_passed split: if_splits)
  also have "\<dots> = f1_lvpt s"
    using s(1) frame_branches [OF s(2)] fetch_lvpt [OF s(3)] by (simp add: f1_frame_def)
  finally show ?thesis using u s' by simp
qed

text \<open>
  C15: The load value prediction table is trained in every cycle from the branch input's fields,
  whatever the branch: a cycle whose fields say that a prediction was wrong makes the table predict
  their value and address for their program counter. Nothing guards the update against a bubble,
  whose fields the constructor of \<^verbatim>\<open>BranchData\<close> leaves uninitialised.
\<close>

theorem fetch1_trains_every_cycle:
  assumes "f1_evaluate env eb fb line nxt act s = Inr (line', nxt', act', s')" "lvpt_wf (f1_lvpt s)"
    "inConstant (bd_lvptIn eb)" "\<not> inPredict (bd_lvptIn eb)"
  shows "\<exists>out. lvpt_read (f1_lvpt s') (inPC (bd_lvptIn eb)) = Inr out \<and> outPredict out \<and>
    outValue out = inValue (bd_lvptIn eb) \<and> outAddr out = inAddr (bd_lvptIn eb)"
proof -
  have "f1_lvpt s' = lvpt_trained (f1_lvpt s) (inValue (bd_lvptIn eb)) (inAddr (bd_lvptIn eb)) (inPC (bd_lvptIn eb))"
    using evaluate_lvpt [OF assms(1)] lvpt_update_mispredict [OF assms(2)] assms(3,4) by simp
  moreover have "lvpt_index (f1_lvpt s) (inPC (bd_lvptIn eb)) < length (valueTable (f1_lvpt s))"
    using assms(2) by (rule lvpt_index_bound)
  ultimately show ?thesis using assms(2) by (simp add: lvpt_read_eq) (simp add: lvpt_trained_def)
qed

section \<open>A run\<close>

definition ex_f1_env :: f1_env where
  "ex_f1_env = \<lparr>fe_active = (\<lambda>_. True), fe_policy = RoundRobin, fe_shuffle = (\<lambda>x. x), fe_contextId = (\<lambda>_. 0),
     fe_instRequestorId = 1, fe_translate = (\<lambda>r. Some (NoFault, rq_setPaddr (case rq_vaddr r of Some a \<Rightarrow> a | None \<Rightarrow> 0) r)),
     fe_sendTimingReq = (\<lambda>_ _. True), fe_junk = (\<lambda>_. 0)\<rparr>"

definition ex_f1_in :: "bool \<Rightarrow> branch_data" where
  "ex_f1_in b = bd_new \<lparr>inPredict = False, inConstant = b, inValue = 5, inPC = 2, inIndex = 0, inAddr = 3\<rparr>"

definition ex_f1_start :: "u32 \<Rightarrow> fetch1 result" where
  "ex_f1_start w = rbind (lvpt_new 4 1 3) (fetch1_new 1 8 8 w 2 4 pc_new)"

definition ex_f1_cycle :: "bool \<Rightarrow> fetch1 \<Rightarrow> (line_data \<times> line_data inputbuf list \<times> activity \<times> fetch1) result" where
  "ex_f1_cycle b s = rbind (act_new 3 2 0) (\<lambda>act.
     f1_evaluate ex_f1_env (ex_f1_in b) (ex_f1_in False) (ld_new 0 lvpt_out_zero) [inputbuf_new 2] act s)"

definition ex_f1_answer :: "fetch1 \<Rightarrow> fetch1 result" where
  "ex_f1_answer s = rbind (vec_at (f1_sent s) 0) (\<lambda>k. rbind (pk_makeResponse k) (\<lambda>k. f1_recvTimingResp k s))"

definition ex_f1_woken :: "fetch1 result" where
  "ex_f1_woken = rbind (ex_f1_start 8) (wakeupFetch (\<lambda>_. pc_new) 0)"

definition ex_f1_answered :: "fetch1 result" where
  "ex_f1_answered = rbind ex_f1_woken (\<lambda>s. rbind (ex_f1_cycle False s) (\<lambda>(_, _, _, s). ex_f1_answer s))"

definition ex_f1_done :: "(line_data \<times> line_data inputbuf list \<times> activity \<times> fetch1) result" where
  "ex_f1_done = rbind ex_f1_answered (ex_f1_cycle True)"

lemma ex_f1_computed:
  "case ex_f1_done of Inr (l, _, _, s) \<Rightarrow> \<not> ld_isBubble l | Inl _ \<Rightarrow> False"
  "case ex_f1_answered of Inr s \<Rightarrow> lvpt_tableSize (f1_lvpt s) = 4 \<and> length (valueTable (f1_lvpt s)) = 4 \<and>
     length (predictTable (f1_lvpt s)) = 1 | Inl _ \<Rightarrow> False"
  by code_simp+

lemma ex_f1_first: "rbind ex_f1_woken (ex_f1_cycle False) = Inr (l, r) \<Longrightarrow> ld_isBubble l"
proof -
  have "case rbind ex_f1_woken (ex_f1_cycle False) of Inr (l, _) \<Rightarrow> ld_isBubble l | Inl _ \<Rightarrow> False" by code_simp
  then show "rbind ex_f1_woken (ex_f1_cycle False) = Inr (l, r) \<Longrightarrow> ld_isBubble l" by simp
qed

lemma cycle_trans: "ex_f1_cycle b s = Inr (l, n, a, s') \<Longrightarrow> f1_trans s (if ld_isBubble l then None else Some l) s'"
  unfolding ex_f1_cycle_def by (elim result_elims) (rule f1_cycle)

lemma answer_trans: "ex_f1_answer s = Inr s' \<Longrightarrow> f1_trans s None s'"
  unfolding ex_f1_answer_def by (elim result_elims) (rule f1_response)

lemma ex_f1_steps:
  obtains s0 s1 s2 l n a s where "ex_f1_start 8 = Inr s0" "ex_f1_answered = Inr s2" "f1_run s0 [] s2"
    "ex_f1_cycle True s2 = Inr (l, n, a, s)" "\<not> ld_isBubble l" "f1_run s0 [l] s" "lvpt_wf (f1_lvpt s2)"
    "ex_f1_done = Inr (l, n, a, s)"
proof -
  obtain l n a s where e: "ex_f1_done = Inr (l, n, a, s)" "\<not> ld_isBubble l"
    using ex_f1_computed(1) by (auto split: sum.splits)
  from e(1) obtain s2 where s2: "ex_f1_answered = Inr s2" "ex_f1_cycle True s2 = Inr (l, n, a, s)"
    unfolding ex_f1_done_def by (rule rbind_InrE)
  from s2(1) obtain s0 s1 l1 n1 a1 s1' where s0: "ex_f1_start 8 = Inr s0" "wakeupFetch (\<lambda>_. pc_new) 0 s0 = Inr s1"
    "ex_f1_cycle False s1 = Inr (l1, n1, a1, s1')" "ex_f1_answer s1' = Inr s2"
    by (auto simp: ex_f1_answered_def ex_f1_woken_def rbind_Inr_iff)
  have b: "ld_isBubble l1" using ex_f1_first s0 by (simp add: ex_f1_woken_def)
  have "f1_run s0 [] s1" using f1_more [OF f1_start f1_wake [OF s0(2)]] by simp
  from f1_more [OF f1_more [OF this cycle_trans [OF s0(3)]] answer_trans [OF s0(4)]] b
  have r: "f1_run s0 [] s2" by simp
  from f1_more [OF r cycle_trans [OF s2(2)]] e(2) have "f1_run s0 [l] s" by simp
  moreover have "lvpt_wf (f1_lvpt s2)" using ex_f1_computed(2) unfolding s2(1) by (simp add: lvpt_wf_def)
  ultimately show ?thesis using that [OF s0(1) s2(1) r s2(2) e(2) _ _ e(1)] by blast
qed


theorem fetch1_lines_current_witness:
  "\<exists>l n a s. ex_f1_done = Inr (l, n, a, s) \<and>
    (\<exists>t. arr_at (fetchInfo s) (threadId (ld_id l)) = Inr t \<and> streamSeqNum (ld_id l) = ft_streamSeqNum t \<and>
    predictionSeqNum (ld_id l) = ft_predictionSeqNum t)"
proof (rule ex_f1_steps)
  fix s2 l n a s
  assume s: "ex_f1_cycle True s2 = Inr (l, n, a, s)" "\<not> ld_isBubble l" "ex_f1_done = Inr (l, n, a, s)"
  from s(1) obtain act where "f1_evaluate ex_f1_env (ex_f1_in True) (ex_f1_in False) (ld_new 0 lvpt_out_zero) [inputbuf_new 2] act s2 = Inr (l, n, a, s)"
    by (auto simp: ex_f1_cycle_def rbind_Inr_iff)
  from fetch1_lines_current [OF this s(2)] show ?thesis using s(3) by blast
qed

theorem fetch1_trains_every_cycle_witness:
  "bd_isBubble (ex_f1_in True) \<and> (\<exists>l n a s. ex_f1_done = Inr (l, n, a, s) \<and>
    (\<exists>out. lvpt_read (f1_lvpt s) 2 = Inr out \<and> outPredict out \<and> outValue out = 5 \<and> outAddr out = 3))"
proof (rule ex_f1_steps)
  fix s2 l n a s
  assume s: "ex_f1_cycle True s2 = Inr (l, n, a, s)" "lvpt_wf (f1_lvpt s2)" "ex_f1_done = Inr (l, n, a, s)"
  from s(1) obtain act where "f1_evaluate ex_f1_env (ex_f1_in True) (ex_f1_in False) (ld_new 0 lvpt_out_zero) [inputbuf_new 2] act s2 = Inr (l, n, a, s)"
    by (auto simp: ex_f1_cycle_def rbind_Inr_iff)
  from fetch1_trains_every_cycle [OF this s(2)] show ?thesis
    using s(3) by (simp add: ex_f1_in_def bd_new_def bd_isBubble_def) blast
qed

lemma ex_f1_narrow:
  "case rbind (ex_f1_start 4) (\<lambda>s. rbind (fetchLine ex_f1_env 0 s) (\<lambda>s'. Inr (s, s'))) of
     Inr (s, s') \<Rightarrow> lineSnap s = 2 ^ 3 \<and> maxLineWidth s = 4 \<and> f1_base s 0 = Inr 0
   | Inl _ \<Rightarrow> False"
  by code_simp

theorem fetch_line_progress_witness:
  "\<exists>s s'. ex_f1_start 4 = Inr s \<and> fetchLine ex_f1_env 0 s = Inr s' \<and> f1_base s 0 = Inr 0 \<and> f1_base s' 0 = Inr 0"
proof -
  obtain s s' where s: "ex_f1_start 4 = Inr s" "fetchLine ex_f1_env 0 s = Inr s'" "lineSnap s = 2 ^ 3"
    "maxLineWidth s = 4" "f1_base s 0 = Inr 0"
    using ex_f1_narrow by (auto simp: rbind_Inr_iff split: sum.splits)
  from fetch_line_progress [OF s(3) _ s(2,5)] s show ?thesis by simp
qed

end
