(* ===== verification/Spec2Isabelle.thy ===== *)
theory Spec2Isabelle
  imports LVPT CVU Scoreboard FuncUnit BPredSpec Decode ExecuteDummy BitField LSQInv Fetch1Inv
begin

text \<open>
  A verification of the in-order processor model \<^verbatim>\<open>src/src/cpu/myminor\<close> with load value
  prediction, of the branch predictors \<^verbatim>\<open>src/src/cpu/pred\<close> it uses, and of the generic parts
  both rest on.

  \<^bold>\<open>The program.\<close>  The processor is a pipeline of stages joined by latches: Fetch1 fetches lines, Fetch2
  cuts them into instructions and predicts branches, Decode splits macro instructions, ExecuteDummy
  and Execute issue instructions to functional units under control of a scoreboard and commit them,
  and the load/store queue talks to memory.  Every stage owns an input buffer per thread in which the
  stage before it reserves room.  A load value prediction table (LVPT) guesses the value of a load
  from its program counter; loads whose guess proved right often enough are constants, and a constant
  verification unit (CVU) remembers which of them no store has touched since.

  \<^bold>\<open>Model.\<close>  A class is a \<^theory_text>\<open>record\<close>, an enum a \<^theory_text>\<open>datatype\<close>, and a method a function from the object and its
  arguments to a result of type \<^theory_text>\<open>error + state\<close>: a failed \<^verbatim>\<open>assert\<close>, a \<^verbatim>\<open>fatal\<close>, an access outside a
  container, a null dereference and an unassigned value are errors.  Machine integers keep their
  width.  Values the code draws at random, uninitialised memory, the program counter arithmetic of an
  instruction set, and virtual methods are arguments.  Statistics are modelled where the code reads them.

  \<^bold>\<open>Theories, in order.\<close>
  \<^item> Prelude: results, containers, folds with errors, word facts.
  \<^item> LVPT, CVU: the load value prediction table and the constant verification unit.  The tables never
    leave their bounds, a trained load is predicted and confirmed loads become constant; a hit in the
    verification unit means that memory still holds the predicted value.  The CVU is an
    instance of the interface \<^theory_text>\<open>value_cache\<close>.
  \<^item> TimeBuf (\<^verbatim>\<open>timebuf.hh\<close>), Buffers (\<^verbatim>\<open>buffers.hh\<close>): the circular time buffer implements a shift
    register; on it latches delay, self-stalling pipelines have exactly their latency, and an input
    buffer is a first-in first-out queue that reservations keep below its capacity.  Interfaces
    \<^theory_text>\<open>shift_register\<close>, \<^theory_text>\<open>bubble_traits\<close>, \<^theory_text>\<open>fifo\<close> and \<^theory_text>\<open>reservable\<close>.
  \<^item> Activity (\<^verbatim>\<open>activity.cc\<close>): the count of activity is exact and an idle pipeline drains.
  \<^item> PCState (\<^verbatim>\<open>pcstate.hh\<close>), DynInst (\<^verbatim>\<open>dyn_inst.hh\<close>), PipeData (\<^verbatim>\<open>pipe_data.hh\<close>): the data that flows
    between stages; a fetched line is freed once, copies of packets are faithful, printed instruction
    identifiers determine the instruction.
  \<^item> Scoreboard, FuncUnit: an instruction is not issued before its operands are available, marking and
    clearing are inverse, and functional units accept instructions at their issue latency.
  \<^item> IntMath (\<^verbatim>\<open>intmath.hh\<close>), SatCounter (\<^verbatim>\<open>sat_counter.hh\<close>): logarithms, powers of two, wide products,
    saturating arithmetic.
  \<^item> BTB, RAS, DirPred, LocalBP, BiMode, IndirectPred (\<^verbatim>\<open>src/src/cpu/pred\<close>): target buffer, return address
    stack, direction and indirect predictors.  DirPred holds the interfaces \<^theory_text>\<open>direction_predictor\<close> and
    \<^theory_text>\<open>indirect_predictor\<close>; LocalBP, BiMode and IndirectPred interpret them.
  \<^item> BPredUnit, BPredSpec (\<^verbatim>\<open>bpred_unit.cc\<close>): the unit that composes them.  In the interface
    \<^theory_text>\<open>branch_unit\<close> every run of predictions followed by a squash is undone, and a repaired
    misprediction leaves the unit ready to predict the actual outcome.
  \<^item> Stages (thread policies of \<^verbatim>\<open>cpu.hh\<close>, packets between stages), PackStage: what Decode and ExecuteDummy
    have in common, a stage that takes packets apart and packs its output.  Interfaces \<^theory_text>\<open>packing_loop\<close> and
    \<^theory_text>\<open>pack_stage\<close>.
    Round-robin scheduling serves every ready thread within as many cycles as there are threads.
  \<^item> Decode (\<^verbatim>\<open>decode.cc\<close>), ExecuteDummy (\<^verbatim>\<open>executeDummy.cc\<close>): every instruction that arrives leaves in order,
    expanded into its micro-ops in Decode, and consecutively numbered.
  \<^item> BitField (\<^verbatim>\<open>bitfield.hh\<close>), MemPacket (\<^verbatim>\<open>request.hh\<close>, \<^verbatim>\<open>packet.hh\<close>, \<^verbatim>\<open>packet.cc\<close>): bit searches, memory requests with
    their flags, commands with their attribute table, and packets.
  \<^item> LSQReq, LSQSplit, LSQ, LSQForward, LSQFrame, LSQInv (\<^verbatim>\<open>lsq.cc\<close>): the requests of the load/store queue, the
    cutting of a transfer into fragments and the reassembly of its data, the queue and its store
    buffer, forwarding from the store buffer, what each operation leaves alone, and the invariant of every
    reachable state.  A load leaves only once the older stores are in the store buffer, and what it is
    forwarded from there are the youngest bytes stored.
    Requests are pointers into an explicit store of live objects, so a use after \<^verbatim>\<open>delete\<close> is an error.
  \<^item> Fetch1, Fetch1Inv (\<^verbatim>\<open>fetch1.cc\<close>): the stage that requests lines, as a transition system of its cycles,
    translation and cache answers, retries and wakeups.  Lines leave in the order of their requests and
    belong to the current stream and prediction; the fetch address moves on, unless the stage was
    configured with lines narrower than the snap; the LVPT is trained in every cycle.

  A loop of the code is structural recursion or a \<^theory_text>\<open>function\<close> with a termination proof (the packing loop
  by the free output, then the buffered packets, then the instructions left in the current one), so
  no bound or fuel is chosen anywhere.

  \<^bold>\<open>Not modelled.\<close>  Fetch2 and Execute run the decoder and the instruction code that are generated from the
  instruction set descriptions; the structures they drive (branch prediction unit, input buffers,
  scoreboard, functional units, load/store queue, LVPT and CVU) are modelled.  The pipeline and processor
  objects wire the stages together and run on the event loop of the simulation kernel.  The other
  instruction sets, processor models, direction predictors, the memory system, devices, the simulation
  kernel and the Python configuration are separate programs that this pipeline only calls or that
  call it; tracing and statistics output has no effect on the simulation.
\<close>

end
